(* ===== verification/Prelude.thy ===== *)
theory Prelude
  imports Main "HOL-Library.AList" "HOL-Library.Char_ord" "HOL-Library.List_Lexorder"
begin

text \<open>
  Shared vocabulary of the development: Go maps, Go strings and Go integers as the
  daemon uses them, with the lemmas every component proof relies on.

  A Go \<^verbatim>\<open>map[K]V\<close> is an association list whose keys are distinct. Lookup,
  assignment and \<^verbatim>\<open>delete\<close> are \<open>map_of\<close>, \<open>AList.update\<close> and
  \<open>AList.delete\<close>; \<^verbatim>\<open>range\<close> follows the list. Go leaves the order of
  \<^verbatim>\<open>range\<close> open, so every theorem quantifies over all lists that present a map.
  A Go \<^verbatim>\<open>string\<close> is its list of bytes.
\<close>

section \<open>Maps\<close>

type_synonym ('k, 'v) gomap = "('k \<times> 'v) list"

named_theorems frame \<open>which fields an operation leaves alone\<close>
named_theorems reply \<open>what a handler answers on each branch\<close>

definition keys_ok :: "('k, 'v) gomap \<Rightarrow> bool" where
  "keys_ok m \<longleftrightarrow> distinct (map fst m)"

definition get_or :: "'v \<Rightarrow> ('k, 'v) gomap \<Rightarrow> 'k \<Rightarrow> 'v" where
  \<comment> \<open>indexing a map: the zero value of the element type when the key is missing\<close>
  "get_or z m k = (case map_of m k of None \<Rightarrow> z | Some v \<Rightarrow> v)"

lemma keys_ok_Nil [simp]: "keys_ok []"
  by (simp add: keys_ok_def)

lemma keys_ok_update [simp]: "keys_ok m \<Longrightarrow> keys_ok (AList.update k v m)"
  by (simp add: keys_ok_def distinct_update)

lemma keys_ok_delete [simp]: "keys_ok m \<Longrightarrow> keys_ok (AList.delete k m)"
  by (simp add: keys_ok_def distinct_delete)

lemma map_of_update [simp]: "map_of (AList.update k v m) = (map_of m)(k \<mapsto> v)"
  by (rule update_conv')

lemma map_of_delete [simp]: "map_of (AList.delete k m) = (map_of m)(k := None)"
  by (rule delete_conv')

lemma get_or_Nil [simp]: "get_or z [] k = z"
  by (simp add: get_or_def)

lemma get_or_update [simp]:
  "get_or z (AList.update k v m) k' = (if k' = k then v else get_or z m k')"
  by (simp add: get_or_def)

lemma get_or_delete [simp]:
  "get_or z (AList.delete k m) k' = (if k' = k then z else get_or z m k')"
  by (simp add: get_or_def)

lemma map_of_mem: "map_of m k = Some v \<Longrightarrow> (k, v) \<in> set m"
  by (rule map_of_SomeD)

lemma mem_map_of: "keys_ok m \<Longrightarrow> (k, v) \<in> set m \<Longrightarrow> map_of m k = Some v"
  by (simp add: keys_ok_def)

lemma mem_map_of_iff: "keys_ok m \<Longrightarrow> (k, v) \<in> set m \<longleftrightarrow> map_of m k = Some v"
  by (simp add: keys_ok_def)

lemma map_of_perm:
  assumes "keys_ok m" "keys_ok m'" "set m = set m'"
  shows "map_of m = map_of m'"
proof
  fix k
  have "map_of m k = Some v \<longleftrightarrow> map_of m' k = Some v" for v
    using assms by (simp flip: mem_map_of_iff)
  then show "map_of m k = map_of m' k"
    by (metis option.exhaust)
qed

text \<open>A set kept as a map to \<^verbatim>\<open>bool\<close> (\<^verbatim>\<open>members\<close>) is the list of its keys.\<close>

definition add_member :: "'a \<Rightarrow> 'a list \<Rightarrow> 'a list" where
  "add_member m ms = (if m \<in> set ms then ms else ms @ [m])"

definition del_member :: "'a \<Rightarrow> 'a list \<Rightarrow> 'a list" where
  "del_member m ms = filter (\<lambda>x. x \<noteq> m) ms"

lemma set_add_member [simp]: "set (add_member m ms) = insert m (set ms)"
  by (auto simp: add_member_def)

lemma set_del_member [simp]: "set (del_member m ms) = set ms - {m}"
  by (auto simp: del_member_def)

lemma distinct_add_member [simp]: "distinct ms \<Longrightarrow> distinct (add_member m ms)"
  by (simp add: add_member_def)

lemma distinct_del_member [simp]: "distinct ms \<Longrightarrow> distinct (del_member m ms)"
  by (simp add: del_member_def)

lemma length_add_member: "length (add_member m ms) \<le> Suc (length ms)"
  by (simp add: add_member_def)

lemma length_del_member: "length (del_member m ms) \<le> length ms"
  by (simp add: del_member_def)

section \<open>Sequence numbers\<close>

text \<open>The numbers of a log: \<open>1, 2, ..., n\<close>, in this order.\<close>

definition seqs_upto :: "int \<Rightarrow> int list" where
  "seqs_upto n = map (\<lambda>i. int i + 1) [0..<nat n]"

lemma seqs_upto_0 [simp]: "seqs_upto 0 = []"
  by (simp add: seqs_upto_def)

lemma seqs_upto_Suc: "0 \<le> n \<Longrightarrow> seqs_upto (n + 1) = seqs_upto n @ [n + 1]"
  by (simp add: seqs_upto_def nat_add_distrib)

lemma set_seqs_upto: "set (seqs_upto n) = {1..n}"
proof -
  have "x \<in> (\<lambda>i. int i + 1) ` {0..<nat n}" if "1 \<le> x" "x \<le> n" for x
    using that by (intro image_eqI[of _ _ "nat (x - 1)"]) auto
  then show ?thesis by (auto simp: seqs_upto_def)
qed

lemma sorted_wrt_snoc:
  "sorted_wrt R (xs @ [x]) \<longleftrightarrow> sorted_wrt R xs \<and> (\<forall>y\<in>set xs. R y x)"
  by (auto simp: sorted_wrt_append)

lemma sorted_wrt_tl: "sorted_wrt R xs \<Longrightarrow> sorted_wrt R (tl xs)"
  by (cases xs) auto

section \<open>Loops\<close>

text \<open>A Go loop that threads the state through its iterations.\<close>

lemma fold_keeps:
  assumes "\<And>x s. x \<in> set xs \<Longrightarrow> P s \<Longrightarrow> P (f x s)" and "P s"
  shows "P (fold f xs s)"
  using assms by (induction xs arbitrary: s) auto

lemma fold_same:
  assumes "\<And>x s. x \<in> set xs \<Longrightarrow> g (f x s) = g s"
  shows "g (fold f xs s) = g s"
  using assms by (induction xs arbitrary: s) auto

section \<open>Invariants of a machine\<close>

text \<open>
  The contract the daemon's invariants share: a predicate on states that the start
  state has and every step keeps holds after every run.
\<close>

locale invariant_of =
  fixes apply_event :: "'e \<Rightarrow> 's \<Rightarrow> 's"
    and allowed :: "'e \<Rightarrow> 's \<Rightarrow> bool"
    and inv :: "'s \<Rightarrow> bool"
  assumes step_keeps: "inv s \<Longrightarrow> allowed e s \<Longrightarrow> inv (apply_event e s)"
begin

fun legal :: "'e list \<Rightarrow> 's \<Rightarrow> bool" where
  "legal [] s = True"
| "legal (e # es) s = (allowed e s \<and> legal es (apply_event e s))"

lemma run_keeps: "inv s \<Longrightarrow> legal es s \<Longrightarrow> inv (fold apply_event es s)"
  by (induction es arbitrary: s) (auto intro: step_keeps)

lemma run_prefix_keeps:
  "inv s \<Longrightarrow> legal (es @ fs) s \<Longrightarrow> inv (fold apply_event es s)"
  by (induction es arbitrary: s) (auto intro: step_keeps)

end

end
