(* ===== verification/Go_Strings.thy ===== *)
theory Go_Strings
  imports Prelude
begin

text \<open>
  The part of Go's \<^verbatim>\<open>strings\<close>, \<^verbatim>\<open>strconv\<close> and \<^verbatim>\<open>fmt\<close> packages
  that the sources call, on byte strings, and the facts about them that the formats of the
  daemon (transcript files, paths, addresses) rest on.
\<close>

abbreviation nl :: char where "nl \<equiv> CHR 0x0A"
abbreviation dquote :: char where "dquote \<equiv> CHR 0x22"

section \<open>Prefixes, suffixes, substrings\<close>

fun hasPrefix :: "string \<Rightarrow> string \<Rightarrow> bool" where
  "hasPrefix s [] = True"
| "hasPrefix [] (p # ps) = False"
| "hasPrefix (c # cs) (p # ps) = (c = p \<and> hasPrefix cs ps)"

definition hasSuffix :: "string \<Rightarrow> string \<Rightarrow> bool" where
  "hasSuffix s p = hasPrefix (rev s) (rev p)"

definition trimPrefix :: "string \<Rightarrow> string \<Rightarrow> string" where
  "trimPrefix s p = (if hasPrefix s p then drop (length p) s else s)"

definition trimSuffix :: "string \<Rightarrow> string \<Rightarrow> string" where
  "trimSuffix s p = (if hasSuffix s p then take (length s - length p) s else s)"

definition trimLeft :: "string \<Rightarrow> char \<Rightarrow> string" where
  "trimLeft s c = dropWhile (\<lambda>x. x = c) s"

definition trimRight :: "string \<Rightarrow> char \<Rightarrow> string" where
  "trimRight s c = rev (dropWhile (\<lambda>x. x = c) (rev s))"

definition trimBoth :: "string \<Rightarrow> char \<Rightarrow> string" where
  "trimBoth s c = trimRight (trimLeft s c) c"

definition isSpace :: "char \<Rightarrow> bool" where
  "isSpace c \<longleftrightarrow> c \<in> {CHR 0x20, CHR 0x09, CHR 0x0A, CHR 0x0B, CHR 0x0C, CHR 0x0D}"

definition trimSpace :: "string \<Rightarrow> string" where
  "trimSpace s = rev (dropWhile isSpace (rev (dropWhile isSpace s)))"

fun strIndex :: "string \<Rightarrow> string \<Rightarrow> nat option" where
  \<comment> \<open>\<^verbatim>\<open>strings.Index\<close>: the least position of the substring; \<open>None\<close> for -1\<close>
  "strIndex [] p = (if p = [] then Some 0 else None)"
| "strIndex (c # cs) p =
     (if hasPrefix (c # cs) p then Some 0 else map_option Suc (strIndex cs p))"

definition contains :: "string \<Rightarrow> string \<Rightarrow> bool" where
  "contains s p = (strIndex s p \<noteq> None)"

definition cut :: "string \<Rightarrow> string \<Rightarrow> (string \<times> string) option" where
  \<comment> \<open>\<^verbatim>\<open>strings.Cut\<close>: around the first separator; \<open>None\<close> when it is absent\<close>
  "cut s p = (case strIndex s p of None \<Rightarrow> None
     | Some i \<Rightarrow> Some (take i s, drop (i + length p) s))"

fun splitOn :: "char \<Rightarrow> string \<Rightarrow> string list" where
  \<comment> \<open>\<^verbatim>\<open>strings.Split\<close> on a one-byte separator\<close>
  "splitOn c [] = [[]]"
| "splitOn c (x # xs) =
     (if x = c then [] # splitOn c xs
      else case splitOn c xs of [] \<Rightarrow> [[x]] | p # ps \<Rightarrow> (x # p) # ps)"

fun splitN :: "nat \<Rightarrow> char \<Rightarrow> string \<Rightarrow> string list" where
  \<comment> \<open>\<^verbatim>\<open>strings.SplitN\<close> for a positive count: at most that many parts\<close>
  "splitN 0 c s = []"
| "splitN (Suc 0) c s = [s]"
| "splitN (Suc (Suc n)) c s =
     (case cut s [c] of None \<Rightarrow> [s] | Some (a, b) \<Rightarrow> a # splitN (Suc n) c b)"

fun joinWith :: "string \<Rightarrow> string list \<Rightarrow> string" where
  "joinWith sep [] = []"
| "joinWith sep [x] = x"
| "joinWith sep (x # y # ys) = x @ sep @ joinWith sep (y # ys)"

definition lowerChar :: "char \<Rightarrow> char" where
  "lowerChar c = (let n = (of_char c :: nat) in
     if 65 \<le> n \<and> n \<le> 90 then char_of (n + 32) else c)"

definition toLower :: "string \<Rightarrow> string" where
  "toLower s = map lowerChar s"

section \<open>Decimal numbers\<close>

definition digit :: "nat \<Rightarrow> char" where
  "digit d = char_of (48 + d)"

fun itoaN :: "nat \<Rightarrow> string" where
  "itoaN n = (if n < 10 then [digit n] else itoaN (n div 10) @ [digit (n mod 10)])"

declare itoaN.simps [simp del]

definition itoa :: "int \<Rightarrow> string" where
  \<comment> \<open>\<^verbatim>\<open>%d\<close>\<close>
  "itoa i = (if i < 0 then CHR ''-'' # itoaN (nat (- i)) else itoaN (nat i))"

definition padLeft :: "nat \<Rightarrow> string \<Rightarrow> string" where
  "padLeft w s = replicate (w - length s) (CHR ''0'') @ s"

definition pad06 :: "int \<Rightarrow> string" where
  \<comment> \<open>\<^verbatim>\<open>%06d\<close>; the sign counts toward the width\<close>
  "pad06 i = (if i < 0 then CHR ''-'' # padLeft 5 (itoaN (nat (- i))) else padLeft 6 (itoaN (nat i)))"

definition isDigit :: "char \<Rightarrow> bool" where
  "isDigit c \<longleftrightarrow> 48 \<le> (of_char c :: nat) \<and> (of_char c :: nat) \<le> 57"

definition digitVal :: "char \<Rightarrow> nat" where
  "digitVal c = (of_char c :: nat) - 48"

definition digitsVal :: "string \<Rightarrow> nat" where
  "digitsVal s = foldl (\<lambda>a c. 10 * a + digitVal c) 0 s"

definition parseNat :: "string \<Rightarrow> nat option" where
  "parseNat s = (if s \<noteq> [] \<and> list_all isDigit s then Some (digitsVal s) else None)"

definition int64_max :: int where "int64_max = 9223372036854775807"

definition atoi :: "string \<Rightarrow> int option" where
  \<comment> \<open>\<^verbatim>\<open>strconv.Atoi\<close>: an optional sign, then digits, within 64 bits\<close>
  "atoi s = (case s of [] \<Rightarrow> None
     | c # cs \<Rightarrow>
        (let neg = (c = CHR ''-''); body = (if c = CHR ''-'' \<or> c = CHR ''+'' then cs else s)
         in case parseNat body of None \<Rightarrow> None
            | Some n \<Rightarrow> if neg then (if int n \<le> int64_max + 1 then Some (- int n) else None)
                        else if int n \<le> int64_max then Some (int n) else None))"

section \<open>Facts\<close>

lemma hasPrefix_append [simp]: "hasPrefix (p @ s) p"
  by (induction p) auto

lemma hasPrefix_iff: "hasPrefix s p \<longleftrightarrow> (\<exists>t. s = p @ t)"
  by (induction s p rule: hasPrefix.induct) auto

lemma trimPrefix_append [simp]: "trimPrefix (p @ s) p = s"
  by (simp add: trimPrefix_def)

lemma hasSuffix_append [simp]: "hasSuffix (s @ p) p"
  by (simp add: hasSuffix_def)

lemma hasSuffix_iff: "hasSuffix s p \<longleftrightarrow> (\<exists>t. s = t @ p)"
  by (auto simp: hasSuffix_def hasPrefix_iff) (metis rev_append rev_rev_ident)

lemma strIndex_found: "strIndex s p = Some i \<Longrightarrow> \<exists>t. s = take i s @ p @ t \<and> i + length p \<le> length s"
proof (induction s p arbitrary: i rule: strIndex.induct)
  case (1 p) then show ?case by (auto split: if_splits)
next
  case (2 c cs p)
  show ?case
  proof (cases "hasPrefix (c # cs) p")
    case True
    with "2.prems" have "i = 0" by simp
    moreover obtain t where t: "c # cs = p @ t" using True hasPrefix_iff by blast
    moreover have "length p \<le> length (c # cs)" unfolding t by simp
    ultimately show ?thesis by (auto simp del: list.size)
  next
    case False
    with "2.prems" obtain j where j: "strIndex cs p = Some j" "i = Suc j" by auto
    with "2.IH" False obtain t where "cs = take j cs @ p @ t" "j + length p \<le> length cs"
      by blast
    with j show ?thesis by auto
  qed
qed

lemma strIndex_char_absent: "c \<notin> set s \<Longrightarrow> strIndex s [c] = None"
  by (induction s) auto

lemma strIndex_char: "c \<notin> set s \<Longrightarrow> strIndex (s @ c # t) [c] = Some (length s)"
  by (induction s) auto

lemma cut_char: "c \<notin> set s \<Longrightarrow> cut (s @ c # t) [c] = Some (s, t)"
  by (simp add: cut_def strIndex_char)

lemma cut_char_absent: "c \<notin> set s \<Longrightarrow> cut s [c] = None"
  by (simp add: cut_def strIndex_char_absent)

text \<open>A separator of two bytes whose first byte does not occur before it.\<close>

lemma strIndex_two: "a \<notin> set s \<Longrightarrow> strIndex (s @ a # b # t) [a, b] = Some (length s)"
  by (induction s) auto

lemma cut_two: "a \<notin> set s \<Longrightarrow> cut (s @ a # b # t) [a, b] = Some (s, t)"
  by (simp add: cut_def strIndex_two)

lemma splitOn_nonempty [simp]: "splitOn c s \<noteq> []"
  by (induction s) (auto split: list.splits)

lemma splitOn_absent: "c \<notin> set s \<Longrightarrow> splitOn c s = [s]"
  by (induction s) auto

lemma splitOn_append: "c \<notin> set s \<Longrightarrow> splitOn c (s @ c # t) = s # splitOn c t"
  by (induction s) auto

lemma joinWith_splitOn: "joinWith [c] (splitOn c s) = s"
proof (induction s)
  case Nil then show ?case by simp
next
  case (Cons x s)
  obtain p ps where sp: "splitOn c s = p # ps"
    by (cases "splitOn c s") auto
  with Cons show ?case by (cases ps) auto
qed

lemma trimRight_id: "s = [] \<or> last s \<noteq> c \<Longrightarrow> trimRight s c = s"
  by (cases s rule: rev_cases) (auto simp: trimRight_def)

lemma trimRight_snoc [simp]: "trimRight (s @ [c]) c = trimRight s c"
  by (simp add: trimRight_def)

lemma trimRight_last: "trimRight s c \<noteq> [] \<Longrightarrow> last (trimRight s c) \<noteq> c"
  using hd_dropWhile [of "\<lambda>x. x = c" "rev s"] by (auto simp: trimRight_def last_rev simp del: dropWhile_eq_Nil_conv)

lemma trimRight_idem [simp]: "trimRight (trimRight s c) c = trimRight s c"
  using trimRight_id trimRight_last by blast

lemma trimRight_split: "\<exists>n. s = trimRight s c @ replicate n c"
proof (induction s rule: rev_induct)
  case Nil then show ?case by (simp add: trimRight_def)
next
  case (snoc x s)
  show ?case
  proof (cases "x = c")
    case True
    from snoc obtain n where "s = trimRight s c @ replicate n c" by blast
    then have "s @ [x] = trimRight (s @ [x]) c @ replicate (Suc n) c"
      using True by (metis append_assoc replicate_append_same replicate_Suc trimRight_snoc)
    then show ?thesis by blast
  next
    case False
    then have "s @ [x] = trimRight (s @ [x]) c @ replicate 0 c"
      by (simp add: trimRight_id)
    then show ?thesis by blast
  qed
qed

subsection \<open>Digits\<close>

lemma of_char_digit: "d < 10 \<Longrightarrow> (of_char (digit d) :: nat) = 48 + d"
  by (simp add: digit_def)

lemma isDigit_digit [simp]: "d < 10 \<Longrightarrow> isDigit (digit d)"
  by (simp add: isDigit_def of_char_digit)

lemma digitVal_digit [simp]: "d < 10 \<Longrightarrow> digitVal (digit d) = d"
  by (simp add: digitVal_def of_char_digit)

lemma digitsVal_snoc [simp]: "digitsVal (s @ [c]) = 10 * digitsVal s + digitVal c"
  by (simp add: digitsVal_def)

lemma digitsVal_Nil [simp]: "digitsVal [] = 0"
  by (simp add: digitsVal_def)

lemma itoaN_nonempty [simp]: "itoaN n \<noteq> []"
  by (subst itoaN.simps) simp

lemma itoaN_digits: "list_all isDigit (itoaN n)"
proof (induction n rule: itoaN.induct)
  case (1 n)
  then show ?case by (subst itoaN.simps) auto
qed

lemma digitsVal_itoaN [simp]: "digitsVal (itoaN n) = n"
proof (induction n rule: itoaN.induct)
  case (1 n)
  show ?case
  proof (cases "n < 10")
    case True
    then have "itoaN n = [] @ [digit n]" by (subst itoaN.simps) simp
    then show ?thesis using True by (metis digitsVal_Nil digitsVal_snoc digitVal_digit mult_0_right add_0)
  next
    case False
    then have "itoaN n = itoaN (n div 10) @ [digit (n mod 10)]" by (subst itoaN.simps) simp
    then show ?thesis using 1 False by simp
  qed
qed

lemma parseNat_itoaN [simp]: "parseNat (itoaN n) = Some n"
  by (simp add: parseNat_def itoaN_digits)

lemma isDigit_not_sign: "isDigit c \<Longrightarrow> c \<noteq> CHR ''-'' \<and> c \<noteq> CHR ''+'' \<and> c \<noteq> nl"
  by (auto simp: isDigit_def)

lemma itoaN_no_char: "\<not> isDigit c \<Longrightarrow> c \<notin> set (itoaN n)"
  using itoaN_digits[of n] by (auto simp: list_all_iff)

lemma itoa_no_nl: "nl \<notin> set (itoa i)"
  using itoaN_no_char[of nl] by (auto simp: itoa_def isDigit_def)

theorem atoi_itoa: "- int64_max - 1 \<le> i \<Longrightarrow> i \<le> int64_max \<Longrightarrow> atoi (itoa i) = Some i"
proof -
  assume b: "- int64_max - 1 \<le> i" "i \<le> int64_max"
  show ?thesis
  proof (cases "i < 0")
    case True
    with b show ?thesis by (simp add: itoa_def atoi_def)
  next
    case False
    obtain c cs where e: "itoaN (nat i) = c # cs" by (cases "itoaN (nat i)") auto
    then have "isDigit c" using itoaN_digits[of "nat i"] by (simp add: list_all_iff)
    with False b show ?thesis
      using parseNat_itoaN[of "nat i"] e isDigit_not_sign[of c] by (simp add: itoa_def atoi_def)
  qed
qed

lemma length_itoaN: "n < 10 ^ k \<Longrightarrow> 0 < k \<Longrightarrow> length (itoaN n) \<le> k"
proof (induction n arbitrary: k rule: itoaN.induct)
  case (1 n)
  show ?case
  proof (cases "n < 10")
    case True
    then show ?thesis using 1 by (subst itoaN.simps) simp
  next
    case False
    with 1 obtain j where k: "k = Suc j" "0 < j"
      by (cases k) (auto, metis less_one neq0_conv power_0 power_Suc0_right power_one_right linorder_not_less mult.right_neutral power_Suc)
    have "n div 10 < 10 ^ j" using 1(2) k by (simp add: div_less_iff_less_mult mult.commute)
    with 1(1)[OF False this k(2)] False k show ?thesis by (subst itoaN.simps) simp
  qed
qed

lemma list_all_padLeft [simp]: "list_all isDigit s \<Longrightarrow> list_all isDigit (padLeft w s)"
  by (auto simp: padLeft_def list_all_iff isDigit_def)

lemma digitsVal_append:
  "digitsVal (s @ t) = digitsVal s * 10 ^ length t + digitsVal t"
proof (induction t rule: rev_induct)
  case (snoc x t)
  then show ?case by (simp flip: append_assoc add: algebra_simps)
qed simp

lemma digitsVal_zeros [simp]: "digitsVal (replicate n (CHR ''0'')) = 0"
proof (induction n)
  case (Suc n)
  have "replicate (Suc n) (CHR ''0'') = replicate n (CHR ''0'') @ [CHR ''0'']"
    by (simp add: replicate_append_same)
  with Suc show ?case by (simp add: digitVal_def del: replicate_Suc)
qed simp

lemma digitsVal_padLeft [simp]: "digitsVal (padLeft w s) = digitsVal s"
  by (simp add: padLeft_def digitsVal_append)

lemma length_padLeft: "length s \<le> w \<Longrightarrow> length (padLeft w s) = w"
  by (simp add: padLeft_def)

end
