(* ===== verification/Go_Time.thy ===== *)
theory Go_Time
  imports Go_Strings
begin

text \<open>
  Go's \<^verbatim>\<open>time.Time\<close> as the daemon uses it: an instant in nanoseconds since the Unix
  epoch, its RFC3339 text, with and without the fraction of a second, and back (\<open>parse_nano\<close>,
  \<open>parse_format\<close>). The daemon's local zone is taken to be UTC. The calendar
  follows \<^verbatim>\<open>absDate\<close> of the \<^verbatim>\<open>time\<close> package (cycles of 400, 100, 4 and 1 years). Mailbox rows and transcript headers keep whole seconds, the files of agents and tasks keep
  the nanoseconds.
\<close>

type_synonym time = int

definition second :: time where "second = 1000000000"

definition trunc_sec :: "time \<Rightarrow> time" where
  "trunc_sec t = t div second * second"

definition zero_time :: time where
  \<comment> \<open>the zero value: January 1 of year 1\<close>
  "zero_time = - 62135596800 * second"

definition leap :: "int \<Rightarrow> bool" where
  "leap y \<longleftrightarrow> y mod 4 = 0 \<and> (y mod 100 \<noteq> 0 \<or> y mod 400 = 0)"

definition month_days :: "int \<Rightarrow> int list" where
  "month_days y = [31, if leap y then 29 else 28, 31, 30, 31, 30, 31, 31, 30, 31, 30, 31]"

definition days_before_year :: "int \<Rightarrow> int" where
  "days_before_year y = (let p = y - 1 in 365 * p + p div 4 - p div 100 + p div 400)"

definition year_yday :: "int \<Rightarrow> int \<times> int" where
  \<comment> \<open>from days since January 1 of year 1\<close>
  "year_yday d =
     (let n400 = d div 146097; d1 = d mod 146097;
          n100 = d1 div 36524; n100 = n100 - n100 div 4; d2 = d1 - 36524 * n100;
          n4 = d2 div 1461; d3 = d2 - 1461 * n4;
          n1 = d3 div 365; n1 = n1 - n1 div 4
      in (400 * n400 + 100 * n100 + 4 * n4 + n1 + 1, d3 - 365 * n1))"

fun month_day :: "int \<Rightarrow> int list \<Rightarrow> int \<Rightarrow> int \<times> int" where
  "month_day m [] d = (m, d + 1)"
| "month_day m (l # ls) d = (if d < l then (m, d + 1) else month_day (m + 1) ls (d - l))"

fun yday_of :: "int list \<Rightarrow> int \<Rightarrow> int \<Rightarrow> int" where
  "yday_of [] m dd = dd - 1"
| "yday_of (l # ls) m dd = (if m \<le> 1 then dd - 1 else l + yday_of ls (m - 1) dd)"

definition epoch_days :: int where "epoch_days = 719162"

definition padW :: "nat \<Rightarrow> int \<Rightarrow> string" where
  "padW w i = padLeft w (itoaN (nat i))"

definition dateTime :: "time \<Rightarrow> string" where
  \<comment> \<open>the text up to the second\<close>
  "dateTime t =
     (let s = t div second; days = s div 86400; r = s mod 86400;
          (y, yd) = year_yday (days + epoch_days);
          (m, d) = month_day 1 (month_days y) yd
      in padW 4 y @ ''-'' @ padW 2 m @ ''-'' @ padW 2 d @ ''T'' @
         padW 2 (r div 3600) @ '':'' @ padW 2 (r mod 3600 div 60) @ '':'' @ padW 2 (r mod 60))"

definition rfc3339 :: "time \<Rightarrow> string" where
  "rfc3339 t = dateTime t @ ''Z''"

definition trimZeros :: "string \<Rightarrow> string" where
  "trimZeros s = rev (dropWhile (\<lambda>c. c = CHR ''0'') (rev s))"

definition fraction :: "time \<Rightarrow> string" where
  \<comment> \<open>of nanoseconds, without the zeros at its end\<close>
  "fraction ns = (if ns = 0 then [] else ''.'' @ trimZeros (padW 9 ns))"

definition rfc3339nano :: "time \<Rightarrow> string" where
  "rfc3339nano t = dateTime t @ fraction (t mod second) @ ''Z''"

definition take_num :: "nat \<Rightarrow> string \<Rightarrow> (int \<times> string) option" where
  "take_num w s = (if length s < w then None
     else case parseNat (take w s) of None \<Rightarrow> None | Some n \<Rightarrow> Some (int n, drop w s))"

fun lit :: "char \<Rightarrow> string \<Rightarrow> string option" where
  "lit c [] = None"
| "lit c (x # xs) = (if x = c then Some xs else None)"

definition parse_zone :: "string \<Rightarrow> int option" where
  \<comment> \<open>seconds east of UTC\<close>
  "parse_zone s = (case s of [] \<Rightarrow> None
     | c # cs \<Rightarrow>
        if c = CHR ''Z'' then (if cs = [] then Some 0 else None)
        else if c = CHR ''+'' \<or> c = CHR ''-'' then
          Option.bind (take_num 2 cs) (\<lambda>(h, s1). Option.bind (lit CHR '':'' s1) (\<lambda>s2.
          Option.bind (take_num 2 s2) (\<lambda>(mi, s3).
            if s3 = [] \<and> h \<le> 24 \<and> mi < 60
            then Some ((if c = CHR ''-'' then -1 else 1) * (h * 3600 + mi * 60)) else None)))
        else None)"

definition parse_frac :: "string \<Rightarrow> int \<times> string" where
  \<comment> \<open>an optional fraction of a second, in nanoseconds; more than nine digits are cut\<close>
  "parse_frac s = (case s of CHR ''.'' # cs \<Rightarrow>
       (let ds = takeWhile isDigit cs; n = take 9 ds
        in if ds = [] then (0, s)
           else (int (digitsVal (n @ replicate (9 - length n) (CHR ''0''))), drop (length ds) cs))
     | _ \<Rightarrow> (0, s))"

definition parseRFC3339 :: "string \<Rightarrow> time option" where
  "parseRFC3339 s0 =
     Option.bind (take_num 4 s0) (\<lambda>(y, s1). Option.bind (lit CHR ''-'' s1) (\<lambda>s2.
     Option.bind (take_num 2 s2) (\<lambda>(m, s3). Option.bind (lit CHR ''-'' s3) (\<lambda>s4.
     Option.bind (take_num 2 s4) (\<lambda>(d, s5). Option.bind (lit CHR ''T'' s5) (\<lambda>s6.
     Option.bind (take_num 2 s6) (\<lambda>(h, s7). Option.bind (lit CHR '':'' s7) (\<lambda>s8.
     Option.bind (take_num 2 s8) (\<lambda>(mi, s9). Option.bind (lit CHR '':'' s9) (\<lambda>s10.
     Option.bind (take_num 2 s10) (\<lambda>(sec, s11).
       (case parse_frac s11 of (ns, s12) \<Rightarrow>
       Option.bind (parse_zone s12) (\<lambda>z.
         if 1 \<le> m \<and> m \<le> 12 \<and> 1 \<le> d \<and> d \<le> month_days y ! nat (m - 1)
            \<and> h < 24 \<and> mi < 60 \<and> sec < 60
         then Some ((((days_before_year y + yday_of (month_days y) m d - epoch_days) * 86400
                + h * 3600 + mi * 60 + sec) - z) * second + ns)
         else None)))))))))))))"

section \<open>The calendar\<close>

lemma year_yday_ok:
  assumes "0 \<le> d" and e: "year_yday d = (y, yd)"
  shows "days_before_year y + yd = d" and "0 \<le> yd" and "yd < (if leap y then 366 else 365)"
    and "1 \<le> y"
proof -
  define a where "a = d div 146097"
  define d1 where "d1 = d mod 146097"
  define b0 where "b0 = d1 div 36524"
  define b where "b = b0 - b0 div 4"
  define d2 where "d2 = d1 - 36524 * b"
  define c where "c = d2 div 1461"
  define d3 where "d3 = d2 - 1461 * c"
  define f0 where "f0 = d3 div 365"
  define f where "f = f0 - f0 div 4"
  have y: "y = 400 * a + 100 * b + 4 * c + f + 1" and yd: "yd = d3 - 365 * f"
    using e by (auto simp: year_yday_def Let_def a_def b_def c_def f_def d1_def d2_def d3_def b0_def f0_def)
  have a: "0 \<le> a" "d = 146097 * a + d1" "0 \<le> d1" "d1 < 146097"
    using assms(1) by (auto simp: a_def d1_def)
  have b0: "36524 * b0 \<le> d1" "d1 < 36524 * b0 + 36524" "0 \<le> b0" "b0 \<le> 4"
    using a unfolding b0_def by linarith+
  have bc: "b0 < 4 \<and> b = b0 \<or> b0 = 4 \<and> b = 3"
    using b0(3,4) unfolding b_def by linarith
  have b: "0 \<le> b" "b \<le> 3" "0 \<le> d2" "d2 \<le> 36524" "d2 = 36524 \<longrightarrow> b = 3"
    using bc b0 a(3,4) unfolding d2_def by auto
  have c1: "1461 * c \<le> d2" "d2 < 1461 * c + 1461"
    unfolding c_def by linarith+
  have c: "0 \<le> c" "c \<le> 24" "0 \<le> d3" "d3 < 1461" "c = 24 \<and> d3 = 1460 \<longrightarrow> b = 3"
    using b c1 unfolding d3_def by auto
  have f0: "365 * f0 \<le> d3" "d3 < 365 * f0 + 365" "0 \<le> f0" "f0 \<le> 4"
    using c(3,4) unfolding f0_def by linarith+
  have fc: "f0 < 4 \<and> f = f0 \<or> f0 = 4 \<and> f = 3"
    using f0(3,4) unfolding f_def by linarith
  have f: "0 \<le> f" "f \<le> 3" "0 \<le> yd" "yd \<le> 365" "yd = 365 \<longrightarrow> f = 3 \<and> d3 = 1460"
    using fc f0 c(3,4) unfolding yd by auto
  have p: "y - 1 = 400 * a + 100 * b + 4 * c + f" using y by simp
  have q4: "(y - 1) div 4 = 100 * a + 25 * b + c" using f p by linarith
  have q100: "(y - 1) div 100 = 4 * a + b" using f c p by linarith
  have q400: "(y - 1) div 400 = a" using f c b p by linarith
  have "d = 146097 * a + 36524 * b + 1461 * c + 365 * f + yd"
    using a(2) yd by (simp add: d2_def d3_def)
  then show "days_before_year y + yd = d"
    unfolding days_before_year_def Let_def q4 q100 q400 using p by (simp add: algebra_simps)
  show "0 \<le> yd" by (rule f(3))
  show "1 \<le> y" using y a(1) b(1) c(1) f(1) by simp
  have "leap y" if "yd = 365"
  proof -
    from f(5) that have f3: "f = 3" "d3 = 1460" by auto
    then have y4: "y = 400 * a + 100 * b + 4 * c + 4" using y by simp
    show ?thesis
    proof (cases "c = 24")
      case True
      then have "b = 3" using c(5) f3 by simp
      then have "y = 400 * (a + 1)" using y4 True by simp
      then show ?thesis by (simp add: leap_def)
    next
      case False
      have "y = 100 * (4 * a + b) + (4 * c + 4)" using y4 by simp
      moreover have "0 \<le> 4 * c + 4" "4 * c + 4 < 100" using False c(1,2) by auto
      ultimately have "y mod 100 = 4 * c + 4"
        by (metis mod_mult_self4 mod_pos_pos_trivial)
      moreover have "y = 4 * (100 * a + 25 * b + c + 1)" using y4 by simp
      then have "y mod 4 = 0" by (metis mod_mult_self1_is_0)
      ultimately show ?thesis using c(1) unfolding leap_def by simp
    qed
  qed
  then show "yd < (if leap y then 366 else 365)" using f(4) by fastforce
qed

lemma month_day_ok:
  assumes "month_day m0 ls yd = (m, d)" "0 \<le> yd" "yd < sum_list ls" "\<forall>l\<in>set ls. 0 < l"
  shows "m0 \<le> m \<and> m < m0 + int (length ls) \<and> 1 \<le> d \<and> d \<le> ls ! nat (m - m0)
    \<and> yday_of ls (m - m0 + 1) d = yd"
  using assms
proof (induction m0 ls yd rule: month_day.induct)
  case (2 m0 l ls yd)
  show ?case
  proof (cases "yd < l")
    case True
    with 2 show ?thesis by auto
  next
    case False
    with 2 have h: "m0 + 1 \<le> m \<and> m < m0 + 1 + int (length ls) \<and> 1 \<le> d \<and> d \<le> ls ! nat (m - (m0 + 1))
        \<and> yday_of ls (m - (m0 + 1) + 1) d = yd - l" by auto
    then have "nat (m - m0) = Suc (nat (m - (m0 + 1)))" by auto
    with h show ?thesis by (auto simp: algebra_simps)
  qed
qed simp

lemma sum_month_days: "sum_list (month_days y) = (if leap y then 366 else 365)"
  by (simp add: month_days_def)

lemma month_days_bound: "n < 12 \<Longrightarrow> month_days y ! n \<le> 31"
  by (auto simp: month_days_def numeral_eq_Suc less_Suc_eq)

section \<open>Round trip\<close>

lemma take_num_padW:
  "0 \<le> i \<Longrightarrow> i < 10 ^ w \<Longrightarrow> 0 < w \<Longrightarrow> take_num w (padW w i @ s) = Some (i, s)"
proof -
  assume h: "0 \<le> i" "i < 10 ^ w" "0 < w"
  then have "nat i < 10 ^ w" by (simp add: nat_less_iff)
  then have l: "length (itoaN (nat i)) \<le> w" using h(3) by (rule length_itoaN)
  have "parseNat (padW w i) = Some (nat i)"
    using l h(3) by (auto simp: parseNat_def padW_def itoaN_digits) (metis itoaN_nonempty append_is_Nil_conv padLeft_def)
  then show ?thesis
    using l h(1) by (simp add: take_num_def padW_def length_padLeft)
qed

lemma year_le_9999: "d < 3652059 \<Longrightarrow> 0 \<le> d \<Longrightarrow> year_yday d = (y, yd) \<Longrightarrow> y < 10000"
proof (rule ccontr)
  assume h: "d < 3652059" "0 \<le> d" "year_yday d = (y, yd)" and "\<not> y < 10000"
  then have y: "9999 \<le> y - 1" by simp
  have "days_before_year y + yd = d" "0 \<le> yd" using year_yday_ok h(2,3) by blast+
  moreover have "3652059 \<le> days_before_year y"
  proof (cases "y = 10000")
    case False
    with y have "10000 \<le> y - 1" by simp
    then have "(y - 1) div 100 \<le> (y - 1) div 4" "0 \<le> (y - 1) div 400"
      by (simp_all add: zdiv_mono2)
    moreover have "3652059 \<le> 365 * x + p - q + r + 2059" if "10000 \<le> x" "q \<le> p" "0 \<le> r"
      for x p q r :: int using that by linarith
    moreover have "(y - 1) div 100 + 2059 \<le> (y - 1) div 4"
    proof -
      define k where "k = (y - 1) div 4"
      have "2500 \<le> k" using \<open>10000 \<le> y - 1\<close> unfolding k_def by linarith
      then have "k div 25 + 2059 \<le> k" by linarith
      moreover have "(y - 1) div 100 = k div 25"
        unfolding k_def using zdiv_zmult2_eq[of 25 "y - 1" 4] by simp
      ultimately show ?thesis by (simp add: k_def)
    qed
    ultimately show ?thesis unfolding days_before_year_def Let_def
      using \<open>10000 \<le> y - 1\<close> by simp
  qed (simp add: days_before_year_def)
  ultimately show False using h(1) by linarith
qed

lemma parse_text:
  assumes "0 \<le> y" "y < 10000" "1 \<le> m" "m \<le> 12" "1 \<le> d" "d \<le> month_days y ! nat (m - 1)"
    "0 \<le> h" "h < 24" "0 \<le> mi" "mi < 60" "0 \<le> se" "se < 60" "parse_frac (fr @ ''Z'') = (ns, ''Z'')"
  shows "parseRFC3339 (padW 4 y @ ''-'' @ padW 2 m @ ''-'' @ padW 2 d @ ''T'' @
      padW 2 h @ '':'' @ padW 2 mi @ '':'' @ padW 2 se @ fr @ ''Z'') =
    Some (((days_before_year y + yday_of (month_days y) m d - epoch_days) * 86400
                + h * 3600 + mi * 60 + se) * second + ns)"
proof -
  have "d \<le> 31" using month_days_bound[of "nat (m - 1)" y] assms(3,4,6) by fastforce
  have tn4: "take_num 4 (padW 4 y @ w) = Some (y, w)" for w
    using assms(1,2) by (intro take_num_padW) auto
  have tn2: "0 \<le> i \<Longrightarrow> i < 100 \<Longrightarrow> take_num 2 (padW 2 i @ w) = Some (i, w)" for i w
    by (intro take_num_padW) auto
  have tn: "take_num 2 (padW 2 m @ w) = Some (m, w)" "take_num 2 (padW 2 d @ w) = Some (d, w)"
    "take_num 2 (padW 2 h @ w) = Some (h, w)" "take_num 2 (padW 2 mi @ w) = Some (mi, w)"
    "take_num 2 (padW 2 se @ w) = Some (se, w)" for w
    using assms \<open>d \<le> 31\<close> by (auto intro!: tn2)
  show ?thesis
    unfolding parseRFC3339_def tn4 tn Option.bind.bind_lunit prod.case append_Cons append_Nil
      lit.simps if_True simp_thms assms(13)
    using assms by (simp add: parse_zone_def)
qed

lemma parse_dateTime:
  assumes "zero_time \<le> t" "t < 253402300800 * second" "parse_frac (fr @ ''Z'') = (ns, ''Z'')"
  shows "parseRFC3339 (dateTime t @ fr @ ''Z'') = Some (trunc_sec t + ns)"
proof -
  define s where "s = t div second"
  define days where "days = s div 86400"
  define r where "r = s mod 86400"
  obtain y yd where yy: "year_yday (days + epoch_days) = (y, yd)" by fastforce
  obtain m d where md: "month_day 1 (month_days y) yd = (m, d)" by fastforce
  have s: "- 62135596800 \<le> s" "s < 253402300800"
    using assms unfolding s_def second_def zero_time_def by linarith+
  then have days: "0 \<le> days + epoch_days" "days + epoch_days < 3652059"
    unfolding days_def epoch_days_def by linarith+
  have r: "0 \<le> r" "r < 86400" "s = days * 86400 + r" by (auto simp: r_def days_def)
  note yk = year_yday_ok[OF days(1) yy]
  have "yd < sum_list (month_days y)" using yk(3) by (simp only: sum_month_days)
  moreover have "\<forall>l\<in>set (month_days y). 0 < l" by (simp add: month_days_def)
  moreover have "length (month_days y) = 12" by (simp add: month_days_def)
  ultimately have mk: "1 \<le> m \<and> m \<le> 12 \<and> 1 \<le> d \<and> d \<le> month_days y ! nat (m - 1)
      \<and> yday_of (month_days y) m d = yd"
    using month_day_ok[OF md yk(2)] by auto
  have y9: "y < 10000" using year_le_9999[OF days(2,1) yy] .
  define h mi se where "h = r div 3600" and "mi = r mod 3600 div 60" and "se = r mod 60"
  have rr: "0 \<le> h" "h < 24" "0 \<le> mi" "mi < 60" "0 \<le> se" "se < 60"
    using r(1,2) unfolding h_def mi_def se_def by (auto simp: div_int_pos_iff)
  have "r mod 3600 mod 60 = r mod 60" by (rule mod_mod_cancel) simp
  then have rr1: "h * 3600 + mi * 60 + se = r"
    unfolding h_def mi_def se_def
    using div_mult_mod_eq[of "r mod 3600" 60] div_mult_mod_eq[of r 3600] by linarith
  have "parseRFC3339 (dateTime t @ fr @ ''Z'') =
    Some (((days_before_year y + yday_of (month_days y) m d - epoch_days) * 86400
                + h * 3600 + mi * 60 + se) * second + ns)"
    unfolding dateTime_def Let_def s_def[symmetric] days_def[symmetric] r_def[symmetric] yy md prod.case
      h_def[symmetric] mi_def[symmetric] se_def[symmetric] append_assoc
    using mk rr yk(4) y9 assms(3) by (intro parse_text) auto
  moreover have "(days_before_year y + yday_of (month_days y) m d - epoch_days) * 86400
                + h * 3600 + mi * 60 + se = s"
  proof -
    have "days_before_year y + yday_of (month_days y) m d - epoch_days = days"
      using mk yk(1) by simp
    then show ?thesis using rr1 r(3) by simp
  qed
  ultimately show ?thesis by (simp add: trunc_sec_def s_def)
qed

theorem parse_format:
  assumes "0 \<le> t" "t < 253402300800 * second"
  shows "parseRFC3339 (rfc3339 t) = Some (trunc_sec t)"
  using parse_dateTime[of t "[]" 0] assms by (simp add: rfc3339_def parse_frac_def zero_time_def second_def)

lemma trimZeros_pad: "trimZeros s @ replicate (length s - length (trimZeros s)) (CHR ''0'') = s"
proof -
  have "s = trimZeros s @ rev (takeWhile (\<lambda>c. c = CHR ''0'') (rev s))"
    unfolding trimZeros_def by (metis rev_append rev_rev_ident takeWhile_dropWhile_id)
  moreover have "takeWhile (\<lambda>c. c = CHR ''0'') w = replicate (length (takeWhile (\<lambda>c. c = CHR ''0'') w)) (CHR ''0'')" for w
    by (rule replicate_length_same[symmetric]) (auto dest: set_takeWhileD)
  ultimately show ?thesis
    by (metis (no_types, lifting) add_diff_cancel_left' length_append rev_replicate)
qed

lemma parse_fraction:
  assumes "0 \<le> ns" "ns < second"
  shows "parse_frac (fraction ns @ ''Z'') = (ns, ''Z'')"
proof (cases "ns = 0")
  case False
  let ?p = "padW 9 ns" let ?t = "trimZeros ?p"
  have len: "length ?p = 9" using assms length_itoaN[of "nat ns" 9] by (simp add: padW_def second_def length_padLeft)
  have dig: "\<forall>c \<in> set ?p. isDigit c" unfolding padW_def list_all_iff[symmetric] by (intro list_all_padLeft itoaN_digits)
  have val: "digitsVal ?p = nat ns" by (simp add: padW_def)
  have sub: "set ?t \<subseteq> set ?p" by (auto simp: trimZeros_def dest: set_dropWhileD)
  have tl: "length ?t \<le> 9" using len trimZeros_pad[of ?p] by (metis length_append le_add1)
  have ne: "?t \<noteq> []"
  proof
    assume "?t = []"
    then have "?p = replicate 9 (CHR ''0'')" using trimZeros_pad[of ?p] len by simp
    then have "digitsVal ?p = 0" by (simp only:) code_simp
    then show False using val assms False by simp
  qed
  have tw: "takeWhile isDigit (?t @ ''Z'') = ?t"
    using dig sub by (subst takeWhile_append2) (auto simp: isDigit_def)
  have "int (digitsVal (?t @ replicate (9 - length ?t) (CHR ''0''))) = ns"
    using trimZeros_pad[of ?p] val assms len by simp
  then show ?thesis using False tw tl ne by (simp add: fraction_def parse_frac_def Let_def)
qed (simp add: fraction_def parse_frac_def)

theorem parse_nano:
  assumes "zero_time \<le> t" "t < 253402300800 * second"
  shows "parseRFC3339 (rfc3339nano t) = Some t"
proof -
  have "0 \<le> t mod second" "t mod second < second" by (simp_all add: second_def)
  then show ?thesis
    unfolding rfc3339nano_def using parse_dateTime[OF assms parse_fraction] by (simp add: trunc_sec_def)
qed

lemma padW_no_nl: "nl \<notin> set (padW w i)"
proof -
  have "list_all isDigit (padW w i)" unfolding padW_def by (intro list_all_padLeft itoaN_digits)
  moreover have "\<not> isDigit nl" by (simp add: isDigit_def)
  ultimately show ?thesis unfolding list_all_iff by blast
qed

lemma rfc3339_no_nl: "nl \<notin> set (rfc3339 t)"
  unfolding rfc3339_def dateTime_def Let_def case_prod_unfold set_append Un_iff by (simp add: padW_no_nl)

lemma trunc_sec_idem [simp]: "trunc_sec (trunc_sec t) = trunc_sec t"
  by (simp add: trunc_sec_def second_def)

lemma trunc_sec_range:
  "0 \<le> t \<Longrightarrow> t < 253402300800 * second \<Longrightarrow>
     0 \<le> trunc_sec t \<and> trunc_sec t < 253402300800 * second"
  using div_mult_mod_eq[of t 1000000000] pos_mod_sign[of 1000000000 t]
  unfolding trunc_sec_def second_def by (simp add: pos_imp_zdiv_nonneg_iff)

end
