(* ===== verification/Protocol.thy ===== *)
theory Protocol
  imports Go_Time
begin

text \<open>
  The wire protocol (\<^verbatim>\<open>protocol.go\<close>): JSON values, requests, responses, the
  status codes and \<open>errorResponse\<close>. A JSON number is an integer, which is all the
  client sends and all the daemon answers. The member order of an object is the order of its
  list.
\<close>

datatype json =
    JNull
  | JBool bool
  | JNum int
  | JStr string
  | JArr "json list"
  | JObj "(string \<times> json) list"

record request =
  Op :: string
  Args :: "(string, json) gomap"

record response =
  OK :: bool
  Data :: "json option"
  Error :: string
  Code :: int

record errorDetail =
  ed_Code :: int
  ed_Reason :: string
  ed_RetryHint :: string
  ed_Context :: "(string, json) gomap"

record message =
  Seq :: int
  From :: string
  TS :: time
  Body :: string

definition CodeOK :: int where "CodeOK = 0"
definition CodeError :: int where "CodeError = 1"
definition CodeTimeout :: int where "CodeTimeout = 2"
definition CodePeerClosed :: int where "CodePeerClosed = 3"
definition CodeNotYourTurn :: int where "CodeNotYourTurn = 4"
definition CodeNotFound :: int where "CodeNotFound = 5"
definition CodeUnauthorized :: int where "CodeUnauthorized = 6"
definition CodeSupervisorBusy :: int where "CodeSupervisorBusy = 7"
definition CodeProjectIdentityMismatch :: int where "CodeProjectIdentityMismatch = 8"
definition CodePIDConflict :: int where "CodePIDConflict = 9"
definition CodeSessionConflict :: int where "CodeSessionConflict = 10"

lemmas codes = CodeOK_def CodeError_def CodeTimeout_def CodePeerClosed_def CodeNotYourTurn_def
  CodeNotFound_def CodeUnauthorized_def CodeSupervisorBusy_def CodeProjectIdentityMismatch_def
  CodePIDConflict_def CodeSessionConflict_def

text \<open>The error detail as it is marshalled: empty members are omitted.\<close>

definition errorDetail_json :: "errorDetail \<Rightarrow> json" where
  "errorDetail_json d = JObj
     ((if ed_Code d = 0 then [] else [(''code'', JNum (ed_Code d))])
      @ (if ed_Reason d = [] then [] else [(''reason'', JStr (ed_Reason d))])
      @ (if ed_RetryHint d = [] then [] else [(''retry_hint'', JStr (ed_RetryHint d))])
      @ (if ed_Context d = [] then [] else [(''context'', JObj (ed_Context d))]))"

definition errorResponse ::
  "int \<Rightarrow> string \<Rightarrow> string \<Rightarrow> string \<Rightarrow> (string, json) gomap \<Rightarrow> response" where
  "errorResponse code reason retryHint msg context =
     (let code = (if code = 0 then CodeError else code)
      in \<lparr>OK = False,
          Data = Some (JObj [(''error'', errorDetail_json
            \<lparr>ed_Code = code, ed_Reason = reason, ed_RetryHint = retryHint, ed_Context = context\<rparr>)]),
          Error = msg, Code = code\<rparr>)"

definition okResponse :: "json \<Rightarrow> response" where
  \<comment> \<open>\<^verbatim>\<open>Response{OK: true, Data: d}\<close>\<close>
  "okResponse d = \<lparr>OK = True, Data = Some d, Error = [], Code = CodeOK\<rparr>"

definition strVal :: "(string, json) gomap \<Rightarrow> string \<Rightarrow> string" where
  "strVal args key = (case map_of args key of Some (JStr v) \<Rightarrow> v | _ \<Rightarrow> [])"

definition numVal :: "(string, json) gomap \<Rightarrow> string \<Rightarrow> int" where
  \<comment> \<open>\<^verbatim>\<open>f, _ := args[key].(float64); int(f)\<close>\<close>
  "numVal args key = (case map_of args key of Some (JNum v) \<Rightarrow> v | _ \<Rightarrow> 0)"

definition boolVal :: "(string, json) gomap \<Rightarrow> string \<Rightarrow> bool" where
  "boolVal args key = (case map_of args key of Some (JBool v) \<Rightarrow> v | _ \<Rightarrow> False)"

lemma okResponse_sel [simp]: "OK (okResponse d)" "Code (okResponse d) = CodeOK"
    "Data (okResponse d) = Some d"
  by (simp_all add: okResponse_def)

lemma errorResponse_sel [simp]:
  "\<not> OK (errorResponse c r h m x)"
  "Code (errorResponse c r h m x) = (if c = 0 then CodeError else c)"
  "Error (errorResponse c r h m x) = m"
  by (simp_all add: errorResponse_def Let_def)

lemma errorResponse_code_nonzero: "Code (errorResponse c r h m x) \<noteq> 0"
  by (simp add: CodeError_def)

lemma errorResponse_neq_ok [simp]: "errorResponse c r h m x \<noteq> okResponse d"
    "okResponse d \<noteq> errorResponse c r h m x"
  by (simp_all add: errorResponse_def okResponse_def Let_def)

section \<open>The errors several handlers share\<close>

definition missing_from :: response where
  "missing_from = errorResponse CodeError ''missing_from'' ''set LALIA_NAME or pass --as'' ''from required'' []"

definition missing_project :: response where
  "missing_project = errorResponse CodeError ''missing_project''
     ''provide --project or run from a git repo'' ''project required'' []"

definition missing_params :: "string \<Rightarrow> string \<Rightarrow> (string, json) gomap \<Rightarrow> response" where
  "missing_params hint msg ctx = errorResponse CodeError ''missing_params'' hint msg ctx"

definition not_found :: "string \<Rightarrow> string \<Rightarrow> string \<Rightarrow> (string, json) gomap \<Rightarrow> response" where
  "not_found reason hint msg ctx = errorResponse CodeNotFound reason hint msg ctx"

definition unauthorized :: "string \<Rightarrow> string \<Rightarrow> string \<Rightarrow> (string, json) gomap \<Rightarrow> response" where
  "unauthorized reason hint msg ctx = errorResponse CodeUnauthorized reason hint msg ctx"

definition room_not_found :: "string \<Rightarrow> string \<Rightarrow> (string, json) gomap \<Rightarrow> response" where
  "room_not_found hint room ctx =
     not_found ''room_not_found'' hint (''room not found: '' @ room) ctx"

definition no_such_room :: "string \<Rightarrow> response" where
  "no_such_room room = room_not_found ''use `lalia rooms` to list available rooms'' room
     [(''room'', JStr room)]"

definition not_in_room :: "string \<Rightarrow> string \<Rightarrow> string \<Rightarrow> response" where
  \<comment> \<open>a caller that is not a member is told the same as for a missing room\<close>
  "not_in_room hint from room = room_not_found hint room [(''from'', JStr from), (''room'', JStr room)]"

lemma shared_errors_sel [simp]:
  "\<not> OK missing_from" "Code missing_from = CodeError"
  "\<not> OK missing_project" "Code missing_project = CodeError"
  "\<not> OK (missing_params h m c)" "Code (missing_params h m c) = CodeError"
  "\<not> OK (not_found r h m c)" "Code (not_found r h m c) = CodeNotFound"
  "\<not> OK (unauthorized r h m c)" "Code (unauthorized r h m c) = CodeUnauthorized"
  "\<not> OK (room_not_found h r c)" "Code (room_not_found h r c) = CodeNotFound"
  "\<not> OK (no_such_room r)" "Code (no_such_room r) = CodeNotFound"
  "\<not> OK (not_in_room h f r)" "Code (not_in_room h f r) = CodeNotFound"
  by (simp_all add: missing_from_def missing_project_def missing_params_def not_found_def
      unauthorized_def room_not_found_def no_such_room_def not_in_room_def codes)

end
