(* ===== verification/Datatypes.thy ===== *)
theory Datatypes
  imports Protocol
begin

text \<open>
  The records the daemon keeps: agents (\<^verbatim>\<open>state.go\<close>), nicknames, rooms and
  channels, tasks, the rows of the SQLite side store (\<^verbatim>\<open>queue.go\<close>) and the write
  operations (\<^verbatim>\<open>writer.go\<close>). Field names carry a prefix of the Go struct, since
  selectors are global here. A Go channel that a blocked read waits on is a number, the index
  of its buffer.
\<close>

record agent =
  ag_AgentID :: string
  ag_Name :: string
  ag_Pubkey :: string
  ag_Role :: string
  ag_Harness :: string
  ag_Model :: string
  ag_Project :: string
  ag_RepoURL :: string
  ag_RepoRoot :: string
  ag_MainRepoRoot :: string
  ag_WorktreeKind :: string
  ag_Worktree :: string
  ag_Branch :: string
  ag_CWD :: string
  ag_PID :: int
  ag_StartedAt :: time
  ag_LastSeenAt :: time
  ag_ExpiresAt :: time

definition empty_agent :: agent where
  \<comment> \<open>the zero \<^verbatim>\<open>Agent\<close>\<close>
  "empty_agent = \<lparr>ag_AgentID = [], ag_Name = [], ag_Pubkey = [], ag_Role = [], ag_Harness = [],
     ag_Model = [], ag_Project = [], ag_RepoURL = [], ag_RepoRoot = [], ag_MainRepoRoot = [],
     ag_WorktreeKind = [], ag_Worktree = [], ag_Branch = [], ag_CWD = [], ag_PID = 0,
     ag_StartedAt = zero_time, ag_LastSeenAt = zero_time, ag_ExpiresAt = zero_time\<rparr>"

record agentInfo =
  in_Harness :: string
  in_Model :: string
  in_Project :: string
  in_RepoURL :: string
  in_RepoRoot :: string
  in_MainRepoRoot :: string
  in_WorktreeKind :: string
  in_Worktree :: string
  in_Branch :: string
  in_CWD :: string

record nickname =
  nk_Mode :: string
  nk_AgentID :: string
  nk_Address :: string

section \<open>Rooms and channels\<close>

record roomMessage =
  rm_Seq :: int
  rm_Room :: string
  rm_From :: string
  rm_TS :: time
  rm_Body :: string

record room =
  r_Name :: string
  r_Desc :: string
  r_CreatedBy :: string
  r_CreatedAt :: time
  r_Archived :: bool
  r_seq :: int
  r_log :: "roomMessage list"
  r_members :: "string list"
  r_mailbox :: "(string, roomMessage list) gomap"
  r_dropped :: "(string, int) gomap"
  r_waiter :: "(string, nat) gomap"

record waitResult =
  w_msg :: "message option"
  w_err :: string
  w_code :: int

record channel =
  PeerA :: string
  PeerB :: string
  c_seq :: int
  c_log :: "message list"
  c_mailbox :: "(string, message list) gomap"
  c_waiter :: "(string, nat) gomap"

record anyMsg =
  am_kind :: string
  am_target :: string
  am_msg :: message

datatype payload =
    PayRoom roomMessage  \<comment> \<open>on a \<^verbatim>\<open>chan RoomMessage\<close>\<close>
  | PayWait waitResult   \<comment> \<open>on a \<^verbatim>\<open>chan waitResult\<close>\<close>
  | PayAny anyMsg        \<comment> \<open>on a \<^verbatim>\<open>chan anyMsg\<close>\<close>

text \<open>A handler that blocks in its \<^verbatim>\<open>select\<close>, with what it needs to resume.\<close>

datatype pending =
    WaitRoom string string      \<comment> \<open>caller, room\<close>
  | WaitPeer string string      \<comment> \<open>caller, channel key\<close>
  | WaitAny string int          \<comment> \<open>caller, timeout in seconds\<close>

section \<open>Tasks\<close>

record contract =
  OtherSlug :: string
  Note :: string

record task =
  t_Slug :: string
  t_Branch :: string
  t_Brief :: string
  t_OwnedPaths :: "string list"
  t_Contracts :: "contract list"
  t_Worktree :: string
  t_Owner :: string
  t_Status :: string
  t_UpdatedAt :: time

record taskList =
  tl_ProjectID :: string
  tl_Supervisor :: string
  tl_RepoRoot :: string
  tl_Tasks :: "task list"
  tl_UpdatedAt :: time

definition statusOpen :: string where "statusOpen = ''open''"
definition statusAssigned :: string where "statusAssigned = ''assigned''"
definition statusInProgress :: string where "statusInProgress = ''in-progress''"
definition statusReady :: string where "statusReady = ''ready''"
definition statusBlocked :: string where "statusBlocked = ''blocked''"
definition statusMerged :: string where "statusMerged = ''merged''"

lemmas statuses = statusOpen_def statusAssigned_def statusInProgress_def statusReady_def
  statusBlocked_def statusMerged_def

definition workerStatuses :: "string list" where
  \<comment> \<open>what the owner of a row may assign to itself\<close>
  "workerStatuses = [statusInProgress, statusReady, statusBlocked]"

section \<open>Storage\<close>

text \<open>
  What a workspace file holds. Registry and task files are JSON renderings of a record that
  \<^verbatim>\<open>json.Unmarshal\<close> reads back; they are kept as the record. Everything else is text.
\<close>

datatype content = Text string | AgentFile agent | TaskFile taskList

record writeOp =
  wo_queueID :: int
  wo_attempts :: int
  wo_relPath :: string
  wo_content :: content
  wo_commitMsg :: string

record queueRow =
  q_id :: int
  q_relPath :: string
  q_content :: content
  q_commitMsg :: string
  q_attempts :: int

record mailboxRow =
  mb_recipient :: string
  mb_kind :: string
  mb_target :: string
  mb_seq :: int
  mb_fromName :: string
  mb_ts :: string
  mb_body :: string

record roomRecord =
  rr_name :: string
  rr_desc :: string
  rr_createdBy :: string
  rr_createdAt :: string
  rr_archived :: bool

type_synonym box_key = "string \<times> string \<times> string"  \<comment> \<open>recipient, kind, target\<close>

record db =
  d_queue :: "queueRow list"
  d_nextID :: int
  d_dead :: "queueRow list"
  d_rooms :: "roomRecord list"
  d_members :: "(string \<times> string) list"
  d_mailbox :: "mailboxRow list"
  d_dropped :: "(box_key, int) gomap"

definition empty_db :: db where
  "empty_db = \<lparr>d_queue = [], d_nextID = 1, d_dead = [], d_rooms = [], d_members = [],
     d_mailbox = [], d_dropped = []\<rparr>"

end
