(* ===== verification/Queue_Store.thy ===== *)
theory Queue_Store
  imports Datatypes
begin

text \<open>
  The SQLite side store (\<^verbatim>\<open>queue.go\<close>): one definition per statement or
  transaction, on the tables as lists in row order. Row identifiers of \<^verbatim>\<open>queue\<close>
  come from AUTOINCREMENT and are never reused. The locale \<open>durable_box\<close> is the
  contract channels and rooms rely on: a first-in-first-out box per (recipient, kind, target).
\<close>

section \<open>The write queue\<close>

definition q_insert :: "string \<Rightarrow> content \<Rightarrow> string \<Rightarrow> db \<Rightarrow> int \<times> db" where
  "q_insert relPath content commitMsg d =
     (d_nextID d,
      d\<lparr>d_queue := d_queue d @ [\<lparr>q_id = d_nextID d, q_relPath = relPath, q_content = content,
                                q_commitMsg = commitMsg, q_attempts = 0\<rparr>],
        d_nextID := d_nextID d + 1\<rparr>)"

definition q_pending :: "db \<Rightarrow> queueRow list" where
  \<comment> \<open>\<^verbatim>\<open>ORDER BY id\<close>\<close>
  "q_pending d = sort_key q_id (d_queue d)"

definition bumpAttempts :: "int \<Rightarrow> db \<Rightarrow> db" where
  "bumpAttempts i d = d\<lparr>d_queue := map (\<lambda>r. if q_id r = i
       then r\<lparr>q_attempts := q_attempts r + 1\<rparr> else r) (d_queue d)\<rparr>"

definition maxAttempts :: int where "maxAttempts = 3"

definition q_delete :: "int \<Rightarrow> db \<Rightarrow> db" where
  "q_delete i d = d\<lparr>d_queue := filter (\<lambda>r. q_id r \<noteq> i) (d_queue d)\<rparr>"

definition deadLetter :: "queueRow \<Rightarrow> db \<Rightarrow> db" where
  \<comment> \<open>\<^verbatim>\<open>INSERT OR IGNORE\<close> into \<^verbatim>\<open>queue_dead\<close>, then delete, in one transaction\<close>
  "deadLetter r d = q_delete (q_id r)
     (if q_id r \<in> q_id ` set (d_dead d) then d else d\<lparr>d_dead := d_dead d @ [r]\<rparr>)"

section \<open>Mailboxes\<close>

definition row_key :: "mailboxRow \<Rightarrow> box_key" where
  \<comment> \<open>the columns of \<^verbatim>\<open>recipient=? AND kind=? AND target=?\<close>\<close>
  "row_key r = (mb_recipient r, mb_kind r, mb_target r)"

definition mailboxAppend ::
  "string \<Rightarrow> string \<Rightarrow> string \<Rightarrow> int \<Rightarrow> string \<Rightarrow> time \<Rightarrow> string \<Rightarrow> db \<Rightarrow> db" where
  "mailboxAppend recipient kind target seq fromName ts body d =
     d\<lparr>d_mailbox := d_mailbox d @ [\<lparr>mb_recipient = recipient, mb_kind = kind, mb_target = target,
        mb_seq = seq, mb_fromName = fromName, mb_ts = rfc3339 ts, mb_body = body\<rparr>]\<rparr>"

definition mailboxDeleteOne :: "string \<Rightarrow> string \<Rightarrow> string \<Rightarrow> int \<Rightarrow> db \<Rightarrow> db" where
  "mailboxDeleteOne recipient kind target seq d = d\<lparr>d_mailbox :=
     filter (\<lambda>r. \<not> (row_key r = (recipient, kind, target) \<and> mb_seq r = seq)) (d_mailbox d)\<rparr>"

definition mailboxConsumeAll :: "string \<Rightarrow> string \<Rightarrow> string \<Rightarrow> db \<Rightarrow> db" where
  "mailboxConsumeAll recipient kind target d =
     d\<lparr>d_mailbox := filter (\<lambda>r. row_key r \<noteq> (recipient, kind, target)) (d_mailbox d),
       d_dropped := AList.delete (recipient, kind, target) (d_dropped d)\<rparr>"

definition mailboxDropOldest :: "string \<Rightarrow> string \<Rightarrow> string \<Rightarrow> int \<Rightarrow> db \<Rightarrow> db" where
  "mailboxDropOldest recipient kind target seq d =
     (let d = mailboxDeleteOne recipient kind target seq d; k = (recipient, kind, target)
      in d\<lparr>d_dropped := AList.update k (get_or 0 (d_dropped d) k + 1) (d_dropped d)\<rparr>)"

definition mailboxRows :: "db \<Rightarrow> mailboxRow list" where
  "mailboxRows d = d_mailbox d"

definition mailboxDropped :: "db \<Rightarrow> (box_key, int) gomap" where
  "mailboxDropped d = d_dropped d"

section \<open>Rooms and members\<close>

fun upsert_room :: "roomRecord \<Rightarrow> roomRecord list \<Rightarrow> roomRecord list" where
  "upsert_room x [] = [x]"
| "upsert_room x (r # rs) =
     (if rr_name r = rr_name x
      then r\<lparr>rr_desc := rr_desc x, rr_createdBy := rr_createdBy x\<rparr> # rs
      else r # upsert_room x rs)"

definition roomUpsert :: "string \<Rightarrow> string \<Rightarrow> string \<Rightarrow> time \<Rightarrow> db \<Rightarrow> db" where
  "roomUpsert name desc createdBy createdAt d =
     d\<lparr>d_rooms := upsert_room \<lparr>rr_name = name, rr_desc = desc, rr_createdBy = createdBy,
        rr_createdAt = rfc3339 createdAt, rr_archived = False\<rparr> (d_rooms d)\<rparr>"

definition roomAddMember :: "string \<Rightarrow> string \<Rightarrow> db \<Rightarrow> db" where
  "roomAddMember room member d = d\<lparr>d_members := add_member (room, member) (d_members d)\<rparr>"

definition roomRemoveMember :: "string \<Rightarrow> string \<Rightarrow> db \<Rightarrow> db" where
  "roomRemoveMember room member d = d\<lparr>d_members := del_member (room, member) (d_members d)\<rparr>"

definition roomDeleteAll :: "string \<Rightarrow> db \<Rightarrow> db" where
  "roomDeleteAll room d = d\<lparr>d_rooms := filter (\<lambda>r. rr_name r \<noteq> room) (d_rooms d),
     d_members := filter (\<lambda>(r, m). r \<noteq> room) (d_members d)\<rparr>"

definition roomRows :: "db \<Rightarrow> roomRecord list" where
  "roomRows d = d_rooms d"

definition roomSetArchived :: "string \<Rightarrow> bool \<Rightarrow> db \<Rightarrow> db" where
  "roomSetArchived name archived d = d\<lparr>d_rooms := map (\<lambda>r. if rr_name r = name
       then r\<lparr>rr_archived := archived\<rparr> else r) (d_rooms d)\<rparr>"

definition roomMemberRows :: "db \<Rightarrow> string \<Rightarrow> string list" where
  "roomMemberRows d room = map snd (filter (\<lambda>(r, m). r = room) (d_members d))"

section \<open>The contract of a durable box\<close>

locale durable_box =
  fixes view :: "'d \<Rightarrow> 'k \<Rightarrow> 'm list"
    and seq_of :: "'m \<Rightarrow> int"
    and put :: "'k \<Rightarrow> 'm \<Rightarrow> 'd \<Rightarrow> 'd"
    and remove :: "'k \<Rightarrow> int \<Rightarrow> 'd \<Rightarrow> 'd"
    and clear :: "'k \<Rightarrow> 'd \<Rightarrow> 'd"
  assumes view_put: "view (put k m d) k' = (if k' = k then view d k @ [m] else view d k')"
    and view_remove: "view (remove k n d) k' =
          (if k' = k then filter (\<lambda>m. seq_of m \<noteq> n) (view d k) else view d k')"
    and view_clear: "view (clear k d) k' = (if k' = k then [] else view d k')"
begin

definition increasing :: "'m list \<Rightarrow> bool" where
  "increasing ms \<longleftrightarrow> sorted_wrt (\<lambda>a b. seq_of a < seq_of b) ms"

lemma increasing_tl: "increasing (m # ms) \<Longrightarrow> increasing ms"
  by (simp add: increasing_def)

lemma remove_head:
  assumes "view d k = m # ms" "increasing (view d k)"
  shows "view (remove k (seq_of m) d) k = ms"
proof -
  have "\<forall>x\<in>set ms. seq_of x \<noteq> seq_of m"
    using assms by (auto simp: increasing_def)
  then have "filter (\<lambda>x. seq_of x \<noteq> seq_of m) ms = ms"
    by (simp add: filter_id_conv)
  then show ?thesis using assms(1) by (simp add: view_remove)
qed

lemma put_increasing:
  assumes "increasing (view d k)" "\<forall>x\<in>set (view d k). seq_of x < seq_of m"
  shows "increasing (view (put k m d) k)"
  using assms by (simp add: view_put increasing_def sorted_wrt_append)

lemma others_untouched:
  assumes "k' \<noteq> k"
  shows "view (put k m d) k' = view d k'" "view (remove k n d) k' = view d k'"
    "view (clear k d) k' = view d k'"
  using assms by (simp_all add: view_put view_remove view_clear)

text \<open>Writing a batch, then reading one message at a time, returns the batch in order.\<close>

lemma put_all: "view (fold (put k) ms d) k = view d k @ ms"
  by (induction ms arbitrary: d) (simp_all add: view_put)

fun take_all :: "nat \<Rightarrow> 'k \<Rightarrow> 'd \<Rightarrow> 'm list" where
  "take_all 0 k d = []"
| "take_all (Suc n) k d = (case view d k of [] \<Rightarrow> []
     | m # ms \<Rightarrow> m # take_all n k (remove k (seq_of m) d))"

lemma take_all_view:
  assumes "increasing (view d k)" "length (view d k) \<le> n"
  shows "take_all n k d = view d k"
  using assms
proof (induction n arbitrary: d)
  case (Suc n)
  show ?case
  proof (cases "view d k")
    case (Cons m ms)
    have "view (remove k (seq_of m) d) k = ms"
      using Cons Suc.prems(1) by (intro remove_head) auto
    with Cons Suc show ?thesis by (simp add: increasing_def)
  qed simp
qed simp

lemma fifo_roundtrip:
  assumes "view d k = []" "increasing ms"
  shows "take_all (length ms) k (fold (put k) ms d) = ms"
  using assms take_all_view[of "fold (put k) ms d" k "length ms"] by (simp add: put_all)

end

text \<open>A box whose overflow is counted, as a room's mailbox is.\<close>

locale counted_box = durable_box view seq_of put remove clear
  for view :: "'d \<Rightarrow> 'k \<Rightarrow> 'm list" and seq_of put remove clear +
  fixes count :: "'d \<Rightarrow> 'k \<Rightarrow> int"
    and evict :: "'k \<Rightarrow> int \<Rightarrow> 'd \<Rightarrow> 'd"
  assumes view_evict: "view (evict k n d) = view (remove k n d)"
    and count_evict: "count (evict k n d) k' = (if k' = k then count d k + 1 else count d k')"
    and count_put: "count (put k m d) k' = count d k'"
    and count_clear: "count (clear k d) k' = (if k' = k then 0 else count d k')"
begin

lemma overflow:
  assumes "view d k = m # ms" "increasing (view d k)"
  shows "view (put k x (evict k (seq_of m) d)) k = ms @ [x]"
    and "count (put k x (evict k (seq_of m) d)) k = count d k + 1"
  using remove_head[OF assms] by (simp_all add: view_put view_evict count_put count_evict)

end

section \<open>The tables provide it\<close>

type_synonym entry = "int \<times> string \<times> string \<times> string"  \<comment> \<open>seq, from, ts text, body\<close>

definition entry_of :: "mailboxRow \<Rightarrow> entry" where
  "entry_of r = (mb_seq r, mb_fromName r, mb_ts r, mb_body r)"

definition box :: "db \<Rightarrow> box_key \<Rightarrow> entry list" where
  "box d k = map entry_of (filter (\<lambda>r. row_key r = k) (d_mailbox d))"

definition put_entry :: "box_key \<Rightarrow> entry \<Rightarrow> db \<Rightarrow> db" where
  "put_entry k e d = (case (k, e) of ((recipient, kind, target), seq, from, ts, body) \<Rightarrow>
     d\<lparr>d_mailbox := d_mailbox d @ [\<lparr>mb_recipient = recipient, mb_kind = kind, mb_target = target,
        mb_seq = seq, mb_fromName = from, mb_ts = ts, mb_body = body\<rparr>]\<rparr>)"

abbreviation del_entry :: "box_key \<Rightarrow> int \<Rightarrow> db \<Rightarrow> db" where
  "del_entry k n d \<equiv> (case k of (r, kd, t) \<Rightarrow> mailboxDeleteOne r kd t n d)"

abbreviation clear_box :: "box_key \<Rightarrow> db \<Rightarrow> db" where
  "clear_box k d \<equiv> (case k of (r, kd, t) \<Rightarrow> mailboxConsumeAll r kd t d)"

abbreviation evict_entry :: "box_key \<Rightarrow> int \<Rightarrow> db \<Rightarrow> db" where
  "evict_entry k n d \<equiv> (case k of (r, kd, t) \<Rightarrow> mailboxDropOldest r kd t n d)"

definition drop_count :: "db \<Rightarrow> box_key \<Rightarrow> int" where
  "drop_count d k = get_or 0 (d_dropped d) k"

lemma mailboxAppend_put:
  "mailboxAppend r kd t n f ts b d = put_entry (r, kd, t) (n, f, rfc3339 ts, b) d"
  by (simp add: mailboxAppend_def put_entry_def)

lemma box_del_rows:
  "map entry_of (filter (\<lambda>r. row_key r = k') (filter (\<lambda>r. \<not> (row_key r = k \<and> mb_seq r = n)) xs)) =
    (if k' = k then filter (\<lambda>e. fst e \<noteq> n) (map entry_of (filter (\<lambda>r. row_key r = k) xs))
     else map entry_of (filter (\<lambda>r. row_key r = k') xs))"
proof -
  have "fst (entry_of r) = mb_seq r" for r by (simp add: entry_of_def)
  then show ?thesis by (induction xs) auto
qed

lemma box_clear_rows:
  "map entry_of (filter (\<lambda>r. row_key r = k') (filter (\<lambda>r. row_key r \<noteq> k) xs)) =
    (if k' = k then [] else map entry_of (filter (\<lambda>r. row_key r = k') xs))"
  by (induction xs) auto

lemma box_put_entry: "box (put_entry k e d) k' = (if k' = k then box d k @ [e] else box d k')"
  by (cases k; cases e) (auto simp: box_def put_entry_def row_key_def entry_of_def)

lemma box_mailboxDeleteOne:
  "box (mailboxDeleteOne r kd t n d) k' =
     (if k' = (r, kd, t) then filter (\<lambda>e. fst e \<noteq> n) (box d (r, kd, t)) else box d k')"
  by (simp add: box_def mailboxDeleteOne_def box_del_rows del: filter_filter de_Morgan_conj)

lemma box_mailboxConsumeAll:
  "box (mailboxConsumeAll r kd t d) k' = (if k' = (r, kd, t) then [] else box d k')"
  by (simp add: box_def mailboxConsumeAll_def box_clear_rows del: filter_filter)

lemma box_mailboxDropOldest: "box (mailboxDropOldest r kd t n d) = box (mailboxDeleteOne r kd t n d)"
  by (simp add: fun_eq_iff box_def mailboxDropOldest_def Let_def)

interpretation sqlite_box: counted_box box fst put_entry del_entry clear_box drop_count evict_entry
proof (unfold_locales, goal_cases)
  case (5 k n d k')
  then show ?case
    by (cases k) (simp add: drop_count_def mailboxDropOldest_def Let_def mailboxDeleteOne_def)
next
  case (6 k m d k')
  then show ?case by (cases k; cases m) (simp add: drop_count_def put_entry_def)
next
  case (7 k d k')
  then show ?case by (cases k) (simp add: drop_count_def mailboxConsumeAll_def)
qed (auto simp: box_put_entry box_mailboxDeleteOne box_mailboxConsumeAll box_mailboxDropOldest
      split: prod.split)

section \<open>Facts about single tables\<close>

lemma box_other_tables [frame]:
  "box (d\<lparr>d_queue := x\<rparr>) = box d" "box (d\<lparr>d_nextID := n\<rparr>) = box d" "box (d\<lparr>d_dead := x\<rparr>) = box d"
  "box (d\<lparr>d_rooms := y\<rparr>) = box d" "box (d\<lparr>d_members := z\<rparr>) = box d" "box (d\<lparr>d_dropped := w\<rparr>) = box d"
  by (auto simp: box_def fun_eq_iff)

lemma box_insert [frame]: "box (snd (q_insert p c m d)) = box d"
  by (auto simp: q_insert_def box_def fun_eq_iff)

lemma box_rooms [frame]:
  "box (roomUpsert n ds cb ca d) = box d" "box (roomAddMember r m d) = box d"
  "box (roomRemoveMember r m d) = box d" "box (roomSetArchived r b d) = box d"
  by (auto simp: roomUpsert_def roomAddMember_def roomRemoveMember_def roomSetArchived_def
      box_def fun_eq_iff)

lemma box_queue_ops [frame]:
  "box (bumpAttempts i d) = box d" "box (q_delete i d) = box d" "box (deadLetter r d) = box d"
  by (auto simp: bumpAttempts_def q_delete_def deadLetter_def box_def fun_eq_iff)

lemma roomMemberRows_add:
  "roomMemberRows (roomAddMember r m d) r' =
     (if r' = r then add_member m (roomMemberRows d r) else roomMemberRows d r')"
  by (auto simp: roomMemberRows_def roomAddMember_def add_member_def image_iff)

lemma roomMemberRows_remove:
  "roomMemberRows (roomRemoveMember r m d) r' =
     (if r' = r then del_member m (roomMemberRows d r) else roomMemberRows d r')"
proof -
  have "map snd (filter (\<lambda>(r, m). r = r') (filter (\<lambda>x. x \<noteq> (r, m)) xs)) =
     (if r' = r then filter (\<lambda>x. x \<noteq> m) (map snd (filter (\<lambda>(r, m). r = r') xs))
      else map snd (filter (\<lambda>(r, m). r = r') xs))" for xs
    by (induction xs) auto
  then show ?thesis
    by (simp add: roomMemberRows_def roomRemoveMember_def del_member_def del: filter_filter)
qed

end
