(* ===== verification/State_Model.thy ===== *)
theory State_Model
  imports Queue_Store
begin

text \<open>
  The daemon's state (\<^verbatim>\<open>State\<close> of \<^verbatim>\<open>state.go\<close>) and the primitives every
  handler is made of: the write queue, the side store, blocked readers and their channels.

  Each handler is one step of the daemon: it runs under \<^verbatim>\<open>s.mu\<close> and the mutex of
  the room or channel it touches. A read that blocks is two steps: it registers a waiter and
  is recorded in \<open>blocked\<close>; the resumption runs when its channel holds a value or when its
  timer fires. \<open>bufs\<close> holds the one-place buffers of the channels, \<open>files\<close> and
  \<open>commits\<close> the workspace on disk and what git has accepted there, \<open>staged\<close> the entries
  of git's index that differ from its last commit, \<open>keys\<close> the private keys. A send on the closed
  \<^verbatim>\<open>writes\<close> channel is a Go panic, which ends the process: \<open>panicked\<close>.

  A statement on the table of the write queue may err (a full disk, a busy database): \<open>faults\<close>
  says which of the coming ones do, and an empty list that none does.
\<close>

record state =
  agents :: "(string, agent) gomap"
  nameIdx :: "(string, string) gomap"
  channels :: "(string, channel) gomap"
  rooms :: "(string, room) gomap"
  tasks :: "(string, taskList) gomap"
  anyWaiter :: "(string, nat) gomap"
  writes :: "writeOp list"
  queue :: "db option"
  stopped :: bool
  writes_closed :: bool
  db_closed :: bool
  panicked :: bool
  bufs :: "nat \<Rightarrow> payload list"
  next_chan :: nat
  blocked :: "(nat, pending) gomap"
  files :: "(string, content) gomap"
  commits :: "(string \<times> content) list"
  staged :: "(string, content) gomap"
  faults :: "bool list"
  keys :: "(string, string) gomap"

definition empty_state :: state where
  "empty_state = \<lparr>agents = [], nameIdx = [], channels = [], rooms = [], tasks = [], anyWaiter = [],
     writes = [], queue = Some empty_db, stopped = False, writes_closed = False, db_closed = False,
     panicked = False, bufs = (\<lambda>_. []), next_chan = 0, blocked = [], files = [], commits = [], staged = [],
     faults = [], keys = []\<rparr>"

text \<open>
  What a handler takes from outside: the clock, fresh identifiers and keys, Ed25519, the
  nickname file, ULID syntax (package \<^verbatim>\<open>oklog/ulid\<close>), and git and the file system
  for worktrees.
\<close>

record gitworld =
  g_list :: "string + string"              \<comment> \<open>output of \<^verbatim>\<open>git worktree list --porcelain\<close>, or its error\<close>
  g_canon :: "string \<Rightarrow> string"            \<comment> \<open>\<^verbatim>\<open>canonicalPath\<close>\<close>
  g_exists :: "string \<Rightarrow> bool"             \<comment> \<open>\<^verbatim>\<open>os.Stat\<close> succeeds\<close>
  g_mkdirErr :: "string option"
  g_branchExists :: "string \<Rightarrow> bool"
  g_add :: "string \<Rightarrow> string \<Rightarrow> bool \<Rightarrow> string option"  \<comment> \<open>target, branch, with \<^verbatim>\<open>-b\<close>; the error\<close>
  g_status :: "string \<Rightarrow> string + string"
  g_upstream :: "string \<Rightarrow> string option"
  g_ahead :: "string \<Rightarrow> string + string"
  g_remove :: "string \<Rightarrow> string option"
  g_existsAfter :: "string \<Rightarrow> bool"

record env =
  now :: time
  newID :: string
  genKey :: string
  pubOf :: "string \<Rightarrow> string"
  saveErr :: "string option"
  nicks :: "(string, nickname) gomap"
  isULID :: "string \<Rightarrow> bool"
  verifySig :: "string \<Rightarrow> json \<Rightarrow> string \<Rightarrow> bool"
  absPath :: "string \<Rightarrow> string + string"
  isDir :: "string \<Rightarrow> bool"
  git :: "nat \<Rightarrow> gitworld"

section \<open>The side store and the write queue\<close>

definition with_queue :: "(db \<Rightarrow> db) \<Rightarrow> state \<Rightarrow> state" where
  \<comment> \<open>\<^verbatim>\<open>if s.queue != nil { _ = s.queue.f(...) }\<close>, for the tables of mailboxes and rooms: the code
    drops the error. A closed database is such an error; otherwise the statement takes effect\<close>
  "with_queue f s = (if panicked s \<or> db_closed s then s else s\<lparr>queue := map_option f (queue s)\<rparr>)"

definition q_fault :: "state \<Rightarrow> bool" where
  \<comment> \<open>whether the next statement on the write queue errs; on a closed database every one does\<close>
  "q_fault s \<longleftrightarrow> db_closed s \<or> (faults s \<noteq> [] \<and> hd (faults s))"

definition q_exec :: "(db \<Rightarrow> db) \<Rightarrow> state \<Rightarrow> state" where
  \<comment> \<open>one statement, or transaction, on the write queue: it takes effect or errs and changes nothing\<close>
  "q_exec f s =
     (if panicked s then s
      else s\<lparr>faults := tl (faults s), queue := (if q_fault s then queue s else map_option f (queue s))\<rparr>)"

definition enqueueWrite :: "string \<Rightarrow> content \<Rightarrow> string \<Rightarrow> state \<Rightarrow> state" where
  \<comment> \<open>when the insert errs the operation is forwarded all the same, with no row and \<open>0\<close> for its identifier\<close>
  "enqueueWrite relPath content commitMsg s =
     (if panicked s then s
      else
        let (qid, s) = (case queue s of
               None \<Rightarrow> (0, s)
             | Some d \<Rightarrow> (if q_fault s then 0 else fst (q_insert relPath content commitMsg d),
                           q_exec (\<lambda>d. snd (q_insert relPath content commitMsg d)) s))
        in if writes_closed s then s\<lparr>panicked := True\<rparr>
           else s\<lparr>writes := writes s @ [\<lparr>wo_queueID = qid, wo_attempts = 0, wo_relPath = relPath,
                                       wo_content = content, wo_commitMsg = commitMsg\<rparr>]\<rparr>)"

section \<open>Go channels of blocked readers\<close>

definition send :: "nat \<Rightarrow> payload \<Rightarrow> state \<Rightarrow> state" where
  "send c v s = s\<lparr>bufs := (bufs s)(c := bufs s c @ [v])\<rparr>"

definition block :: "pending \<Rightarrow> state \<Rightarrow> nat \<times> state" where
  \<comment> \<open>\<^verbatim>\<open>ch := make(chan T, 1)\<close>, then the goroutine waits in \<^verbatim>\<open>select\<close>\<close>
  "block p s = (next_chan s, s\<lparr>next_chan := Suc (next_chan s),
     bufs := (bufs s)(next_chan s := []), blocked := AList.update (next_chan s) p (blocked s)\<rparr>)"

definition unblock :: "nat \<Rightarrow> state \<Rightarrow> state" where
  "unblock c s = s\<lparr>blocked := AList.delete c (blocked s)\<rparr>"

definition deliverAny :: "string \<Rightarrow> string \<Rightarrow> string \<Rightarrow> message \<Rightarrow> state \<Rightarrow> bool \<times> state" where
  "deliverAny to kind target msg s =
     (case map_of (anyWaiter s) to of
        None \<Rightarrow> (False, s)
      | Some c \<Rightarrow> (True, send c (PayAny \<lparr>am_kind = kind, am_target = target, am_msg = msg\<rparr>)
                    (s\<lparr>anyWaiter := AList.delete to (anyWaiter s)\<rparr>)))"

datatype outcome = Done response | Blocks nat

section \<open>Rooms and channels of the state\<close>

definition put_room :: "string \<Rightarrow> room \<Rightarrow> state \<Rightarrow> state" where
  "put_room n r s = s\<lparr>rooms := AList.update n r (rooms s)\<rparr>"

definition put_channel :: "string \<Rightarrow> channel \<Rightarrow> state \<Rightarrow> state" where
  "put_channel k c s = s\<lparr>channels := AList.update k c (channels s)\<rparr>"

definition agentByName :: "state \<Rightarrow> string \<Rightarrow> agent option" where
  "agentByName s name = (case map_of (nameIdx s) name of None \<Rightarrow> None | Some i \<Rightarrow> map_of (agents s) i)"

section \<open>What the primitives leave alone\<close>

lemma with_queue_frame [frame, simp]:
  "agents (with_queue f s) = agents s" "nameIdx (with_queue f s) = nameIdx s"
  "channels (with_queue f s) = channels s" "rooms (with_queue f s) = rooms s"
  "tasks (with_queue f s) = tasks s" "anyWaiter (with_queue f s) = anyWaiter s"
  "writes (with_queue f s) = writes s" "stopped (with_queue f s) = stopped s"
  "writes_closed (with_queue f s) = writes_closed s" "db_closed (with_queue f s) = db_closed s"
  "panicked (with_queue f s) = panicked s" "bufs (with_queue f s) = bufs s"
  "next_chan (with_queue f s) = next_chan s" "blocked (with_queue f s) = blocked s"
  "files (with_queue f s) = files s" "commits (with_queue f s) = commits s" "staged (with_queue f s) = staged s" "faults (with_queue f s) = faults s" "keys (with_queue f s) = keys s"
  by (simp_all add: with_queue_def)

lemma enqueueWrite_frame [frame, simp]:
  "agents (enqueueWrite p c m s) = agents s" "nameIdx (enqueueWrite p c m s) = nameIdx s"
  "channels (enqueueWrite p c m s) = channels s" "rooms (enqueueWrite p c m s) = rooms s"
  "tasks (enqueueWrite p c m s) = tasks s" "anyWaiter (enqueueWrite p c m s) = anyWaiter s"
  "stopped (enqueueWrite p c m s) = stopped s" "writes_closed (enqueueWrite p c m s) = writes_closed s"
  "db_closed (enqueueWrite p c m s) = db_closed s" "bufs (enqueueWrite p c m s) = bufs s"
  "next_chan (enqueueWrite p c m s) = next_chan s" "blocked (enqueueWrite p c m s) = blocked s"
  "files (enqueueWrite p c m s) = files s" "commits (enqueueWrite p c m s) = commits s" "staged (enqueueWrite p c m s) = staged s"
  "keys (enqueueWrite p c m s) = keys s"
  by (simp_all add: enqueueWrite_def q_exec_def Let_def split: option.split)

lemma q_exec_frame [frame, simp]:
  "agents (q_exec f s) = agents s" "nameIdx (q_exec f s) = nameIdx s" "channels (q_exec f s) = channels s"
  "rooms (q_exec f s) = rooms s" "tasks (q_exec f s) = tasks s" "anyWaiter (q_exec f s) = anyWaiter s"
  "writes (q_exec f s) = writes s" "stopped (q_exec f s) = stopped s" "writes_closed (q_exec f s) = writes_closed s"
  "db_closed (q_exec f s) = db_closed s" "panicked (q_exec f s) = panicked s" "bufs (q_exec f s) = bufs s"
  "next_chan (q_exec f s) = next_chan s" "blocked (q_exec f s) = blocked s" "files (q_exec f s) = files s"
  "commits (q_exec f s) = commits s" "staged (q_exec f s) = staged s" "keys (q_exec f s) = keys s"
  by (simp_all add: q_exec_def)

lemma send_frame [frame, simp]:
  "agents (send c v s) = agents s" "nameIdx (send c v s) = nameIdx s"
  "channels (send c v s) = channels s" "rooms (send c v s) = rooms s" "tasks (send c v s) = tasks s"
  "anyWaiter (send c v s) = anyWaiter s" "writes (send c v s) = writes s" "queue (send c v s) = queue s"
  "stopped (send c v s) = stopped s" "writes_closed (send c v s) = writes_closed s"
  "db_closed (send c v s) = db_closed s" "panicked (send c v s) = panicked s"
  "next_chan (send c v s) = next_chan s" "blocked (send c v s) = blocked s" "files (send c v s) = files s"
  "commits (send c v s) = commits s" "staged (send c v s) = staged s" "faults (send c v s) = faults s" "keys (send c v s) = keys s"
  "bufs (send c v s) = (bufs s)(c := bufs s c @ [v])"
  by (simp_all add: send_def)

lemma unblock_frame [frame, simp]:
  "agents (unblock c s) = agents s" "nameIdx (unblock c s) = nameIdx s"
  "channels (unblock c s) = channels s" "rooms (unblock c s) = rooms s" "tasks (unblock c s) = tasks s"
  "anyWaiter (unblock c s) = anyWaiter s" "writes (unblock c s) = writes s" "queue (unblock c s) = queue s"
  "stopped (unblock c s) = stopped s" "writes_closed (unblock c s) = writes_closed s"
  "db_closed (unblock c s) = db_closed s" "panicked (unblock c s) = panicked s"
  "next_chan (unblock c s) = next_chan s" "bufs (unblock c s) = bufs s" "files (unblock c s) = files s"
  "commits (unblock c s) = commits s" "staged (unblock c s) = staged s" "faults (unblock c s) = faults s" "keys (unblock c s) = keys s"
  "blocked (unblock c s) = AList.delete c (blocked s)"
  by (simp_all add: unblock_def)

lemma deliverAny_frame [frame, simp]:
  "agents (snd (deliverAny t k g m s)) = agents s" "nameIdx (snd (deliverAny t k g m s)) = nameIdx s"
  "channels (snd (deliverAny t k g m s)) = channels s" "rooms (snd (deliverAny t k g m s)) = rooms s"
  "tasks (snd (deliverAny t k g m s)) = tasks s" "writes (snd (deliverAny t k g m s)) = writes s"
  "queue (snd (deliverAny t k g m s)) = queue s" "stopped (snd (deliverAny t k g m s)) = stopped s"
  "writes_closed (snd (deliverAny t k g m s)) = writes_closed s"
  "db_closed (snd (deliverAny t k g m s)) = db_closed s" "panicked (snd (deliverAny t k g m s)) = panicked s"
  "next_chan (snd (deliverAny t k g m s)) = next_chan s" "blocked (snd (deliverAny t k g m s)) = blocked s"
  "files (snd (deliverAny t k g m s)) = files s" "commits (snd (deliverAny t k g m s)) = commits s" "staged (snd (deliverAny t k g m s)) = staged s" "faults (snd (deliverAny t k g m s)) = faults s"
  "keys (snd (deliverAny t k g m s)) = keys s"
  by (simp_all add: deliverAny_def split: option.split)

lemma put_room_frame [frame, simp]:
  "agents (put_room n r s) = agents s" "nameIdx (put_room n r s) = nameIdx s"
  "channels (put_room n r s) = channels s" "tasks (put_room n r s) = tasks s"
  "anyWaiter (put_room n r s) = anyWaiter s" "writes (put_room n r s) = writes s"
  "queue (put_room n r s) = queue s" "stopped (put_room n r s) = stopped s"
  "writes_closed (put_room n r s) = writes_closed s" "db_closed (put_room n r s) = db_closed s"
  "panicked (put_room n r s) = panicked s" "bufs (put_room n r s) = bufs s"
  "next_chan (put_room n r s) = next_chan s" "blocked (put_room n r s) = blocked s"
  "files (put_room n r s) = files s" "commits (put_room n r s) = commits s" "staged (put_room n r s) = staged s" "faults (put_room n r s) = faults s" "keys (put_room n r s) = keys s"
  "rooms (put_room n r s) = AList.update n r (rooms s)"
  by (simp_all add: put_room_def)

lemma put_channel_frame [frame, simp]:
  "agents (put_channel k c s) = agents s" "nameIdx (put_channel k c s) = nameIdx s"
  "rooms (put_channel k c s) = rooms s" "tasks (put_channel k c s) = tasks s"
  "anyWaiter (put_channel k c s) = anyWaiter s" "writes (put_channel k c s) = writes s"
  "queue (put_channel k c s) = queue s" "stopped (put_channel k c s) = stopped s"
  "writes_closed (put_channel k c s) = writes_closed s" "db_closed (put_channel k c s) = db_closed s"
  "panicked (put_channel k c s) = panicked s" "bufs (put_channel k c s) = bufs s"
  "next_chan (put_channel k c s) = next_chan s" "blocked (put_channel k c s) = blocked s"
  "files (put_channel k c s) = files s" "commits (put_channel k c s) = commits s" "staged (put_channel k c s) = staged s" "faults (put_channel k c s) = faults s" "keys (put_channel k c s) = keys s"
  "channels (put_channel k c s) = AList.update k c (channels s)"
  by (simp_all add: put_channel_def)

lemma queue_with_queue:
  "queue (with_queue f s) = (if panicked s \<or> db_closed s then queue s else map_option f (queue s))"
  by (simp add: with_queue_def)

text \<open>A database action that no handler observes after the process is gone.\<close>

definition alive :: "state \<Rightarrow> bool" where
  "alive s \<longleftrightarrow> \<not> panicked s \<and> \<not> writes_closed s \<and> \<not> db_closed s"

lemma alive_prims [simp]:
  "alive (with_queue f s) = alive s" "alive (send c v s) = alive s" "alive (unblock c s) = alive s"
  "alive (put_room n r s) = alive s" "alive (put_channel k ch s) = alive s"
  "alive (snd (deliverAny t kd g m s)) = alive s"
  by (simp_all add: alive_def)

lemma alive_enqueueWrite [simp]: "alive s \<Longrightarrow> alive (enqueueWrite p c m s)"
  by (auto simp: alive_def enqueueWrite_def Let_def split: option.split)

text \<open>What a daemon that runs puts on the channel, and what it does to the tables.\<close>

definition new_op :: "string \<Rightarrow> content \<Rightarrow> string \<Rightarrow> state \<Rightarrow> writeOp" where
  "new_op p c m s = \<lparr>wo_queueID = (case queue s of None \<Rightarrow> 0 | Some d \<Rightarrow> if q_fault s then 0 else d_nextID d),
     wo_attempts = 0, wo_relPath = p, wo_content = c, wo_commitMsg = m\<rparr>"

lemma new_op_fields [simp]:
  "wo_relPath (new_op p c m s) = p" "wo_content (new_op p c m s) = c" "wo_attempts (new_op p c m s) = 0"
  by (simp_all add: new_op_def)

lemma enqueueWrite_writes:
  "\<not> panicked s \<Longrightarrow> \<not> writes_closed s \<Longrightarrow> writes (enqueueWrite p c m s) = writes s @ [new_op p c m s]"
  by (simp add: enqueueWrite_def new_op_def q_insert_def Let_def split: option.split)

lemma enqueueWrite_queue:
  "\<not> panicked s \<Longrightarrow> queue (enqueueWrite p c m s) =
     (if q_fault s then queue s else map_option (\<lambda>d. snd (q_insert p c m d)) (queue s))"
  by (simp add: enqueueWrite_def q_exec_def Let_def split: option.split)

lemma enqueueWrite_faults:
  "\<not> panicked s \<Longrightarrow> faults (enqueueWrite p c m s) = (if queue s = None then faults s else tl (faults s))"
  by (simp add: enqueueWrite_def q_exec_def Let_def split: option.split)

lemma enqueueWrite_alive:
  "alive s \<Longrightarrow> queue s = Some d \<Longrightarrow> faults s = [] \<Longrightarrow> enqueueWrite p c m s =
     s\<lparr>queue := Some (snd (q_insert p c m d)),
       writes := writes s @ [\<lparr>wo_queueID = d_nextID d, wo_attempts = 0, wo_relPath = p,
          wo_content = c, wo_commitMsg = m\<rparr>]\<rparr>"
  by (simp add: enqueueWrite_def alive_def q_insert_def q_exec_def q_fault_def)

lemma with_queue_alive: "alive s \<Longrightarrow> with_queue f s = s\<lparr>queue := map_option f (queue s)\<rparr>"
  by (simp add: with_queue_def alive_def)

lemma agentByName_frame [frame, simp]:
  "agentByName (with_queue f s) = agentByName s" "agentByName (enqueueWrite p c m s) = agentByName s"
  "agentByName (send ch v s) = agentByName s" "agentByName (put_room n r s) = agentByName s"
  "agentByName (put_channel k cn s) = agentByName s" "agentByName (unblock ch s) = agentByName s"
  "agentByName (snd (deliverAny t kd g ms s)) = agentByName s"
  by (auto simp: agentByName_def fun_eq_iff split: option.split)

section \<open>Boxes of the side store\<close>

definition qbox :: "state \<Rightarrow> box_key \<Rightarrow> entry list option" where
  "qbox s k = map_option (\<lambda>d. box d k) (queue s)"

lemma qbox_frame [frame, simp]:
  "qbox (send c v s) = qbox s" "qbox (unblock c s) = qbox s" "qbox (put_room n r s) = qbox s"
  "qbox (put_channel kk ch s) = qbox s" "qbox (snd (deliverAny t kd g m s)) = qbox s"
  by (simp_all add: qbox_def fun_eq_iff)

lemma qbox_enqueueWrite [frame, simp]: "qbox (enqueueWrite p c m s) = qbox s"
  by (auto simp: enqueueWrite_def q_exec_def Let_def qbox_def fun_eq_iff q_insert_def box_def split: option.split)

lemma qbox_same_box:
  assumes "\<And>d. box (f d) = box d"
  shows "qbox (with_queue f s) = qbox s"
  using assms by (auto simp: qbox_def with_queue_def fun_eq_iff option.map_comp comp_def)

lemma qbox_room_rows [frame, simp]:
  "qbox (with_queue (roomUpsert n ds cb ca) s) = qbox s"
  "qbox (with_queue (roomAddMember n m) s) = qbox s"
  "qbox (with_queue (roomRemoveMember n m) s) = qbox s"
  "qbox (with_queue (roomSetArchived n b) s) = qbox s"
  by (rule qbox_same_box, simp add: frame)+

lemma qbox_append:
  "qbox (with_queue (mailboxAppend r kd t n f ts b) s) key =
     (if key = (r, kd, t) \<and> \<not> panicked s \<and> \<not> db_closed s
      then map_option (\<lambda>l. l @ [(n, f, rfc3339 ts, b)]) (qbox s key) else qbox s key)"
  by (auto simp: qbox_def with_queue_def option.map_comp comp_def mailboxAppend_put sqlite_box.view_put
      intro!: map_option_cong)

lemma qbox_deleteOne:
  "qbox (with_queue (mailboxDeleteOne r kd t n) s) key =
     (if key = (r, kd, t) \<and> \<not> panicked s \<and> \<not> db_closed s
      then map_option (filter (\<lambda>e. fst e \<noteq> n)) (qbox s key) else qbox s key)"
  by (auto simp: qbox_def with_queue_def option.map_comp comp_def box_mailboxDeleteOne
      intro!: map_option_cong)

lemma qbox_consumeAll:
  "qbox (with_queue (mailboxConsumeAll r kd t) s) key =
     (if key = (r, kd, t) \<and> \<not> panicked s \<and> \<not> db_closed s
      then map_option (\<lambda>_. []) (qbox s key) else qbox s key)"
  by (auto simp: qbox_def with_queue_def option.map_comp comp_def box_mailboxConsumeAll
      intro!: map_option_cong)

lemma qbox_dropOldest:
  "qbox (with_queue (mailboxDropOldest r kd t n) s) = qbox (with_queue (mailboxDeleteOne r kd t n) s)"
  by (auto simp: qbox_def with_queue_def option.map_comp comp_def box_mailboxDropOldest fun_eq_iff)

definition mirror_at :: "state \<Rightarrow> box_key \<Rightarrow> entry list \<Rightarrow> bool" where
  \<comment> \<open>the side store, when there is one, holds exactly these entries\<close>
  "mirror_at s k es \<longleftrightarrow> (\<forall>l. qbox s k = Some l \<longrightarrow> l = es)"

definition live_store :: "state \<Rightarrow> bool" where
  "live_store s \<longleftrightarrow> \<not> panicked s \<and> \<not> db_closed s"

lemma live_store_frame [frame, simp]:
  "live_store (send c v s) = live_store s" "live_store (unblock c s) = live_store s"
  "live_store (put_room n r s) = live_store s" "live_store (put_channel kk ch s) = live_store s"
  "live_store (snd (deliverAny t kd g m s)) = live_store s" "live_store (with_queue f s) = live_store s"
  by (simp_all add: live_store_def)

lemma live_store_enqueueWrite: "live_store (enqueueWrite p c m s) \<Longrightarrow> live_store s"
  by (auto simp: live_store_def enqueueWrite_def Let_def split: option.splits if_splits)

lemma qbox_updates [frame, simp]:
  "qbox (s\<lparr>agents := a\<rparr>) = qbox s" "qbox (s\<lparr>nameIdx := b\<rparr>) = qbox s" "qbox (s\<lparr>tasks := c\<rparr>) = qbox s"
  "qbox (s\<lparr>anyWaiter := w\<rparr>) = qbox s" "qbox (s\<lparr>files := f\<rparr>) = qbox s" "qbox (s\<lparr>keys := g\<rparr>) = qbox s"
  "qbox (s\<lparr>bufs := bb\<rparr>) = qbox s" "qbox (s\<lparr>stopped := bo\<rparr>) = qbox s" "qbox (s\<lparr>writes := wr\<rparr>) = qbox s"
  "qbox (s\<lparr>faults := fl\<rparr>) = qbox s" "qbox (s\<lparr>staged := st\<rparr>) = qbox s"
  by (simp_all add: qbox_def fun_eq_iff)

lemma live_store_updates [frame, simp]:
  "live_store (s\<lparr>agents := a\<rparr>) = live_store s" "live_store (s\<lparr>nameIdx := b\<rparr>) = live_store s"
  "live_store (s\<lparr>tasks := c\<rparr>) = live_store s" "live_store (s\<lparr>anyWaiter := w\<rparr>) = live_store s"
  "live_store (s\<lparr>files := f\<rparr>) = live_store s" "live_store (s\<lparr>keys := g\<rparr>) = live_store s"
  "live_store (s\<lparr>bufs := bb\<rparr>) = live_store s" "live_store (s\<lparr>stopped := bo\<rparr>) = live_store s"
  "live_store (s\<lparr>writes := wr\<rparr>) = live_store s" "live_store (s\<lparr>faults := fl\<rparr>) = live_store s"
  "live_store (s\<lparr>staged := st\<rparr>) = live_store s"
  by (simp_all add: live_store_def)

lemma block_frame [frame, simp]:
  "agents (snd (block p s)) = agents s" "nameIdx (snd (block p s)) = nameIdx s"
  "channels (snd (block p s)) = channels s" "rooms (snd (block p s)) = rooms s"
  "tasks (snd (block p s)) = tasks s" "anyWaiter (snd (block p s)) = anyWaiter s"
  "writes (snd (block p s)) = writes s" "queue (snd (block p s)) = queue s"
  "live_store (snd (block p s)) = live_store s" "qbox (snd (block p s)) = qbox s"
  "files (snd (block p s)) = files s" "keys (snd (block p s)) = keys s"
  "staged (snd (block p s)) = staged s" "faults (snd (block p s)) = faults s"
  "fst (block p s) = next_chan s" "next_chan (snd (block p s)) = Suc (next_chan s)"
  "bufs (snd (block p s)) = (bufs s)(next_chan s := [])"
  "blocked (snd (block p s)) = AList.update (next_chan s) p (blocked s)"
  by (simp_all add: block_def live_store_def qbox_def fun_eq_iff)

end
