(* ===== verification/Go_Paths.thy ===== *)
theory Go_Paths
  imports Go_Strings
begin

text \<open>
  The lexical part of Go's \<^verbatim>\<open>path/filepath\<close> on Unix, as the daemon uses it:
  \<^verbatim>\<open>Clean\<close>, \<^verbatim>\<open>Join\<close>, \<^verbatim>\<open>Base\<close>, \<^verbatim>\<open>Dir\<close>, \<^verbatim>\<open>IsAbs\<close> and
  \<^verbatim>\<open>Ext\<close>. The lemmas say when joining is plain concatenation, and what a path that
  leaves its directory looks like.
\<close>

abbreviation slash :: char where "slash \<equiv> CHR ''/''"

definition isAbs :: "string \<Rightarrow> bool" where
  "isAbs p = hasPrefix p [slash]"

fun clean_elems :: "bool \<Rightarrow> string list \<Rightarrow> string list \<Rightarrow> string list" where
  \<comment> \<open>\<open>acc\<close> is the path so far, last element first\<close>
  "clean_elems rooted acc [] = rev acc"
| "clean_elems rooted acc (x # xs) =
     (if x = [] \<or> x = ''.'' then clean_elems rooted acc xs
      else if x = ''..'' then
        (case acc of
           y # ys \<Rightarrow> if y = ''..'' then clean_elems rooted (''..'' # acc) xs else clean_elems rooted ys xs
         | [] \<Rightarrow> if rooted then clean_elems rooted [] xs else clean_elems rooted [''..''] xs)
      else clean_elems rooted (x # acc) xs)"

definition clean :: "string \<Rightarrow> string" where
  "clean p = (if p = [] then ''.''
     else let out = joinWith [slash] (clean_elems (isAbs p) [] (splitOn slash p))
       in if isAbs p then slash # out else if out = [] then ''.'' else out)"

definition pathJoin :: "string list \<Rightarrow> string" where
  "pathJoin es = (case dropWhile (\<lambda>e. e = []) es of [] \<Rightarrow> [] | es' \<Rightarrow> clean (joinWith [slash] es'))"

definition pathBase :: "string \<Rightarrow> string" where
  "pathBase p = (if p = [] then ''.''
     else let p = trimRight p slash in if p = [] then [slash] else last (splitOn slash p))"

definition pathDir :: "string \<Rightarrow> string" where
  \<comment> \<open>clean what precedes the last element, its separator included\<close>
  "pathDir p = clean (rev (dropWhile (\<lambda>c. c \<noteq> slash) (rev p)))"

definition pathExt :: "string \<Rightarrow> string" where
  "pathExt p = (let r = rev p; e = takeWhile (\<lambda>c. c \<noteq> CHR ''.'' \<and> c \<noteq> slash) r
     in case drop (length e) r of
          c # _ \<Rightarrow> if c = CHR ''.'' then CHR ''.'' # rev e else []
        | [] \<Rightarrow> [])"

section \<open>Joining plain names\<close>

definition plain_elem :: "string \<Rightarrow> bool" where
  \<comment> \<open>a name that is one path element and stays one\<close>
  "plain_elem x \<longleftrightarrow> x \<noteq> [] \<and> x \<noteq> ''.'' \<and> x \<noteq> ''..'' \<and> slash \<notin> set x"

lemma clean_elems_plain:
  "\<forall>x \<in> set xs. plain_elem x \<Longrightarrow> clean_elems r acc xs = rev acc @ xs"
  by (induction xs arbitrary: acc) (auto simp: plain_elem_def)

lemma splitOn_joinWith:
  "xs \<noteq> [] \<Longrightarrow> \<forall>x \<in> set xs. c \<notin> set x \<Longrightarrow> splitOn c (joinWith [c] xs) = xs"
proof (induction xs)
  case (Cons x xs)
  then show ?case by (cases xs) (simp_all add: splitOn_append splitOn_absent)
qed simp

lemma joinWith_plain_not_abs:
  assumes "xs \<noteq> []" "\<forall>x \<in> set xs. plain_elem x"
  shows "\<not> isAbs (joinWith [slash] xs) \<and> joinWith [slash] xs \<noteq> []"
proof -
  obtain y ys where xs: "xs = y # ys" using assms(1) by (cases xs) auto
  obtain c cs where y: "y = c # cs" using assms(2) xs by (cases y) (auto simp: plain_elem_def)
  have "c \<noteq> slash" using assms(2) xs y by (auto simp: plain_elem_def)
  then show ?thesis by (cases ys) (auto simp: xs y isAbs_def)
qed

lemma clean_plain:
  assumes "xs \<noteq> []" "\<forall>x \<in> set xs. plain_elem x"
  shows "clean (joinWith [slash] xs) = joinWith [slash] xs"
proof -
  have "\<forall>x \<in> set xs. slash \<notin> set x" using assms(2) by (auto simp: plain_elem_def)
  then show ?thesis
    using assms joinWith_plain_not_abs[OF assms] by (simp add: clean_def splitOn_joinWith clean_elems_plain)
qed

lemma pathJoin_plain:
  "xs \<noteq> [] \<Longrightarrow> \<forall>x \<in> set xs. plain_elem x \<Longrightarrow> pathJoin xs = joinWith [slash] xs"
  using clean_plain[of xs] by (cases xs; cases "hd xs") (auto simp: pathJoin_def plain_elem_def)

lemma plain_suffixed: "slash \<notin> set x \<Longrightarrow> slash \<notin> set s \<Longrightarrow> 2 < length s \<Longrightarrow> plain_elem (x @ s)"
  by (auto simp: plain_elem_def append_eq_Cons_conv dest!: arg_cong[of _ _ length])

lemma pathBase_joined:
  assumes "slash \<notin> set b" "b \<noteq> []"
  shows "pathBase (d @ slash # b) = b"
proof -
  have "last b \<noteq> slash" using assms last_in_set by force
  then have t: "trimRight (d @ slash # b) slash = d @ slash # b"
    using assms(2) by (intro trimRight_id) simp
  have "\<exists>ws. ws \<noteq> [] \<and> splitOn slash (d @ slash # b) = ws @ [b]"
  proof (induction d)
    case Nil
    show ?case using assms(1) by (simp add: splitOn_absent)
  next
    case (Cons c d)
    then obtain w ws where "splitOn slash (d @ slash # b) = (w # ws) @ [b]" by (metis neq_Nil_conv)
    then show ?case by auto
  qed
  then show ?thesis by (auto simp: pathBase_def t)
qed

end
