(* ===== verification/Signing.thy ===== *)
theory Signing
  imports State_Model Go_Paths
begin

text \<open>
  Request signing (\<^verbatim>\<open>signing.go\<close>) and the file key store (\<^verbatim>\<open>keystore.go\<close>). Ed25519 is not
  part of the sources: a private key is its bytes, \<open>pubOf\<close> and \<open>verifySig\<close> of the
  environment are the package's operations, and what a theorem needs of them is a hypothesis.
  The message that is signed is the value \<^verbatim>\<open>json.Marshal\<close> is applied to, with the members
  of nested objects in the sorted order \<^verbatim>\<open>json.Marshal\<close> writes them in.
\<close>

section \<open>Hexadecimal\<close>

definition hexDigit :: "nat \<Rightarrow> char" where
  "hexDigit d = (if d < 10 then digit d else char_of (d + 87))"

definition fromHexChar :: "char \<Rightarrow> nat option" where
  "fromHexChar c = (let n = of_char c :: nat in
     if 48 \<le> n \<and> n \<le> 57 then Some (n - 48)
     else if 97 \<le> n \<and> n \<le> 102 then Some (n - 87)
     else if 65 \<le> n \<and> n \<le> 70 then Some (n - 55) else None)"

fun hexEncode :: "string \<Rightarrow> string" where
  \<comment> \<open>\<^verbatim>\<open>hex.EncodeToString\<close> and the verb \<^verbatim>\<open>%x\<close>\<close>
  "hexEncode [] = []"
| "hexEncode (c # s) = hexDigit (of_char c div 16) # hexDigit (of_char c mod 16) # hexEncode s"

datatype hexError = OddLength | InvalidByte char

fun hexDecode :: "string \<Rightarrow> hexError + string" where
  "hexDecode [] = Inr []"
| "hexDecode [c] = (case fromHexChar c of None \<Rightarrow> Inl (InvalidByte c) | Some _ \<Rightarrow> Inl OddLength)"
| "hexDecode (a # b # s) =
     (case fromHexChar a of None \<Rightarrow> Inl (InvalidByte a)
      | Some x \<Rightarrow> (case fromHexChar b of None \<Rightarrow> Inl (InvalidByte b)
      | Some y \<Rightarrow> (case hexDecode s of Inl err \<Rightarrow> Inl err
      | Inr t \<Rightarrow> Inr (char_of (x * 16 + y) # t))))"

definition unicodePoint :: "char \<Rightarrow> string" where
  \<comment> \<open>the verb \<^verbatim>\<open>%#U\<close> for a byte: its number, and the character when it is printable\<close>
  "unicodePoint c = (let n = of_char c :: nat;
      up = (\<lambda>d. if d < 10 then digit d else char_of (d + 55));
      utf8 = (if n < 128 then [c] else [char_of (192 + n div 64), char_of (128 + n mod 64)])
    in ''U+00'' @ [up (n div 16), up (n mod 16)]
       @ (if (32 \<le> n \<and> n \<le> 126) \<or> (161 \<le> n \<and> n \<noteq> 173)
          then '' '' @ [CHR 0x27] @ utf8 @ [CHR 0x27] else []))"

definition hexError_text :: "hexError \<Rightarrow> string" where
  "hexError_text err = (case err of OddLength \<Rightarrow> ''encoding/hex: odd length hex string''
     | InvalidByte c \<Rightarrow> ''encoding/hex: invalid byte: '' @ unicodePoint c)"

lemma of_char_hexDigit: "d < 16 \<Longrightarrow> (of_char (hexDigit d) :: nat) = (if d < 10 then 48 + d else 87 + d)"
  by (auto simp: hexDigit_def of_char_digit)

lemma fromHexChar_hexDigit [simp]: "d < 16 \<Longrightarrow> fromHexChar (hexDigit d) = Some d"
  by (simp add: fromHexChar_def of_char_hexDigit Let_def)

lemma hexDecode_encode [simp]: "hexDecode (hexEncode s) = Inr s"
proof (induction s)
  case (Cons c s)
  have "(of_char c :: nat) < 256" by simp
  then have "(of_char c :: nat) div 16 < 16" by linarith
  then show ?case using Cons by simp
qed simp

lemma hexEncode_inj: "hexEncode s = hexEncode t \<Longrightarrow> s = t"
  by (metis hexDecode_encode sum.inject(2))

lemma length_hexEncode [simp]: "length (hexEncode s) = 2 * length s"
  by (induction s) auto

section \<open>The canonical arguments\<close>

fun norm_json :: "json \<Rightarrow> json" where
  \<comment> \<open>the members of every object in the order \<^verbatim>\<open>json.Marshal\<close> writes a Go map\<close>
  "norm_json (JArr xs) = JArr (map norm_json xs)"
| "norm_json (JObj ms) = JObj (sort_key fst (map (\<lambda>(k, v). (k, norm_json v)) ms))"
| "norm_json v = v"

definition stripped :: "(string, json) gomap \<Rightarrow> (string, json) gomap" where
  "stripped args = filter (\<lambda>(k, v). k \<noteq> ''sig'') args"

fun pairs_of :: "(string, json) gomap \<Rightarrow> json list" where
  "pairs_of [] = []"
| "pairs_of ((k, v) # m) = JStr k # norm_json v # pairs_of m"

definition canonicalArgs :: "(string, json) gomap option \<Rightarrow> json" where
  \<comment> \<open>\<open>None\<close> is the nil map\<close>
  "canonicalArgs args = (case args of None \<Rightarrow> JNull
     | Some m \<Rightarrow> JArr (pairs_of (sort_key fst (stripped m))))"

definition signRequest :: "(string \<Rightarrow> json \<Rightarrow> string) \<Rightarrow> string \<Rightarrow> (string, json) gomap \<Rightarrow> string" where
  "signRequest sign priv args = hexEncode (sign priv (canonicalArgs (Some args)))"

definition publicKeySize :: nat where "publicKeySize = 32"
definition privateKeySize :: nat where "privateKeySize = 64"

datatype verifyError = MissingSig | BadSigHex hexError | BadPubHex hexError | PubSize nat | SigInvalid

definition verifyRequest :: "env \<Rightarrow> string \<Rightarrow> (string, json) gomap \<Rightarrow> verifyError option" where
  "verifyRequest e pubHex args =
     (case map_of args ''sig'' of
        Some (JStr sigHex) \<Rightarrow>
          if sigHex = [] then Some MissingSig
          else (case hexDecode sigHex of
              Inl err \<Rightarrow> Some (BadSigHex err)
            | Inr sig \<Rightarrow> (case hexDecode pubHex of
                Inl err \<Rightarrow> Some (BadPubHex err)
              | Inr pub \<Rightarrow>
                  if length pub \<noteq> publicKeySize then Some (PubSize (length pub))
                  else if \<not> verifySig e pub (canonicalArgs (Some args)) sig then Some SigInvalid
                  else None))
      | _ \<Rightarrow> Some MissingSig)"

definition verifyError_text :: "verifyError \<Rightarrow> string" where
  "verifyError_text err = (case err of
       MissingSig \<Rightarrow> ''missing signature''
     | BadSigHex h \<Rightarrow> ''bad signature encoding: '' @ hexError_text h
     | BadPubHex h \<Rightarrow> ''bad pubkey encoding: '' @ hexError_text h
     | PubSize n \<Rightarrow> ''pubkey size '' @ itoa (int n) @ '' != '' @ itoa (int publicKeySize)
     | SigInvalid \<Rightarrow> ''signature invalid'')"

section \<open>Key files\<close>

definition keyPath :: "string \<Rightarrow> string" where
  \<comment> \<open>below \<^verbatim>\<open>~/.lalia\<close>\<close>
  "keyPath name = pathJoin [''keys'', name @ ''.key'']"

definition key_load :: "(string, string) gomap \<Rightarrow> string \<Rightarrow> string option" where
  "key_load ks name = (case map_of ks (keyPath name) of
       None \<Rightarrow> None
     | Some b \<Rightarrow> if length b \<noteq> privateKeySize then None else Some b)"

definition key_save :: "(string, string) gomap \<Rightarrow> string \<Rightarrow> string \<Rightarrow> (string, string) gomap" where
  "key_save ks name k = AList.update (keyPath name) k ks"

definition key_delete :: "(string, string) gomap \<Rightarrow> string \<Rightarrow> (string, string) gomap" where
  "key_delete ks name = AList.delete (keyPath name) ks"

definition ensureKey :: "env \<Rightarrow> string \<Rightarrow> state \<Rightarrow> (string + string) \<times> state" where
  \<comment> \<open>the public key, or the error of saving a fresh pair\<close>
  "ensureKey e name s =
     (case key_load (keys s) name of
        Some priv \<Rightarrow> (Inr (pubOf e priv), s)
      | None \<Rightarrow>
          (case saveErr e of
             Some err \<Rightarrow> (Inl (''save key for '' @ name @ '': '' @ err), s)
           | None \<Rightarrow> (Inr (pubOf e (genKey e)), s\<lparr>keys := key_save (keys s) name (genKey e)\<rparr>)))"

definition removeKey :: "string \<Rightarrow> state \<Rightarrow> state" where
  "removeKey name s = s\<lparr>keys := key_delete (keys s) name\<rparr>"

section \<open>What a signature covers\<close>

lemma stripped_update_sig [simp]: "stripped (AList.update ''sig'' v args) = stripped args"
  unfolding stripped_def by (induction args) auto

lemma map_of_stripped: "k \<noteq> ''sig'' \<Longrightarrow> map_of (stripped args) k = map_of args k"
  unfolding stripped_def by (induction args) auto

lemma keys_ok_stripped: "keys_ok args \<Longrightarrow> keys_ok (stripped args)"
  unfolding keys_ok_def stripped_def by (simp add: distinct_map_filter)

lemma keys_ok_sorted: "keys_ok m \<Longrightarrow> keys_ok (sort_key fst m)"
  by (simp add: keys_ok_def distinct_map)

lemma pairs_of_inj:
  "pairs_of m = pairs_of m' \<Longrightarrow> map (\<lambda>(k, v). (k, norm_json v)) m = map (\<lambda>(k, v). (k, norm_json v)) m'"
proof (induction m arbitrary: m' rule: pairs_of.induct)
  case 1
  then show ?case by (cases m') auto
next
  case (2 k v m)
  then obtain k' v' n where "m' = (k', v') # n" by (cases m') auto
  then show ?case using 2 by auto
qed

lemma pairs_of_cong:
  "map (\<lambda>(k, v). (k, norm_json v)) m = map (\<lambda>(k, v). (k, norm_json v)) m' \<Longrightarrow> pairs_of m = pairs_of m'"
proof (induction m arbitrary: m' rule: pairs_of.induct)
  case (2 k v m)
  then obtain k' v' n where "m' = (k', v') # n" by (cases m') auto
  then show ?case using 2 by auto
qed simp

lemma map_of_norm: "map_of (map (\<lambda>(k, v). (k, norm_json v)) m) k = map_option norm_json (map_of m k)"
  by (induction m) auto

lemma sorted_alist_unique:
  assumes "keys_ok a" "keys_ok b" "sorted (map fst a)" "sorted (map fst b)" "map_of a = map_of b"
  shows "a = b"
proof -
  have "set (map fst a) = set (map fst b)"
    using assms(5) by (metis dom_map_of_conv_image_fst set_map)
  then have f: "map fst a = map fst b"
    using assms(1-4) by (intro sorted_distinct_set_unique) (simp_all add: keys_ok_def)
  have "snd (a ! i) = snd (b ! i)" if i: "i < length a" for i
  proof -
    have l: "length a = length b" using f by (metis length_map)
    have "fst (a ! i) = fst (b ! i)" using f i l by (metis nth_map)
    moreover have "map_of a (fst (a ! i)) = Some (snd (a ! i))" "map_of b (fst (b ! i)) = Some (snd (b ! i))"
      using assms(1,2) i l by (simp_all flip: mem_map_of_iff)
    ultimately show ?thesis using assms(5) by simp
  qed
  then show ?thesis using f
    by (metis nth_equalityI length_map nth_map prod_eqI)
qed

text \<open>What is signed covers every argument but the signature, and nothing else: two requests have the
  same signed message exactly when they agree on every member other than \<^verbatim>\<open>sig\<close>, in whatever
  order their maps are iterated.\<close>

theorem canonicalArgs_covers:
  assumes "keys_ok a" "keys_ok b"
  shows "canonicalArgs (Some a) = canonicalArgs (Some b) \<longleftrightarrow>
    (\<forall>k. k \<noteq> ''sig'' \<longrightarrow> map_option norm_json (map_of a k) = map_option norm_json (map_of b k))"
proof -
  let ?n = "\<lambda>m. map (\<lambda>(k, v). (k, norm_json v)) (sort_key fst (stripped m))"
  have mo: "map_of (?n m) k = (if k = ''sig'' then None else map_option norm_json (map_of m k))"
    if "keys_ok m" for m k
  proof -
    have "map_of (sort_key fst (stripped m)) = map_of (stripped m)"
      using keys_ok_stripped[OF that] by (intro map_of_perm keys_ok_sorted) auto
    moreover have "map_of (stripped m) ''sig'' = None"
      by (auto simp: stripped_def map_of_eq_None_iff)
    ultimately show ?thesis by (simp add: map_of_norm map_of_stripped)
  qed
  have ok: "keys_ok (?n m)" "sorted (map fst (?n m))" if "keys_ok m" for m
    using keys_ok_stripped[OF that] keys_ok_sorted[of "stripped m"]
    by (simp_all add: keys_ok_def case_prod_beta comp_def)
  have "canonicalArgs (Some a) = canonicalArgs (Some b) \<longleftrightarrow> ?n a = ?n b"
    unfolding canonicalArgs_def option.case json.inject by (rule iffI, erule pairs_of_inj, erule pairs_of_cong)
  also have "\<dots> \<longleftrightarrow> map_of (?n a) = map_of (?n b)"
    using sorted_alist_unique[OF ok(1)[OF assms(1)] ok(1)[OF assms(2)] ok(2)[OF assms(1)] ok(2)[OF assms(2)]]
    by metis
  also have "\<dots> \<longleftrightarrow> (\<forall>k. k \<noteq> ''sig'' \<longrightarrow> map_option norm_json (map_of a k) = map_option norm_json (map_of b k))"
    by (simp only: fun_eq_iff mo[OF assms(1)] mo[OF assms(2)]) (intro arg_cong[where f = All] ext, simp)
  finally show ?thesis .
qed

text \<open>A request the client signs with its private key and sends with the signature added is accepted
  by a daemon that has the matching public key on file, provided Ed25519 verifies what it signed.\<close>

theorem sign_then_verify:
  assumes "\<And>m. verifySig e (pubOf e priv) m (sign priv m)" "length (pubOf e priv) = publicKeySize"
    "\<And>m. sign priv m \<noteq> []"
  shows "verifyRequest e (hexEncode (pubOf e priv))
    (AList.update ''sig'' (JStr (signRequest sign priv args)) args) = None"
proof -
  have "hexEncode (sign priv m) \<noteq> []" for m
    using assms(3)[of m] by (cases "sign priv m") auto
  then show ?thesis
    using assms(1,2) by (simp add: verifyRequest_def signRequest_def canonicalArgs_def)
qed

end
