(* ===== verification/Identity.thy ===== *)
theory Identity
  imports Signing
begin

text \<open>
  Identities and addresses (\<^verbatim>\<open>identity.go\<close>, \<^verbatim>\<open>project.go\<close>): detection of an agent's
  metadata, the suggested default name, the qualified form of a name, and the resolution of an
  address to an agent. What git, the environment variables and the file system answer is an
  argument (\<open>probe\<close>).
\<close>

section \<open>Detection\<close>

record probe =
  pr_getwd :: "string option"             \<comment> \<open>\<^verbatim>\<open>os.Getwd\<close>\<close>
  pr_canon :: "string \<Rightarrow> string"           \<comment> \<open>\<^verbatim>\<open>canonicalPath\<close>: absolute, symbolic links followed\<close>
  pr_git :: "string list \<Rightarrow> string"        \<comment> \<open>\<^verbatim>\<open>gitOutput\<close>: trimmed output, empty on error\<close>
  pr_env :: "string \<Rightarrow> string"             \<comment> \<open>\<^verbatim>\<open>os.Getenv\<close>\<close>

definition detectHarness :: "(string \<Rightarrow> string) \<Rightarrow> string" where
  "detectHarness getenv =
     (let is_set = (\<lambda>k. getenv k \<noteq> [])
      in if is_set ''CLAUDECODE'' \<or> is_set ''CLAUDE_CODE'' then ''claude-code''
         else if is_set ''CODEX'' \<or> is_set ''OPENAI_CODEX'' \<or> is_set ''CODEX_HOME'' \<or> is_set ''CODEX_LOG_DIR''
            \<or> is_set ''CODEX_CI'' \<or> is_set ''CODEX_THREAD_ID'' then ''codex-cli''
         else if is_set ''CURSOR_TRACE_ID'' \<or> is_set ''CURSOR_SESSION_ID'' then ''cursor''
         else if is_set ''AIDER_ENV'' then ''aider''
         else if is_set ''GITHUB_COPILOT_CLI'' \<or> is_set ''COPILOT_AGENT'' then ''copilot''
         else if is_set ''GEMINI_CLI'' \<or> is_set ''GEMINI_AGENT'' then ''gemini-cli''
         else ''unknown'')"

definition or_else :: "string \<Rightarrow> string \<Rightarrow> string" where
  \<comment> \<open>an override, or the detected value when the override is empty\<close>
  "or_else x y = (if x = [] then y else x)"

definition repo_project :: "string \<Rightarrow> string" where
  \<comment> \<open>the last path segment of a remote URL, without \<^verbatim>\<open>.git\<close>\<close>
  "repo_project url = (if url = [] then []
     else last (splitOn slash (trimSuffix (trimSuffix url ''.git'') [slash])))"

definition detect_worktree :: "probe \<Rightarrow> string \<Rightarrow> string \<Rightarrow> string \<Rightarrow> string \<times> string" where
  \<comment> \<open>the main repository root and the kind of worktree\<close>
  "detect_worktree p cwd branch repoRoot =
     (if repoRoot = [] then ([], ''outside'')
      else
        let commonDir = pr_git p [''rev-parse'', ''--git-common-dir''];
            (mainRoot, kind) =
              (if commonDir = [] then ([], [])
               else let dir = (if isAbs commonDir then commonDir else pathJoin [cwd, commonDir]);
                        main = pr_canon p (pathDir dir)
                    in (main, if repoRoot = main then ''main'' else ''secondary''))
        in (mainRoot, if branch = ''HEAD'' then ''detached'' else kind))"

definition detect_project :: "string \<Rightarrow> string \<Rightarrow> string \<Rightarrow> string \<Rightarrow> string" where
  "detect_project url mainRoot kind cwd =
     (let p1 = repo_project url;
          p2 = (if p1 = [] \<and> mainRoot \<noteq> [] then pathBase mainRoot else p1)
      in if p2 = [] \<and> kind \<noteq> ''outside'' then pathBase cwd else p2)"

definition DetectAgentInfo :: "probe \<Rightarrow> agentInfo \<Rightarrow> agentInfo" where
  "DetectAgentInfo p overrides =
     (let cwd = or_else (in_CWD overrides) (case pr_getwd p of None \<Rightarrow> [] | Some d \<Rightarrow> pr_canon p d);
          branch = or_else (in_Branch overrides) (pr_git p [''rev-parse'', ''--abbrev-ref'', ''HEAD'']);
          url = or_else (in_RepoURL overrides) (pr_git p [''config'', ''--get'', ''remote.origin.url'']);
          top = pr_git p [''rev-parse'', ''--show-toplevel''];
          repoRoot = or_else (in_RepoRoot overrides) (if top = [] then [] else pr_canon p top);
          (mainRoot, kind) = detect_worktree p cwd branch repoRoot
      in \<lparr>in_Harness = or_else (in_Harness overrides) (detectHarness (pr_env p)),
          in_Model = in_Model overrides,
          in_Project = or_else (in_Project overrides) (detect_project url mainRoot kind cwd),
          in_RepoURL = url, in_RepoRoot = repoRoot, in_MainRepoRoot = mainRoot, in_WorktreeKind = kind,
          in_Worktree = pathBase cwd, in_Branch = branch, in_CWD = cwd\<rparr>)"

section \<open>Default names\<close>

definition is_alnum :: "char \<Rightarrow> bool" where
  "is_alnum c \<longleftrightarrow> (CHR ''a'' \<le> c \<and> c \<le> CHR ''z'') \<or> (CHR ''0'' \<le> c \<and> c \<le> CHR ''9'')"

fun dash_runs :: "bool \<Rightarrow> string \<Rightarrow> string" where
  \<comment> \<open>the loop of \<^verbatim>\<open>sanitizeNamePart\<close>; the flag is \<^verbatim>\<open>prevDash\<close>\<close>
  "dash_runs prevDash [] = []"
| "dash_runs prevDash (c # s) =
     (if is_alnum c then c # dash_runs False s
      else if prevDash then dash_runs True s else CHR ''-'' # dash_runs True s)"

definition sanitizeNamePart :: "string \<Rightarrow> string" where
  "sanitizeNamePart s =
     (let s = toLower (trimSpace s)
      in if s = [] then []
         else let out = trimBoth (dash_runs False s) (CHR ''-'')
           in if length out > 48 then trimBoth (take 48 out) (CHR ''-'') else out)"

definition SuggestAgentName :: "agentInfo \<Rightarrow> string \<Rightarrow> string" where
  "SuggestAgentName info role =
     (let harness = sanitizeNamePart (in_Harness info);
          harness = (if harness = [] \<or> harness = ''unknown'' then ''agent'' else harness);
          r = sanitizeNamePart role;
          scope = sanitizeNamePart (in_Worktree info);
          scope = (if scope = [] then sanitizeNamePart (in_Branch info) else scope);
          scope = (if scope = [] \<or> scope = ''head'' then sanitizeNamePart (in_Project info) else scope);
          scope = (if scope = [] then ''local'' else scope);
          parts = [harness];
          parts = parts @ (if r \<noteq> [] \<and> r \<noteq> harness then [r] else []);
          parts = parts @ (if scope \<noteq> [] \<and> scope \<noteq> harness \<and> scope \<noteq> r then [scope] else [])
      in if parts = [] then ''agent-local'' else joinWith ''-'' parts)"

section \<open>Addresses\<close>

definition qualifiedName :: "agent \<Rightarrow> string" where
  "qualifiedName a =
     (if ag_Project a = [] \<and> ag_Branch a = [] then ag_Name a
      else if ag_Branch a = [] then ag_Name a @ ''@'' @ ag_Project a
      else ag_Name a @ ''@'' @ ag_Project a @ '':'' @ ag_Branch a)"

datatype addrError =
    StaleNickname string string  \<comment> \<open>the nickname, its agent id\<close>
  | IDNotFound string
  | AgentNotFound string
  | Ambiguous string "string list"

definition pick :: "string \<Rightarrow> agent list \<Rightarrow> addrError + string" where
  \<comment> \<open>\<^verbatim>\<open>switch len(matches)\<close>\<close>
  "pick addr ms = (case ms of
       [] \<Rightarrow> Inl (AgentNotFound addr)
     | [a] \<Rightarrow> Inr (ag_AgentID a)
     | _ \<Rightarrow> Inl (Ambiguous addr (map qualifiedName ms)))"

definition address_parts :: "string \<Rightarrow> string \<times> string \<times> string \<times> string" where
  \<comment> \<open>name, project, branch, worktree of \<^verbatim>\<open>name@project:branch:worktree\<close>\<close>
  "address_parts addr =
     (let parts = splitN 2 (CHR ''@'') addr;
          rparts = splitN 3 (CHR '':'') (parts ! 1)
      in (parts ! 0, rparts ! 0,
          if 2 \<le> length rparts then rparts ! 1 else [],
          if 3 \<le> length rparts then rparts ! 2 else []))"

definition address_matches :: "string \<Rightarrow> agent \<Rightarrow> bool" where
  "address_matches addr a =
     (if contains addr ''@''
      then (case address_parts addr of (name, project, branch, worktree) \<Rightarrow>
          ag_Name a = name \<and> (project = [] \<or> ag_Project a = project)
          \<and> (branch = [] \<or> ag_Branch a = branch) \<and> (worktree = [] \<or> ag_Worktree a = worktree))
      else ag_Name a = addr)"

definition resolveAddressInner :: "env \<Rightarrow> string \<Rightarrow> state \<Rightarrow> addrError + string" where
  "resolveAddressInner e addr s =
     (if isULID e addr then
        (case map_of (agents s) addr of Some _ \<Rightarrow> Inr addr | None \<Rightarrow> Inl (IDNotFound addr))
      else pick addr (filter (address_matches addr) (map snd (agents s))))"

definition ResolveAddress :: "env \<Rightarrow> string \<Rightarrow> state \<Rightarrow> addrError + string" where
  "ResolveAddress e addr s =
     (case map_of (nicks e) addr of
        Some nick \<Rightarrow>
          if nk_Mode nick = ''follow'' then resolveAddressInner e (nk_Address nick) s
          else (case map_of (agents s) (nk_AgentID nick) of
              None \<Rightarrow> Inl (StaleNickname addr (nk_AgentID nick))
            | Some _ \<Rightarrow> Inr (nk_AgentID nick))
      | None \<Rightarrow> resolveAddressInner e addr s)"

definition resolvePeerName :: "env \<Rightarrow> string \<Rightarrow> state \<Rightarrow> addrError + string" where
  "resolvePeerName e addr s =
     (case ResolveAddress e addr s of
        Inl err \<Rightarrow> Inl err
      | Inr i \<Rightarrow> (case map_of (agents s) i of None \<Rightarrow> Inl (AgentNotFound addr) | Some a \<Rightarrow> Inr (ag_Name a)))"

section \<open>Project identifiers\<close>

definition slugify :: "string \<Rightarrow> string" where
  "slugify s = (let s = trimBoth (dash_runs False (toLower s)) (CHR ''-'')
     in if s = [] then ''default'' else s)"

fun fields :: "(char \<Rightarrow> bool) \<Rightarrow> string \<Rightarrow> string \<Rightarrow> string list" where
  \<comment> \<open>\<^verbatim>\<open>strings.FieldsFunc\<close>; the second argument is the field being read, reversed\<close>
  "fields p acc [] = (if acc = [] then [] else [rev acc])"
| "fields p acc (c # s) =
     (if p c then (if acc = [] then fields p [] s else rev acc # fields p [] s)
      else fields p (c # acc) s)"

definition projectID :: "string \<Rightarrow> string \<Rightarrow> string" where
  "projectID repoURL fallback =
     (let raw = (if repoURL = [] then []
            else let parts = fields (\<lambda>c. c = slash \<or> c = CHR '':'') []
                       (trimSuffix (trimSuffix repoURL ''.git'') [slash])
              in if parts = [] then [] else last parts)
      in slugify (if raw = [] then fallback else raw))"

section \<open>Names made of letters, digits and single dashes\<close>

definition slug_char :: "char \<Rightarrow> bool" where
  "slug_char c \<longleftrightarrow> is_alnum c \<or> c = CHR ''-''"

definition single_dashes :: "string \<Rightarrow> bool" where
  "single_dashes s \<longleftrightarrow> successively (\<lambda>a b. \<not> (a = CHR ''-'' \<and> b = CHR ''-'')) s"

definition is_slug :: "string \<Rightarrow> bool" where
  "is_slug s \<longleftrightarrow> list_all slug_char s \<and> single_dashes s
     \<and> (s \<noteq> [] \<longrightarrow> hd s \<noteq> CHR ''-'' \<and> last s \<noteq> CHR ''-'')"

lemma single_dashes_append:
  "single_dashes (s @ t) \<Longrightarrow> single_dashes s \<and> single_dashes t"
  by (auto simp: single_dashes_def successively_append_iff)

lemma dash_runs_chars: "list_all slug_char (dash_runs p s)"
  by (induction p s rule: dash_runs.induct) (auto simp: slug_char_def)

lemma not_alnum_dash [simp]: "\<not> is_alnum (CHR ''-'')"
  by (simp add: is_alnum_def less_eq_char_def)

lemma dash_runs_single:
  "single_dashes (dash_runs p s) \<and> (p \<longrightarrow> dash_runs p s = [] \<or> hd (dash_runs p s) \<noteq> CHR ''-'')"
  by (induction p s rule: dash_runs.induct)
    (auto simp: single_dashes_def successively_Cons)

lemma trimBoth_slug:
  assumes "list_all slug_char s" "single_dashes s"
  shows "is_slug (trimBoth s (CHR ''-''))"
proof -
  let ?l = "trimLeft s (CHR ''-'')" and ?d = "CHR ''-''"
  obtain p where p: "s = p @ ?l" by (metis takeWhile_dropWhile_id trimLeft_def)
  obtain n where n: "?l = trimBoth s ?d @ replicate n ?d"
    using trimRight_split[of ?l ?d] by (auto simp: trimBoth_def)
  have "list_all slug_char (trimBoth s ?d)" using assms(1) p n by (metis list_all_append)
  moreover have "single_dashes (trimBoth s ?d)" using assms(2) p n single_dashes_append by metis
  moreover have "hd (trimBoth s ?d) \<noteq> ?d" if "trimBoth s ?d \<noteq> []"
  proof -
    have "?l \<noteq> []" using that n by auto
    then have "hd ?l \<noteq> ?d" using hd_dropWhile unfolding trimLeft_def by fast
    moreover have "hd ?l = hd (trimBoth s ?d)" by (subst n) (simp add: that)
    ultimately show ?thesis by simp
  qed
  ultimately show ?thesis using trimRight_last[of ?l ?d] by (simp add: is_slug_def trimBoth_def)
qed

lemma trimBoth_id: "is_slug s \<Longrightarrow> trimBoth s (CHR ''-'') = s"
  by (cases s) (auto simp: is_slug_def trimBoth_def trimLeft_def trimRight_id)

lemma slug_lower: "slug_char c \<Longrightarrow> lowerChar c = c \<and> \<not> isSpace c"
  by (auto simp: slug_char_def is_alnum_def lowerChar_def isSpace_def less_eq_char_def Let_def)

lemma toLower_slug: "list_all slug_char s \<Longrightarrow> toLower s = s"
  unfolding toLower_def by (induction s) (auto simp: slug_lower)

lemma trimSpace_slug: "list_all slug_char s \<Longrightarrow> trimSpace s = s"
proof -
  have d: "dropWhile isSpace t = t" if "list_all slug_char t" for t
    using that by (cases t) (auto simp: slug_lower)
  assume "list_all slug_char s"
  moreover from this have "list_all slug_char (rev s)" by simp
  ultimately show ?thesis by (simp add: trimSpace_def d)
qed

lemma dash_runs_id:
  "list_all slug_char s \<Longrightarrow> single_dashes s \<Longrightarrow> (p \<Longrightarrow> s = [] \<or> hd s \<noteq> CHR ''-'') \<Longrightarrow> dash_runs p s = s"
proof (induction s arbitrary: p)
  case (Cons c s)
  then have "single_dashes s" "c = CHR ''-'' \<Longrightarrow> s = [] \<or> hd s \<noteq> CHR ''-''"
    by (auto simp: single_dashes_def successively_Cons)
  then show ?case using Cons by (auto simp: slug_char_def)
qed simp

text \<open>A part of a suggested name has at most 48 characters, all of them lower-case letters, digits or
  single inner dashes; cleaning it again changes nothing.\<close>

theorem sanitizeNamePart_slug:
  "is_slug (sanitizeNamePart s) \<and> length (sanitizeNamePart s) \<le> 48
   \<and> sanitizeNamePart (sanitizeNamePart s) = sanitizeNamePart s"
proof -
  let ?d = "CHR ''-''"
  have tb: "is_slug (trimBoth (dash_runs False t) ?d)" for t
    by (simp add: trimBoth_slug dash_runs_chars dash_runs_single)
  have tk: "is_slug (trimBoth (take 48 t) ?d)" if "is_slug t" for t
    using that single_dashes_append[of "take 48 t" "drop 48 t"]
    by (intro trimBoth_slug) (auto simp: is_slug_def list_all_iff dest: in_set_takeD)
  have len: "length (trimBoth t ?d) \<le> length t" for t
    using length_dropWhile_le[of "\<lambda>x. x = ?d" "rev (dropWhile (\<lambda>x. x = ?d) t)"]
      length_dropWhile_le[of "\<lambda>x. x = ?d" t]
    by (simp add: trimBoth_def trimRight_def trimLeft_def)
  have 1: "is_slug (sanitizeNamePart s)" "length (sanitizeNamePart s) \<le> 48"
    using tb tk len[of "take 48 t" for t] by (auto simp: sanitizeNamePart_def Let_def is_slug_def single_dashes_def
        intro: le_trans)
  have "sanitizeNamePart t = t" if "is_slug t" "length t \<le> 48" for t
    using that trimBoth_id[OF that(1)]
    by (simp add: sanitizeNamePart_def Let_def is_slug_def toLower_slug trimSpace_slug dash_runs_id)
  then show ?thesis using 1 by blast
qed

text \<open>A project identifier is a non-empty string of lower-case letters, digits and single inner dashes,
  so it is one path element, never a dot name; slugifying it again changes nothing.\<close>

theorem projectID_plain:
  "is_slug (projectID url fallback) \<and> plain_elem (projectID url fallback)
   \<and> slugify (projectID url fallback) = projectID url fallback"
proof -
  have tb: "is_slug (trimBoth (dash_runs False t) (CHR ''-''))" for t
    by (simp add: trimBoth_slug dash_runs_chars dash_runs_single)
  have sl: "is_slug (slugify t) \<and> slugify t \<noteq> []" for t
    using tb[of "toLower t"] by (auto simp: slugify_def Let_def)
      (simp_all add: is_slug_def slug_char_def is_alnum_def single_dashes_def less_eq_char_def)
  have idem: "slugify t = t" if "is_slug t" "t \<noteq> []" for t
    using that trimBoth_id[OF that(1)] by (simp add: slugify_def Let_def is_slug_def toLower_slug dash_runs_id)
  have no: "\<not> slug_char slash" "\<not> slug_char (CHR ''.'')"
    by (simp_all add: slug_char_def is_alnum_def less_eq_char_def)
  then have "plain_elem t" if "is_slug t" "t \<noteq> []" for t
    using that by (auto simp: plain_elem_def is_slug_def list_all_iff)
  then show ?thesis using sl idem unfolding projectID_def Let_def by blast
qed

section \<open>Resolution\<close>

definition agents_ok :: "state \<Rightarrow> bool" where
  \<comment> \<open>agents are filed under their own identifier\<close>
  "agents_ok s \<longleftrightarrow> keys_ok (agents s) \<and> (\<forall>i a. map_of (agents s) i = Some a \<longrightarrow> ag_AgentID a = i)"

lemma pick_Inr: "pick addr ms = Inr i \<longleftrightarrow> (\<exists>a. ms = [a] \<and> ag_AgentID a = i)"
  by (auto simp: pick_def split: list.splits)

lemma filter_unique:
  assumes "filter P xs = [a]"
  shows "a \<in> set xs \<and> P a \<and> (\<forall>b \<in> set xs. P b \<longrightarrow> b = a)"
proof -
  have "set (filter P xs) = {a}" using assms by simp
  then show ?thesis by auto
qed

lemma singleton_list: "distinct ys \<Longrightarrow> set ys = {a} \<Longrightarrow> ys = [a]"
  by (cases ys; cases "tl ys") auto

lemma filter_one:
  assumes "distinct xs" "a \<in> set xs" "P a" "\<And>b. b \<in> set xs \<Longrightarrow> P b \<Longrightarrow> b = a"
  shows "filter P xs = [a]"
proof -
  have "set (filter P xs) \<subseteq> {a}" using assms(4) by (auto simp only: set_filter)
  moreover have "a \<in> set (filter P xs)" using assms(2,3) by (simp only: set_filter) blast
  ultimately have "set (filter P xs) = {a}" by blast
  then show ?thesis by (rule singleton_list[OF distinct_filter[OF assms(1)]])
qed

lemma agents_distinct: "agents_ok s \<Longrightarrow> distinct (map snd (agents s))"
proof -
  assume ok: "agents_ok s"
  have "ag_AgentID (snd p) = fst p" if "p \<in> set (agents s)" for p
  proof -
    have k: "keys_ok (agents s)" "\<And>i a. map_of (agents s) i = Some a \<Longrightarrow> ag_AgentID a = i"
      using ok by (simp_all add: agents_ok_def)
    have "(fst p, snd p) \<in> set (agents s)" using that by (simp only: prod.collapse)
    then show ?thesis by (intro k(2) mem_map_of k(1))
  qed
  then have "map ag_AgentID (map snd (agents s)) = map fst (agents s)" by simp
  then have "distinct (map ag_AgentID (map snd (agents s)))"
    using ok by (simp only: agents_ok_def keys_ok_def)
  then show ?thesis by (simp only: distinct_map)
qed

lemma agents_mem: "agents_ok s \<Longrightarrow> a \<in> set (map snd (agents s)) \<longleftrightarrow> map_of (agents s) (ag_AgentID a) = Some a"
proof
  assume ok: "agents_ok s" and "a \<in> set (map snd (agents s))"
  then obtain i where "(i, a) \<in> set (agents s)" by auto
  then have "map_of (agents s) i = Some a" using ok mem_map_of by (auto simp: agents_ok_def)
  then show "map_of (agents s) (ag_AgentID a) = Some a" using ok by (auto simp: agents_ok_def)
qed (auto dest!: map_of_SomeD intro!: image_eqI)

lemma resolve_unique_aux:
  assumes "agents_ok s" "map_of (nicks e) addr = None" "\<not> isULID e addr"
  shows "ResolveAddress e addr s = Inr i \<longleftrightarrow>
    (\<exists>a. map_of (agents s) i = Some a \<and> address_matches addr a
       \<and> (\<forall>j b. map_of (agents s) j = Some b \<and> address_matches addr b \<longrightarrow> j = i))"
proof -
  let ?as = "map snd (agents s)"
  have d: "distinct ?as" using assms(1) by (rule agents_distinct)
  have id: "map_of (agents s) j = Some b \<Longrightarrow> ag_AgentID b = j" for j b
    using assms(1) by (simp add: agents_ok_def)
  have mem: "a \<in> set ?as \<longleftrightarrow> map_of (agents s) (ag_AgentID a) = Some a" for a
    using assms(1) by (rule agents_mem)
  have "ResolveAddress e addr s = Inr i \<longleftrightarrow> (\<exists>a. filter (address_matches addr) ?as = [a] \<and> ag_AgentID a = i)"
    using assms(2,3) by (simp add: ResolveAddress_def resolveAddressInner_def pick_Inr)
  also have "\<dots> \<longleftrightarrow> (\<exists>a. a \<in> set ?as \<and> address_matches addr a \<and> ag_AgentID a = i
      \<and> (\<forall>b \<in> set ?as. address_matches addr b \<longrightarrow> b = a))"
  proof (intro iff_exI iffI)
    fix a assume "filter (address_matches addr) ?as = [a] \<and> ag_AgentID a = i"
    then show "a \<in> set ?as \<and> address_matches addr a \<and> ag_AgentID a = i
      \<and> (\<forall>b \<in> set ?as. address_matches addr b \<longrightarrow> b = a)"
      using filter_unique[of "address_matches addr" ?as a] by blast
  next
    fix a assume "a \<in> set ?as \<and> address_matches addr a \<and> ag_AgentID a = i
      \<and> (\<forall>b \<in> set ?as. address_matches addr b \<longrightarrow> b = a)"
    then show "filter (address_matches addr) ?as = [a] \<and> ag_AgentID a = i"
      using filter_one[OF d, of a "address_matches addr"] by blast
  qed
  also have "\<dots> \<longleftrightarrow> (\<exists>a. map_of (agents s) i = Some a \<and> address_matches addr a
       \<and> (\<forall>j b. map_of (agents s) j = Some b \<and> address_matches addr b \<longrightarrow> j = i))"
    unfolding mem Ball_def
  proof (intro iff_exI iffI conjI allI impI; elim conjE)
    fix a j b assume "\<forall>x. map_of (agents s) (ag_AgentID x) = Some x \<longrightarrow> address_matches addr x \<longrightarrow> x = a"
      "map_of (agents s) j = Some b" "address_matches addr b" "ag_AgentID a = i"
    then show "j = i" using id[of j b] by blast
  next
    fix a b assume "map_of (agents s) i = Some a" "address_matches addr b"
      "\<forall>j b. map_of (agents s) j = Some b \<and> address_matches addr b \<longrightarrow> j = i"
      "map_of (agents s) (ag_AgentID b) = Some b"
    then show "b = a" by fastforce
  qed (auto dest: id)
  finally show ?thesis .
qed

text \<open>C27: An address that is neither a nickname nor an identifier resolves to an agent exactly when that
  agent matches it and no other registered agent does; the order in which the registry is iterated
  never decides.\<close>

theorem resolve_iff_unique:
  assumes "agents_ok s" "map_of (nicks e) addr = None" "\<not> isULID e addr"
  shows "ResolveAddress e addr s = Inr i \<longleftrightarrow>
    (\<exists>a. map_of (agents s) i = Some a \<and> address_matches addr a
       \<and> (\<forall>j b. map_of (agents s) j = Some b \<and> address_matches addr b \<longrightarrow> j = i))"
  using assms by (rule resolve_unique_aux)

lemma splitN2: "c \<notin> set a \<Longrightarrow> splitN 2 c (a @ c # b) = [a, b]"
  by (simp add: numeral_2_eq_2 cut_char)

lemma splitN3_two: "c \<notin> set a \<Longrightarrow> c \<notin> set b \<Longrightarrow> splitN 3 c (a @ c # b) = [a, b]"
  by (simp add: numeral_3_eq_3 cut_char cut_char_absent)

lemma splitN3_one: "c \<notin> set a \<Longrightarrow> splitN 3 c a = [a]"
  by (simp add: numeral_3_eq_3 cut_char_absent)

definition same_identity :: "agent \<Rightarrow> agent \<Rightarrow> bool" where
  \<comment> \<open>\<open>b\<close> answers to what the qualified name of \<open>a\<close> says\<close>
  "same_identity a b \<longleftrightarrow> ag_Name b = ag_Name a \<and> (ag_Project a = [] \<or> ag_Project b = ag_Project a)
     \<and> (ag_Branch a = [] \<or> ag_Branch b = ag_Branch a)"

lemma qualified_matches:
  assumes "CHR ''@'' \<notin> set (ag_Name a)" "CHR '':'' \<notin> set (ag_Project a)" "CHR '':'' \<notin> set (ag_Branch a)"
  shows "address_matches (qualifiedName a) b \<longleftrightarrow> same_identity a b"
proof (cases "ag_Project a = [] \<and> ag_Branch a = []")
  case True
  then show ?thesis
    using strIndex_char_absent[OF assms(1)] by (simp add: address_matches_def qualifiedName_def contains_def same_identity_def)
next
  case False
  let ?rest = "if ag_Branch a = [] then ag_Project a else ag_Project a @ CHR '':'' # ag_Branch a"
  have q: "qualifiedName a = ag_Name a @ CHR ''@'' # ?rest" using False by (simp add: qualifiedName_def)
  have "contains (qualifiedName a) ''@''" unfolding q contains_def by (simp add: strIndex_char assms(1))
  moreover have "address_parts (qualifiedName a) = (ag_Name a, ag_Project a, ag_Branch a, [])"
    unfolding q address_parts_def using assms
    by (cases "ag_Branch a = []") (simp_all add: splitN2 splitN3_one splitN3_two)
  ultimately show ?thesis by (auto simp: address_matches_def same_identity_def)
qed

text \<open>The qualified name that \<^verbatim>\<open>lalia agents\<close> prints for an agent is an address of that agent,
  whenever no other agent agrees with it on name, project and branch and the parts hold no
  separator.\<close>

theorem qualifiedName_resolves:
  assumes "agents_ok s" "map_of (agents s) i = Some a" "map_of (nicks e) (qualifiedName a) = None"
    "\<not> isULID e (qualifiedName a)" "CHR ''@'' \<notin> set (ag_Name a)" "CHR '':'' \<notin> set (ag_Project a)"
    "CHR '':'' \<notin> set (ag_Branch a)"
    "\<And>j b. map_of (agents s) j = Some b \<Longrightarrow> same_identity a b \<Longrightarrow> j = i"
  shows "ResolveAddress e (qualifiedName a) s = Inr i"
proof -
  have "\<exists>a'. map_of (agents s) i = Some a' \<and> address_matches (qualifiedName a) a'
       \<and> (\<forall>j b. map_of (agents s) j = Some b \<and> address_matches (qualifiedName a) b \<longrightarrow> j = i)"
    using assms(2,8) by (auto simp: qualified_matches[OF assms(5-7)]) (simp add: same_identity_def)
  then show ?thesis
    using resolve_unique_aux[OF assms(1,3,4)] by blast
qed

end
