(* ===== verification/Channels.thy ===== *)
theory Channels
  imports State_Model
begin

text \<open>
  Peer channels (\<^verbatim>\<open>channel.go\<close>): the canonical key of an unordered pair, telling,
  reading, peeking and releasing a blocked reader. A message goes to exactly one place: the
  reader blocked on this channel, the receiver's blocked \<^verbatim>\<open>read-any\<close>, or its mailbox,
  in which case the side store gets a row.
\<close>

section \<open>Definitions\<close>

definition safePathSegment :: "string \<Rightarrow> string" where
  "safePathSegment name = (if name = [] then ''unknown''
     else map (\<lambda>c. if c \<in> {CHR ''/'', CHR 0x5C, CHR '' '', CHR 0x09, nl} then CHR ''_'' else c) name)"

definition channelKey :: "string \<Rightarrow> string \<Rightarrow> string" where
  "channelKey a b = (if a > b then b @ [CHR 0x00] @ a else a @ [CHR 0x00] @ b)"

definition channelDir :: "string \<Rightarrow> string \<Rightarrow> string" where
  "channelDir a b = (if a > b then ''peers/'' @ safePathSegment b @ ''--'' @ safePathSegment a
     else ''peers/'' @ safePathSegment a @ ''--'' @ safePathSegment b)"

definition newChannel :: "string \<Rightarrow> string \<Rightarrow> channel" where
  "newChannel a b = (let (a, b) = (if a > b then (b, a) else (a, b)) in
     \<lparr>PeerA = a, PeerB = b, c_seq = 0, c_log = [], c_mailbox = [], c_waiter = []\<rparr>)"

definition peerOf :: "channel \<Rightarrow> string \<Rightarrow> string option" where
  "peerOf c name = (if name = PeerA c then Some (PeerB c)
     else if name = PeerB c then Some (PeerA c) else None)"

definition other :: "channel \<Rightarrow> string \<Rightarrow> string" where
  "other c from = (if from = PeerA c then PeerB c else PeerA c)"

definition with_nl :: "string \<Rightarrow> string" where
  "with_nl body = (if body = [] \<or> last body \<noteq> nl then body @ [nl] else body)"

definition renderChannelMsg :: "message \<Rightarrow> string" where
  "renderChannelMsg m = ''---'' @ [nl] @ ''seq: '' @ itoa (Seq m) @ [nl] @ ''from: '' @ From m @ [nl]
     @ ''ts: '' @ rfc3339 (TS m) @ [nl] @ ''---'' @ [nl, nl] @ with_nl (Body m)"

definition msg_json :: "message \<Rightarrow> json" where
  "msg_json m = JObj [(''seq'', JNum (Seq m)), (''from'', JStr (From m)), (''body'', JStr (Body m)),
     (''ts'', JStr (rfc3339 (TS m)))]"

definition msgResponse :: "message \<Rightarrow> response" where
  "msgResponse m = okResponse (msg_json m)"

definition emptyResponse :: response where
  \<comment> \<open>\<^verbatim>\<open>Data: map[string]any{}\<close>: nothing arrived\<close>
  "emptyResponse = okResponse (JObj [])"

definition not_participant :: "string \<Rightarrow> response" where
  "not_participant from = errorResponse CodeError ''channel_not_participant''
     ''use a registered peer channel'' ''not a participant of this channel'' [(''from'', JStr from)]"

definition channel_path :: "channel \<Rightarrow> int \<Rightarrow> string \<Rightarrow> string" where
  "channel_path c seq from =
     channelDir (PeerA c) (PeerB c) @ ''/'' @ pad06 seq @ ''-'' @ safePathSegment from @ ''.md''"

definition utf8_arrow :: string where
  "utf8_arrow = [CHR 0xE2, CHR 0x86, CHR 0x92]"

definition tell :: "env \<Rightarrow> string \<Rightarrow> channel \<Rightarrow> string \<Rightarrow> string \<Rightarrow> state \<Rightarrow> response \<times> state" where
  \<comment> \<open>\<open>c\<close> is the channel stored under key \<open>k\<close>\<close>
  "tell e k c from body s =
     (case peerOf c from of
        None \<Rightarrow> (not_participant from, s)
      | Some peer \<Rightarrow>
        let c = c\<lparr>c_seq := c_seq c + 1\<rparr>;
            msg = \<lparr>Seq = c_seq c, From = from, TS = now e, Body = body\<rparr>;
            c = c\<lparr>c_log := c_log c @ [msg]\<rparr>;
            s = enqueueWrite (channel_path c (Seq msg) from) (Text (renderChannelMsg msg))
                  (''peer msg '' @ itoa (Seq msg) @ '' '' @ from @ utf8_arrow @ peer) s;
            resp = okResponse (JObj [(''seq'', JNum (Seq msg)), (''peer'', JStr peer)])
        in case map_of (c_waiter c) peer of
             Some ch \<Rightarrow>
               (resp, put_channel k (c\<lparr>c_waiter := AList.delete peer (c_waiter c)\<rparr>)
                        (send ch (PayWait \<lparr>w_msg = Some msg, w_err = [], w_code = 0\<rparr>) s))
           | None \<Rightarrow>
               (case deliverAny peer ''peer'' (other c peer) msg s of
                  (delivered, s) \<Rightarrow>
                  if delivered then (resp, put_channel k c s)
                  else
                    (resp, with_queue (mailboxAppend peer ''peer'' from (Seq msg) from (TS msg) (Body msg))
                      (put_channel k (c\<lparr>c_mailbox :=
                         AList.update peer (get_or [] (c_mailbox c) peer @ [msg]) (c_mailbox c)\<rparr>) s))))"

definition chanRead :: "string \<Rightarrow> channel \<Rightarrow> string \<Rightarrow> int \<Rightarrow> state \<Rightarrow> outcome \<times> state" where
  "chanRead k c from timeout s =
     (case peerOf c from of
        None \<Rightarrow> (Done (not_participant from), s)
      | Some _ \<Rightarrow>
        case get_or [] (c_mailbox c) from of
          msg # q \<Rightarrow>
            (Done (msgResponse msg),
             with_queue (mailboxDeleteOne from ''peer'' (other c from) (Seq msg))
               (put_channel k (c\<lparr>c_mailbox := AList.update from q (c_mailbox c)\<rparr>) s))
        | [] \<Rightarrow>
            if timeout \<le> 0 then (Done emptyResponse, s)
            else let (ch, s) = block (WaitPeer from k) s
                 in (Blocks ch, put_channel k (c\<lparr>c_waiter := AList.update from ch (c_waiter c)\<rparr>) s))"

definition chanRead_recv :: "string \<Rightarrow> waitResult \<Rightarrow> response" where
  \<comment> \<open>the \<^verbatim>\<open>case r := <-ch\<close> arm\<close>
  "chanRead_recv from r =
     (if w_err r \<noteq> [] then
        let (reason, retry) = (if w_code r = CodePeerClosed
               then (''peer_closed'', ''re-register and retry read'') else (''read_failed'', []))
        in errorResponse (w_code r) reason retry (w_err r) [(''from'', JStr from)]
      else (case w_msg r of Some m \<Rightarrow> msgResponse m | None \<Rightarrow> emptyResponse))"

definition chanRead_timeout :: "string \<Rightarrow> channel \<Rightarrow> string \<Rightarrow> state \<Rightarrow> response \<times> state" where
  \<comment> \<open>the \<^verbatim>\<open>time.After\<close> arm: forget the waiter of this name, whichever read put it\<close>
  "chanRead_timeout k c from s =
     (emptyResponse, put_channel k (c\<lparr>c_waiter := AList.delete from (c_waiter c)\<rparr>) s)"

definition chanPeek :: "channel \<Rightarrow> string \<Rightarrow> response" where
  "chanPeek c from =
     (case peerOf c from of
        None \<Rightarrow> not_participant from
      | Some _ \<Rightarrow> okResponse (JObj [(''peer'', JStr (other c from)),
          (''messages'', JArr (map (\<lambda>m. JObj [(''seq'', JNum (Seq m)), (''from'', JStr (From m)),
             (''body'', JStr (Body m)), (''ts'', JStr (rfc3339 (TS m)))])
            (get_or [] (c_mailbox c) from)))]))"

definition releaseWaiter :: "string \<Rightarrow> channel \<Rightarrow> string \<Rightarrow> string \<Rightarrow> state \<Rightarrow> state" where
  "releaseWaiter k c name reason s =
     (case map_of (c_waiter c) name of
        None \<Rightarrow> s
      | Some ch \<Rightarrow> put_channel k (c\<lparr>c_waiter := AList.delete name (c_waiter c)\<rparr>)
          (send ch (PayWait \<lparr>w_msg = None, w_err = reason, w_code = CodePeerClosed\<rparr>) s))"

definition listChannels :: "state \<Rightarrow> string \<Rightarrow> channel list" where
  "listChannels s name = sort_key (\<lambda>c. channelKey (PeerA c) (PeerB c))
     (filter (\<lambda>c. PeerA c = name \<or> PeerB c = name) (map snd (channels s)))"

definition getOrCreateChannel :: "string \<Rightarrow> string \<Rightarrow> state \<Rightarrow> string \<times> channel \<times> state" where
  "getOrCreateChannel from peer s =
     (let key = channelKey from peer
      in case map_of (channels s) key of
           Some c \<Rightarrow> (key, c, s)
         | None \<Rightarrow> let c = newChannel from peer in (key, c, put_channel key c s))"

section \<open>Keys of a pair\<close>

lemma channelKey_sym: "channelKey a b = channelKey b a"
  by (auto simp: channelKey_def)

lemma channelDir_sym: "channelDir a b = channelDir b a"
  by (auto simp: channelDir_def)

lemma split_at_nul:
  assumes "CHR 0x00 \<notin> set a" "CHR 0x00 \<notin> set b" "a @ CHR 0x00 # x = b @ CHR 0x00 # y"
  shows "a = b \<and> x = y"
  using assms by (metis split_list_first_prop_iff append_eq_append_conv2 append_Cons
      in_set_conv_decomp list.inject self_append_conv2 Un_iff set_append list.set_intros(1)
      cut_char option.inject prod.inject)

lemma channelKey_inj:
  assumes "CHR 0x00 \<notin> set a" "CHR 0x00 \<notin> set b" "CHR 0x00 \<notin> set c" "CHR 0x00 \<notin> set d"
    and "channelKey a b = channelKey c d"
  shows "{a, b} = {c, d}"
proof -
  obtain a' b' where ab: "channelKey a b = a' @ CHR 0x00 # b'" "{a', b'} = {a, b}" "CHR 0x00 \<notin> set a'"
    using assms(1,2) unfolding channelKey_def by (cases "b < a") auto
  obtain c' d' where cd: "channelKey c d = c' @ CHR 0x00 # d'" "{c', d'} = {c, d}" "CHR 0x00 \<notin> set c'"
    using assms(3,4) unfolding channelKey_def by (cases "d < c") auto
  have "a' = c' \<and> b' = d'"
    using split_at_nul[of a' c' b' d'] ab cd assms(5) by simp
  then show ?thesis using ab(2) cd(2) by simp
qed

lemma newChannel_peers: "{PeerA (newChannel a b), PeerB (newChannel a b)} = {a, b}"
  by (auto simp: newChannel_def)

lemma newChannel_key: "channelKey (PeerA (newChannel a b)) (PeerB (newChannel a b)) = channelKey a b"
  by (auto simp: newChannel_def channelKey_def)

lemma newChannel_empty [simp]:
  "c_seq (newChannel a b) = 0" "c_log (newChannel a b) = []" "c_mailbox (newChannel a b) = []"
  "c_waiter (newChannel a b) = []"
  by (simp_all add: newChannel_def)

lemma peerOf_other: "peerOf c n = Some p \<Longrightarrow> other c n = p \<and> other c p = n \<and> peerOf c p = Some n"
  by (auto simp: peerOf_def other_def split: if_splits)

lemma peerOf_iff: "(\<exists>p. peerOf c n = Some p) \<longleftrightarrow> n = PeerA c \<or> n = PeerB c"
  by (auto simp: peerOf_def)

section \<open>The channel invariant\<close>

definition is_peer :: "channel \<Rightarrow> string \<Rightarrow> bool" where
  "is_peer c n \<longleftrightarrow> n = PeerA c \<or> n = PeerB c"

definition mbox :: "channel \<Rightarrow> string \<Rightarrow> message list" where
  "mbox c n = get_or [] (c_mailbox c) n"

definition entry_msg :: "message \<Rightarrow> entry" where
  "entry_msg m = (Seq m, From m, rfc3339 (TS m), Body m)"

definition log_ok :: "channel \<Rightarrow> bool" where
  \<comment> \<open>the log is numbered without gaps and ends at the channel's counter\<close>
  "log_ok c \<longleftrightarrow> (\<forall>i < length (c_log c). Seq (c_log c ! i) = c_seq c - int (length (c_log c)) + int i + 1)"

definition box_ok :: "channel \<Rightarrow> string \<Rightarrow> bool" where
  \<comment> \<open>a mailbox is in sending order, holds only the peer's messages, and is empty for outsiders\<close>
  "box_ok c n \<longleftrightarrow> sorted_wrt (<) (map Seq (mbox c n))
     \<and> (\<forall>m \<in> set (mbox c n). Seq m \<le> c_seq c \<and> From m = other c n)
     \<and> (\<not> is_peer c n \<longrightarrow> mbox c n = [])"

definition chan_ok :: "string \<Rightarrow> channel \<Rightarrow> bool" where
  "chan_ok k c \<longleftrightarrow> k = channelKey (PeerA c) (PeerB c) \<and> log_ok c \<and> (\<forall>n. box_ok c n)"

definition peer_key :: "channel \<Rightarrow> string \<Rightarrow> box_key" where
  "peer_key c n = (n, ''peer'', other c n)"

definition chan_mirror :: "state \<Rightarrow> bool" where
  "chan_mirror s \<longleftrightarrow>
     (\<forall>k c n. map_of (channels s) k = Some c \<longrightarrow> is_peer c n \<longrightarrow>
        mirror_at s (peer_key c n) (map entry_msg (mbox c n)))
     \<and> (\<forall>a b. map_of (channels s) (channelKey a b) = None \<longrightarrow> mirror_at s (a, ''peer'', b) [])"

definition chan_inv :: "state \<Rightarrow> bool" where
  "chan_inv s \<longleftrightarrow> keys_ok (channels s) \<and> (\<forall>k c. map_of (channels s) k = Some c \<longrightarrow> chan_ok k c)
     \<and> (live_store s \<longrightarrow> chan_mirror s)"

lemma chan_mirrorD:
  "chan_mirror s \<Longrightarrow> map_of (channels s) k = Some c \<Longrightarrow> is_peer c n \<Longrightarrow>
     mirror_at s (peer_key c n) (map entry_msg (mbox c n))"
  by (simp add: chan_mirror_def)

text \<open>Steps that leave channels and their boxes alone keep the invariant.\<close>

lemma chan_inv_frame:
  assumes "chan_inv s" "channels s' = channels s" "live_store s' \<Longrightarrow> live_store s"
    "\<And>n t. qbox s' (n, ''peer'', t) = qbox s (n, ''peer'', t)"
  shows "chan_inv s'"
  using assms by (auto simp: chan_inv_def chan_mirror_def mirror_at_def peer_key_def)

lemma chan_ok_waiter [simp]: "chan_ok k (c\<lparr>c_waiter := w\<rparr>) = chan_ok k c"
  by (simp add: chan_ok_def log_ok_def box_ok_def mbox_def other_def is_peer_def)

lemma chan_inv_put_waiter:
  assumes "chan_inv s" "map_of (channels s) k = Some c"
  shows "chan_inv (put_channel k (c\<lparr>c_waiter := w\<rparr>) s)"
  using assms by (auto simp: chan_inv_def chan_mirror_def mirror_at_def peer_key_def mbox_def other_def is_peer_def)

lemma chan_inv_prims [simp]:
  "chan_inv (send ch v s) = chan_inv s" "chan_inv (unblock ch s) = chan_inv s"
  "chan_inv (put_room n r s) = chan_inv s" "chan_inv (snd (deliverAny t kd g m s)) = chan_inv s"
  by (simp_all add: chan_inv_def chan_mirror_def mirror_at_def)

lemma chan_inv_enqueueWrite: "chan_inv s \<Longrightarrow> chan_inv (enqueueWrite p c m s)"
  by (rule chan_inv_frame) (auto dest: live_store_enqueueWrite)

lemma chan_inv_with_queue:
  assumes "chan_inv s" "\<And>d n t. box (f d) (n, ''peer'', t) = box d (n, ''peer'', t)"
  shows "chan_inv (with_queue f s)"
  using assms(1)
proof (rule chan_inv_frame)
  show "qbox (with_queue f s) (n, ''peer'', t) = qbox s (n, ''peer'', t)" for n t
    by (auto simp: qbox_def with_queue_def option.map_comp comp_def assms(2) intro!: map_option_cong)
qed simp_all

lemma chan_inv_block: "chan_inv s \<Longrightarrow> chan_inv (snd (block p s))"
  by (rule chan_inv_frame) (auto simp: block_def live_store_def qbox_def)

text \<open>Two channels of the same pair are the same channel.\<close>

lemma peer_key_unique:
  assumes "chan_ok k c" "chan_ok k' c'" "is_peer c n" "is_peer c' n'"
    "peer_key c n = peer_key c' n'"
  shows "k = k' \<and> n = n'"
proof -
  have n: "n' = n" "other c n = other c' n" using assms(5) by (auto simp: peer_key_def)
  have "k = channelKey n (other c n)" if "chan_ok k c" "is_peer c n" for k c
    using that channelKey_sym by (auto simp: chan_ok_def other_def is_peer_def)
  from this[OF assms(1,3)] this[OF assms(2)] assms(4) n show ?thesis by simp
qed

lemma peer_key_channel:
  assumes "chan_ok k c" "is_peer c n" "peer_key c n = (a, ''peer'', b)"
  shows "channelKey a b = k"
  using assms channelKey_sym by (auto simp: chan_ok_def peer_key_def other_def is_peer_def)

text \<open>
  The one lemma about a change of a mailbox: the mailbox of \<open>n\<close> on the channel at \<open>k\<close>
  changes, and the box of the side store with it.
\<close>

lemma chan_inv_mailbox:
  assumes inv: "chan_inv s" and k: "map_of (channels s) k = Some c"
    and c': "chan_ok k c'" "PeerA c' = PeerA c" "PeerB c' = PeerB c"
      "\<And>n'. n' \<noteq> n \<Longrightarrow> mbox c' n' = mbox c n'"
    and ch: "channels s' = AList.update k c' (channels s)" and live: "live_store s' \<Longrightarrow> live_store s"
    and same: "\<And>key. key \<noteq> peer_key c n \<Longrightarrow> qbox s' key = qbox s key"
    and upd: "live_store s' \<Longrightarrow> mirror_at s (peer_key c n) (map entry_msg (mbox c n)) \<Longrightarrow>
        mirror_at s' (peer_key c n) (map entry_msg (mbox c' n))"
    and n: "is_peer c n"
  shows "chan_inv s'"
proof -
  have okc: "chan_ok k c" using inv k by (simp add: chan_inv_def)
  have pk: "peer_key c' x = peer_key c x" for x using c' by (simp add: peer_key_def other_def)
  have "chan_mirror s'" if l: "live_store s'"
  proof -
    have m: "chan_mirror s" using inv live[OF l] by (simp add: chan_inv_def)
    have base: "mirror_at s (peer_key c n) (map entry_msg (mbox c n))"
      using m k n by (auto simp: chan_mirror_def)
    have "mirror_at s' (peer_key x y) (map entry_msg (mbox x y))"
      if x: "map_of (channels s') kk = Some x" and y: "is_peer x y" for kk x y
    proof (cases "kk = k \<and> y = n")
      case True
      with x ch have "x = c'" by simp
      with True upd[OF l base] pk show ?thesis by simp
    next
      case False
      have okx: "chan_ok kk x" using x ch inv c'(1) by (auto simp: chan_inv_def split: if_splits)
      have ne: "peer_key x y \<noteq> peer_key c n"
        using peer_key_unique[OF okx okc y n] False by blast
      obtain x0 where x0: "map_of (channels s) kk = Some x0" "peer_key x0 y = peer_key x y"
        "mbox x0 y = mbox x y" "is_peer x0 y"
        using x ch False k y c' pk by (cases "kk = k") (auto simp: peer_key_def other_def is_peer_def)
      then have "mirror_at s (peer_key x y) (map entry_msg (mbox x y))"
        using m by (metis chan_mirrorD)
      then show ?thesis using same[OF ne] by (simp add: mirror_at_def)
    qed
    moreover have "mirror_at s' (a, ''peer'', b) []" if ab: "map_of (channels s') (channelKey a b) = None" for a b
    proof -
      have nk: "channelKey a b \<noteq> k" and ab0: "map_of (channels s) (channelKey a b) = None"
        using ab ch by (auto split: if_splits)
      have "peer_key c n \<noteq> (a, ''peer'', b)" using peer_key_channel[OF okc n] nk by metis
      then show ?thesis using m ab0 same[of "(a, ''peer'', b)"]
        unfolding chan_mirror_def mirror_at_def by metis
    qed
    ultimately show ?thesis by (auto simp: chan_mirror_def)
  qed
  moreover have "\<forall>kk x. map_of (channels s') kk = Some x \<longrightarrow> chan_ok kk x"
    using inv ch c'(1) by (auto simp: chan_inv_def)
  moreover have "keys_ok (channels s')" using inv ch by (simp add: chan_inv_def)
  ultimately show ?thesis by (simp add: chan_inv_def)
qed

section \<open>Every channel operation keeps it\<close>

lemma mbox_update [simp]:
  "mbox (c\<lparr>c_mailbox := AList.update n q mb\<rparr>) n' = (if n' = n then q else mbox (c\<lparr>c_mailbox := mb\<rparr>) n')"
  "mbox (c\<lparr>c_mailbox := c_mailbox c'\<rparr>) n' = mbox c' n'"
  "mbox (c\<lparr>c_waiter := w\<rparr>) n' = mbox c n'"
  "mbox (c\<lparr>c_seq := i\<rparr>) n' = mbox c n'" "mbox (c\<lparr>c_log := l\<rparr>) n' = mbox c n'"
  by (simp_all add: mbox_def)

lemma peerOf_frame [simp]:
  "peerOf (c\<lparr>c_mailbox := m\<rparr>) = peerOf c" "peerOf (c\<lparr>c_waiter := w\<rparr>) = peerOf c"
  "peerOf (c\<lparr>c_seq := i\<rparr>) = peerOf c" "peerOf (c\<lparr>c_log := l\<rparr>) = peerOf c"
  by (auto simp: peerOf_def)

lemma peer_key_frame [simp]:
  "peer_key (c\<lparr>c_mailbox := m\<rparr>) n = peer_key c n" "peer_key (c\<lparr>c_waiter := w\<rparr>) n = peer_key c n"
  "peer_key (c\<lparr>c_seq := i\<rparr>) n = peer_key c n" "peer_key (c\<lparr>c_log := l\<rparr>) n = peer_key c n"
  by (simp_all add: peer_key_def other_def)

definition logged :: "channel \<Rightarrow> message \<Rightarrow> channel" where
  \<comment> \<open>the channel after \<^verbatim>\<open>c.seq++\<close> and the append to its log\<close>
  "logged c m = c\<lparr>c_seq := c_seq c + 1, c_log := c_log c @ [m]\<rparr>"

lemma logged_sel [simp]:
  "PeerA (logged c m) = PeerA c" "PeerB (logged c m) = PeerB c" "c_mailbox (logged c m) = c_mailbox c"
  "c_waiter (logged c m) = c_waiter c" "c_seq (logged c m) = c_seq c + 1" "mbox (logged c m) = mbox c"
  "peer_key (logged c m) = peer_key c" "other (logged c m) = other c"
  "c_log (logged c m) = c_log c @ [m]"
  by (simp_all add: logged_def mbox_def peer_key_def other_def fun_eq_iff)

lemma chan_ok_logged:
  assumes "chan_ok k c" "Seq m = c_seq c + 1"
  shows "chan_ok k (logged c m)"
proof -
  have "log_ok (logged c m)"
    using assms unfolding chan_ok_def log_ok_def by (auto simp: nth_append less_Suc_eq)
  moreover have "box_ok (logged c m) n" for n
  proof -
    have b: "box_ok c n" using assms(1) by (simp add: chan_ok_def)
    have "x \<in> set (mbox c n) \<Longrightarrow> Seq x \<le> c_seq c + 1" for x
      using b unfolding box_ok_def by force
    with b show ?thesis by (auto simp: box_ok_def is_peer_def)
  qed
  ultimately show ?thesis using assms(1) by (simp add: chan_ok_def)
qed

lemma chan_ok_push:
  assumes "chan_ok k c" "Seq m = c_seq c" "\<forall>x\<in>set (mbox c n). Seq x < Seq m" "From m = other c n"
    "is_peer c n"
  shows "chan_ok k (c\<lparr>c_mailbox := AList.update n (mbox c n @ [m]) (c_mailbox c)\<rparr>)"
proof -
  let ?c = "c\<lparr>c_mailbox := AList.update n (mbox c n @ [m]) (c_mailbox c)\<rparr>"
  have "box_ok ?c x" for x
  proof -
    have "box_ok c x" using assms(1) by (simp add: chan_ok_def)
    then show ?thesis using assms(2-)
      by (auto simp: box_ok_def sorted_wrt_append is_peer_def other_def)
  qed
  with assms(1) show ?thesis by (simp add: chan_ok_def log_ok_def)
qed

lemma chan_ok_pop:
  assumes "chan_ok k c" "mbox c n = m # q"
  shows "chan_ok k (c\<lparr>c_mailbox := AList.update n q (c_mailbox c)\<rparr>)"
proof -
  have "box_ok (c\<lparr>c_mailbox := AList.update n q (c_mailbox c)\<rparr>) x" for x
  proof -
    have "box_ok c x" "box_ok c n" using assms(1) by (simp_all add: chan_ok_def)
    then show ?thesis using assms(2) by (auto simp: box_ok_def is_peer_def other_def)
  qed
  with assms(1) show ?thesis by (simp add: chan_ok_def log_ok_def)
qed

text \<open>\<^verbatim>\<open>tell\<close>, with the message and the updated channel named.\<close>

definition told :: "env \<Rightarrow> channel \<Rightarrow> string \<Rightarrow> string \<Rightarrow> message" where
  "told e c from body = \<lparr>Seq = c_seq c + 1, From = from, TS = now e, Body = body\<rparr>"

definition tell_written :: "env \<Rightarrow> channel \<Rightarrow> string \<Rightarrow> string \<Rightarrow> string \<Rightarrow> state \<Rightarrow> state" where
  "tell_written e c from peer body s =
     enqueueWrite (channel_path c (c_seq c + 1) from) (Text (renderChannelMsg (told e c from body)))
       (''peer msg '' @ itoa (c_seq c + 1) @ '' '' @ from @ utf8_arrow @ peer) s"

lemma tell_eq:
  assumes "peerOf c from = Some peer"
  shows "tell e k c from body s =
    (let m = told e c from body; c' = logged c m; s1 = tell_written e c from peer body s;
         resp = okResponse (JObj [(''seq'', JNum (c_seq c + 1)), (''peer'', JStr peer)])
     in case map_of (c_waiter c) peer of
          Some ch \<Rightarrow> (resp, put_channel k (c'\<lparr>c_waiter := AList.delete peer (c_waiter c)\<rparr>)
                        (send ch (PayWait \<lparr>w_msg = Some m, w_err = [], w_code = 0\<rparr>) s1))
        | None \<Rightarrow> (case map_of (anyWaiter s) peer of
            Some ch \<Rightarrow> (resp, put_channel k c'
                (send ch (PayAny \<lparr>am_kind = ''peer'', am_target = from, am_msg = m\<rparr>)
                  (s1\<lparr>anyWaiter := AList.delete peer (anyWaiter s)\<rparr>)))
          | None \<Rightarrow> (resp, with_queue (mailboxAppend peer ''peer'' from (Seq m) from (TS m) (Body m))
                (put_channel k (c'\<lparr>c_mailbox := AList.update peer (mbox c peer @ [m]) (c_mailbox c)\<rparr>) s1))))"
proof -
  have "other c peer = from" using peerOf_other assms by blast
  moreover have "other (c\<lparr>c_seq := i, c_log := l\<rparr>) peer = other c peer" for i l
    by (simp add: other_def)
  ultimately show ?thesis using assms
    by (simp add: tell_def Let_def told_def logged_def tell_written_def deliverAny_def mbox_def
        channel_path_def split: option.split)
qed

lemma tell_written_frame [simp]:
  "channels (tell_written e c f p b s) = channels s" "qbox (tell_written e c f p b s) = qbox s"
  "anyWaiter (tell_written e c f p b s) = anyWaiter s" "bufs (tell_written e c f p b s) = bufs s"
  by (simp_all add: tell_written_def)

lemma told_sel [simp]: "Seq (told e c f b) = c_seq c + 1" "From (told e c f b) = f" "Body (told e c f b) = b"
    "TS (told e c f b) = now e"
  by (simp_all add: told_def)

lemma tell_keeps:
  assumes inv: "chan_inv s" and k: "map_of (channels s) k = Some c"
  shows "chan_inv (snd (tell e k c from body s))"
proof (cases "peerOf c from")
  case None
  then show ?thesis using inv by (simp add: tell_def)
next
  case (Some peer)
  note pe = peerOf_other[OF Some]
  have ip: "is_peer c peer" using Some by (auto simp: peerOf_def is_peer_def split: if_splits)
  have ok: "chan_ok k c" using inv k by (simp add: chan_inv_def)
  let ?m = "told e c from body" and ?s1 = "tell_written e c from peer body s"
  have okl: "chan_ok k (logged c ?m)" using ok by (rule chan_ok_logged) simp
  have live: "live_store ?s1 \<Longrightarrow> live_store s"
    unfolding tell_written_def by (rule live_store_enqueueWrite)
  have lt: "\<forall>x\<in>set (mbox c peer). Seq x < c_seq c + 1"
    using ok by (fastforce simp: chan_ok_def box_ok_def)
  have okp: "chan_ok k (logged c ?m\<lparr>c_mailbox := AList.update peer (mbox c peer @ [?m]) (c_mailbox c)\<rparr>)"
    using chan_ok_push[OF okl, of ?m peer] lt pe ip by (simp add: is_peer_def)
  show ?thesis
  proof (cases "map_of (c_waiter c) peer")
    case (Some ch)
    show ?thesis unfolding tell_eq[OF \<open>peerOf c from = _\<close>] Let_def
      by (rule chan_inv_mailbox[OF inv k, where n = peer and c' = "logged c ?m\<lparr>c_waiter := AList.delete peer (c_waiter c)\<rparr>"])
        (use Some okl live ip in \<open>simp_all add: mirror_at_def\<close>)
  next
    case None
    show ?thesis
    proof (cases "map_of (anyWaiter s) peer")
      case (Some ch)
      show ?thesis unfolding tell_eq[OF \<open>peerOf c from = _\<close>] Let_def
        by (rule chan_inv_mailbox[OF inv k, where n = peer and c' = "logged c ?m"])
          (use None Some okl live ip in \<open>simp_all add: mirror_at_def\<close>)
    next
      case N2: None
      show ?thesis unfolding tell_eq[OF \<open>peerOf c from = _\<close>] Let_def
        by (rule chan_inv_mailbox[OF inv k, where n = peer and
              c' = "logged c ?m\<lparr>c_mailbox := AList.update peer (mbox c peer @ [?m]) (c_mailbox c)\<rparr>"])
          (use None N2 okp live ip pe in
            \<open>auto simp: mirror_at_def live_store_def qbox_append peer_key_def entry_msg_def mbox_def\<close>)
    qed
  qed
qed

lemma chanRead_keeps:
  assumes inv: "chan_inv s" and k: "map_of (channels s) k = Some c"
  shows "chan_inv (snd (chanRead k c from timeout s))"
proof (cases "peerOf c from")
  case None
  then show ?thesis using inv by (simp add: chanRead_def)
next
  case (Some peer)
  have ip: "is_peer c from" using Some by (auto simp: peerOf_def is_peer_def split: if_splits)
  have ok: "chan_ok k c" using inv k by (simp add: chan_inv_def)
  show ?thesis
  proof (cases "mbox c from")
    case Nil
    then have "get_or [] (c_mailbox c) from = []" by (simp add: mbox_def)
    moreover have "chan_inv (put_channel k (c\<lparr>c_waiter := w\<rparr>) (snd (block p s)))" for w p
      using chan_inv_block[OF inv, of p] k by (intro chan_inv_put_waiter) (auto simp: block_def)
    ultimately show ?thesis using Some inv by (simp add: chanRead_def Let_def split: prod.split) (metis snd_conv)
  next
    case (Cons m q)
    then have g: "get_or [] (c_mailbox c) from = m # q" by (simp add: mbox_def)
    have "sorted_wrt (<) (map Seq (m # q))" using ok Cons by (metis chan_ok_def box_ok_def)
    then have "filter (\<lambda>e. fst e \<noteq> Seq m) (map entry_msg q) = map entry_msg q"
      by (auto simp: filter_id_conv entry_msg_def)
    then have upd: "mirror_at s (peer_key c from) (map entry_msg (m # q)) \<Longrightarrow> live_store s \<Longrightarrow>
        mirror_at (with_queue (mailboxDeleteOne from ''peer'' (other c from) (Seq m)) s) (peer_key c from)
          (map entry_msg q)"
      by (auto simp: mirror_at_def qbox_deleteOne peer_key_def live_store_def entry_msg_def)
    have "chan_inv (with_queue (mailboxDeleteOne from ''peer'' (other c from) (Seq m))
               (put_channel k (c\<lparr>c_mailbox := AList.update from q (c_mailbox c)\<rparr>) s))"
      by (rule chan_inv_mailbox[OF inv k, where n = "from" and
            c' = "c\<lparr>c_mailbox := AList.update from q (c_mailbox c)\<rparr>"])
        (use chan_ok_pop[OF ok Cons] Cons ip upd in
          \<open>auto simp: qbox_deleteOne peer_key_def mirror_at_def\<close>)
    then show ?thesis using Some g by (simp add: chanRead_def)
  qed
qed

lemma chanRead_timeout_keeps:
  "chan_inv s \<Longrightarrow> map_of (channels s) k = Some c \<Longrightarrow> chan_inv (snd (chanRead_timeout k c from s))"
  by (simp add: chanRead_timeout_def chan_inv_put_waiter)

lemma releaseWaiter_keeps:
  "chan_inv s \<Longrightarrow> map_of (channels s) k = Some c \<Longrightarrow> chan_inv (releaseWaiter k c name reason s)"
  by (auto simp: releaseWaiter_def chan_inv_put_waiter split: option.split)

lemma chan_ok_new: "chan_ok (channelKey a b) (newChannel a b)"
  by (auto simp: chan_ok_def newChannel_key log_ok_def box_ok_def mbox_def)

lemma getOrCreate_found:
  "getOrCreateChannel from peer s = (k, c, s') \<Longrightarrow> k = channelKey from peer \<and> map_of (channels s') k = Some c"
  by (auto simp: getOrCreateChannel_def Let_def split: option.splits)

lemma getOrCreate_keeps:
  assumes "chan_inv s" "getOrCreateChannel from peer s = (k, c, s')"
  shows "chan_inv s'"
proof (cases "map_of (channels s) (channelKey from peer)")
  case (Some c0)
  then show ?thesis using assms by (simp add: getOrCreateChannel_def)
next
  case None
  then have s': "s' = put_channel (channelKey from peer) (newChannel from peer) s"
    using assms by (auto simp: getOrCreateChannel_def Let_def)
  have new: "map_of (channels s) (channelKey a (other (newChannel from peer) a)) = None"
    if "is_peer (newChannel from peer) a" for a
    using that None newChannel_key[of "from" peer] channelKey_sym
    by (metis is_peer_def other_def)
  show ?thesis unfolding chan_inv_def
  proof (intro conjI allI impI)
    show "chan_ok kk x" if "map_of (channels s') kk = Some x" for kk x
      using that assms(1) chan_ok_new by (auto simp: s' chan_inv_def split: if_splits)
  next
    assume "live_store s'"
    then have m: "chan_mirror s" using assms(1) by (simp add: s' chan_inv_def)
    show "chan_mirror s'" unfolding chan_mirror_def
    proof (intro conjI allI impI)
      fix kk x n assume x: "map_of (channels s') kk = Some x" "is_peer x n"
      show "mirror_at s' (peer_key x n) (map entry_msg (mbox x n))"
      proof (cases "kk = channelKey from peer")
        case True
        with x have "x = newChannel from peer" by (simp add: s')
        with x(2) new have "mirror_at s (peer_key x n) []"
          using m unfolding chan_mirror_def peer_key_def by blast
        then show ?thesis using \<open>x = _\<close> by (simp add: mirror_at_def s' mbox_def)
      next
        case False
        then show ?thesis using x m by (auto simp: s' mirror_at_def dest: chan_mirrorD)
      qed
    next
      fix a b assume "map_of (channels s') (channelKey a b) = None"
      then show "mirror_at s' (a, ''peer'', b) []"
        using m by (auto simp: s' chan_mirror_def mirror_at_def split: if_splits)
    qed
  qed (use assms(1) in \<open>simp add: s' chan_inv_def\<close>)
qed

section \<open>Delivery and order\<close>

text \<open>A tell by a participant answers with the next number of the channel and hands the message to
  exactly one place: the reader blocked on the channel if there is one (whose registration is
  consumed), else the receiver's blocked read-any, else the end of its mailbox. In the first two
  cases the mailbox and its durable copy stay as they were.\<close>

theorem tell_delivers_once:
  assumes "peerOf c from = Some peer" and "tell e k c from body s = (resp, s')"
  shows "resp = okResponse (JObj [(''seq'', JNum (c_seq c + 1)), (''peer'', JStr peer)])
    \<and> (\<exists>c'. map_of (channels s') k = Some c' \<and> c_seq c' = c_seq c + 1
        \<and> c_log c' = c_log c @ [told e c from body]
        \<and> (case map_of (c_waiter c) peer of
             Some ch \<Rightarrow> bufs s' = (bufs s)(ch := bufs s ch @
                 [PayWait \<lparr>w_msg = Some (told e c from body), w_err = [], w_code = 0\<rparr>])
               \<and> map_of (c_waiter c') peer = None \<and> mbox c' = mbox c \<and> qbox s' = qbox s
           | None \<Rightarrow> (case map_of (anyWaiter s) peer of
               Some ch \<Rightarrow> bufs s' = (bufs s)(ch := bufs s ch @
                   [PayAny \<lparr>am_kind = ''peer'', am_target = from, am_msg = told e c from body\<rparr>])
                 \<and> map_of (anyWaiter s') peer = None \<and> mbox c' = mbox c \<and> qbox s' = qbox s
             | None \<Rightarrow> bufs s' = bufs s \<and> mbox c' = (mbox c)(peer := mbox c peer @ [told e c from body]))))"
  using assms(2) unfolding tell_eq[OF assms(1)] Let_def
  by (auto split: option.splits simp: fun_eq_iff)

fun tell_all :: "env \<Rightarrow> string \<Rightarrow> string \<Rightarrow> string list \<Rightarrow> state \<Rightarrow> state" where
  "tell_all e k from [] s = s"
| "tell_all e k from (b # bs) s = (case map_of (channels s) k of None \<Rightarrow> s
     | Some c \<Rightarrow> tell_all e k from bs (snd (tell e k c from b s)))"

fun read_all :: "string \<Rightarrow> string \<Rightarrow> nat \<Rightarrow> state \<Rightarrow> outcome list" where
  "read_all k who 0 s = []"
| "read_all k who (Suc n) s = (case map_of (channels s) k of None \<Rightarrow> []
     | Some c \<Rightarrow> (case chanRead k c who 0 s of (r, s') \<Rightarrow> r # read_all k who n s'))"

fun told_all :: "env \<Rightarrow> int \<Rightarrow> string \<Rightarrow> string list \<Rightarrow> message list" where
  "told_all e n from [] = []"
| "told_all e n from (b # bs) = \<lparr>Seq = n + 1, From = from, TS = now e, Body = b\<rparr> # told_all e (n + 1) from bs"

lemma length_told_all [simp]: "length (told_all e n f bs) = length bs"
  by (induction bs arbitrary: n) auto

lemma tell_all_mailbox:
  assumes "map_of (channels s) k = Some c" "peerOf c from = Some peer"
    "map_of (c_waiter c) peer = None" "map_of (anyWaiter s) peer = None"
  shows "\<exists>c'. map_of (channels (tell_all e k from bodies s)) k = Some c' \<and>
    mbox c' peer = mbox c peer @ told_all e (c_seq c) from bodies \<and> peerOf c' = peerOf c"
  using assms
proof (induction bodies arbitrary: s c)
  case (Cons b bs)
  define m where "m = told e c from b"
  define c1 where "c1 = logged c m\<lparr>c_mailbox := AList.update peer (mbox c peer @ [m]) (c_mailbox c)\<rparr>"
  define s1 where "s1 = snd (tell e k c from b s)"
  have s: "map_of (channels s1) k = Some c1" "map_of (anyWaiter s1) peer = None"
    unfolding tell_eq[OF Cons.prems(2)] Let_def s1_def c1_def m_def using Cons.prems by simp_all
  have p: "peerOf c1 = peerOf c" by (simp add: peerOf_def fun_eq_iff c1_def)
  have c1: "mbox c1 peer = mbox c peer @ [m]" "c_seq c1 = c_seq c + 1" "map_of (c_waiter c1) peer = None"
    using Cons.prems(3) by (simp_all add: mbox_def c1_def)
  have p1: "peerOf c1 from = Some peer" using p Cons.prems(2) by simp
  from Cons.IH[OF s(1) p1 c1(3) s(2)] obtain c' where
    "map_of (channels (tell_all e k from bs s1)) k = Some c'"
    "mbox c' peer = (mbox c peer @ [m]) @ told_all e (c_seq c + 1) from bs" "peerOf c' = peerOf c"
    by (auto simp: c1 p)
  then show ?case
    using Cons.prems(1) by (auto simp: s1_def m_def told_def)
qed auto

lemma read_all_mailbox:
  assumes "map_of (channels s) k = Some c" "peerOf c who = Some p" "n = length (mbox c who)"
  shows "read_all k who n s = map (\<lambda>m. Done (msgResponse m)) (mbox c who)"
  using assms
proof (induction n arbitrary: s c)
  case (Suc n)
  then obtain m q where q: "mbox c who = m # q" by (cases "mbox c who") auto
  then have g: "get_or [] (c_mailbox c) who = m # q" by (simp add: mbox_def)
  let ?c = "c\<lparr>c_mailbox := AList.update who q (c_mailbox c)\<rparr>"
  let ?s = "with_queue (mailboxDeleteOne who ''peer'' (other c who) (Seq m)) (put_channel k ?c s)"
  have r: "chanRead k c who 0 s = (Done (msgResponse m), ?s)"
    using Suc.prems g by (simp add: chanRead_def)
  have "read_all k who n ?s = map (\<lambda>m. Done (msgResponse m)) q"
    using Suc.IH[of ?s ?c] Suc.prems q by simp
  then show ?case using Suc.prems r q by simp
qed simp

text \<open>What one peer tells, the other reads back: with nobody blocked and nothing pending, reading
  as many times as were told answers with every body, each once, in the order and under the numbers
  in which they were sent.\<close>

theorem tell_read_fifo:
  assumes "map_of (channels s) k = Some c" "peerOf c from = Some peer"
    "map_of (c_waiter c) peer = None" "map_of (anyWaiter s) peer = None" "mbox c peer = []"
  shows "read_all k peer (length bodies) (tell_all e k from bodies s) =
    map (\<lambda>m. Done (msgResponse m)) (told_all e (c_seq c) from bodies)"
proof -
  obtain c' where c': "map_of (channels (tell_all e k from bodies s)) k = Some c'"
    "mbox c' peer = told_all e (c_seq c) from bodies" "peerOf c' = peerOf c"
    using tell_all_mailbox[OF assms(1-4), of e bodies] assms(5) by auto
  show ?thesis
    using read_all_mailbox[OF c'(1), of peer "from" "length bodies"] c' peerOf_other[OF assms(2)] by simp
qed

text \<open>The two names of a pair give one channel whatever their order, and two different pairs of
  names without a NUL byte never share a key.\<close>

theorem channelKey_canonical:
  assumes "\<forall>n \<in> {a, b, c, d}. CHR 0x00 \<notin> set n"
  shows "channelKey a b = channelKey c d \<longleftrightarrow> {a, b} = {c, d}"
proof
  assume "channelKey a b = channelKey c d"
  then show "{a, b} = {c, d}" using assms channelKey_inj by blast
next
  assume "{a, b} = {c, d}"
  then show "channelKey a b = channelKey c d" by (auto simp: doubleton_eq_iff channelKey_sym)
qed

end
