(* ===== verification/Rooms.thy ===== *)
theory Rooms
  imports Channels
begin

text \<open>
  Rooms (\<^verbatim>\<open>room.go\<close>): membership, posting with bounded mailboxes and drop-oldest
  overflow, draining reads, the transcript file format and its parser. Handlers take the
  outside world, the request and the state, and return the response with the new state; a
  read returns an \<open>outcome\<close>, since it may block.
\<close>

section \<open>Definitions\<close>

definition roomMaxMembers :: nat where "roomMaxMembers = 8"
definition roomMailboxLimit :: nat where "roomMailboxLimit = 64"

definition newRoom :: "env \<Rightarrow> string \<Rightarrow> string \<Rightarrow> string \<Rightarrow> room" where
  "newRoom e name desc createdBy =
     \<lparr>r_Name = name, r_Desc = desc, r_CreatedBy = createdBy, r_CreatedAt = now e, r_Archived = False,
      r_seq = 0, r_log = [], r_members = [createdBy], r_mailbox = [], r_dropped = [], r_waiter = []\<rparr>"

definition room_char :: "char \<Rightarrow> bool" where
  "room_char c \<longleftrightarrow> (CHR ''a'' \<le> c \<and> c \<le> CHR ''z'') \<or> (CHR ''A'' \<le> c \<and> c \<le> CHR ''Z'')
     \<or> (CHR ''0'' \<le> c \<and> c \<le> CHR ''9'') \<or> c = CHR ''-'' \<or> c = CHR ''_'' \<or> c = CHR ''.''"

definition validRoomName :: "string \<Rightarrow> bool" where
  "validRoomName name \<longleftrightarrow> \<not> (name = [] \<or> length name > 64) \<and> list_all room_char name"

definition room_json :: "room \<Rightarrow> json" where
  "room_json r = JObj [(''name'', JStr (r_Name r)), (''desc'', JStr (r_Desc r)),
     (''members'', JNum (int (length (r_members r)))), (''messages'', JNum (r_seq r)),
     (''archived'', JBool (r_Archived r)), (''created_by'', JStr (r_CreatedBy r)),
     (''created_at'', JStr (rfc3339 (r_CreatedAt r)))]"

definition opRooms :: "request \<Rightarrow> state \<Rightarrow> response" where
  "opRooms req s =
     (if strVal (Args req) ''from'' = [] then missing_from
      else okResponse (JArr (map room_json (sort_key r_Name (map snd (rooms s))))))"

definition persistRoomDefinition :: "room \<Rightarrow> state \<Rightarrow> state" where
  "persistRoomDefinition r s = enqueueWrite (''rooms/'' @ r_Name r @ ''/ROOM.md'')
     (Text (''# room '' @ r_Name r @ [nl, nl] @ ''created_by: '' @ r_CreatedBy r @ [nl] @
            ''created_at: '' @ rfc3339 (r_CreatedAt r) @ [nl] @ ''desc: '' @ trimSpace (r_Desc r) @ [nl]))
     (''room create: '' @ r_Name r @ '' (by '' @ r_CreatedBy r @ '')'') s"

definition members_text :: "string \<Rightarrow> string list \<Rightarrow> string" where
  "members_text name names = joinWith [nl]
     ([''# room '' @ name @ '' members'', [], ''count: '' @ itoa (int (length names)), []]
      @ map (\<lambda>m. ''- '' @ m) names @ [[]])"

definition persistRoomMembers :: "room \<Rightarrow> state \<Rightarrow> state" where
  "persistRoomMembers r s = enqueueWrite (''rooms/'' @ r_Name r @ ''/MEMBERS.md'')
     (Text (members_text (r_Name r) (sort (r_members r)))) (''room members: '' @ r_Name r) s"

definition opRoomCreate :: "env \<Rightarrow> request \<Rightarrow> state \<Rightarrow> response \<times> state" where
  "opRoomCreate e req s =
     (let from = strVal (Args req) ''from''; name = strVal (Args req) ''name'';
          desc = strVal (Args req) ''desc''
      in if from = [] then (missing_from, s)
         else if \<not> validRoomName name then
           (errorResponse CodeError ''invalid_room_name'' ''use [A-Za-z0-9._-], max 64 chars''
              ''invalid room name (use [A-Za-z0-9._-], max 64 chars)'' [(''room'', JStr name)], s)
         else case map_of (rooms s) name of
           Some _ \<Rightarrow> (errorResponse CodeError ''room_already_exists'' ''pick a different room name''
              (''room already exists: '' @ name) [(''room'', JStr name)], s)
         | None \<Rightarrow>
             let r = newRoom e name desc from;
                 s = put_room name r s;
                 s = with_queue (roomUpsert name desc from (r_CreatedAt r)) s;
                 s = with_queue (roomAddMember name from) s;
                 s = persistRoomDefinition r s;
                 s = persistRoomMembers r s
             in (okResponse (JObj [(''name'', JStr name), (''desc'', JStr desc), (''created_by'', JStr from)]), s))"

definition from_room_required :: "string \<Rightarrow> string \<Rightarrow> response" where
  "from_room_required from room = missing_params ''provide both from and room'' ''from and room required''
     [(''from'', JStr from), (''room'', JStr room)]"

definition room_member_json :: "string \<Rightarrow> string \<Rightarrow> json" where
  "room_member_json room from = JObj [(''room'', JStr room), (''member'', JStr from)]"

definition opJoin :: "request \<Rightarrow> state \<Rightarrow> response \<times> state" where
  "opJoin req s =
     (let from = strVal (Args req) ''from''; room = strVal (Args req) ''room''
      in if from = [] \<or> room = [] then (from_room_required from room, s)
         else case map_of (rooms s) room of
           None \<Rightarrow> (no_such_room room, s)
         | Some r \<Rightarrow>
             if from \<in> set (r_members r) then (okResponse (room_member_json room from), s)
             else if roomMaxMembers \<le> length (r_members r) then
               (room_not_found ''room may be full or inaccessible'' room [(''room'', JStr room)], s)
             else
               let r = r\<lparr>r_members := add_member from (r_members r)\<rparr>;
                   s = put_room room r s;
                   s = with_queue (roomAddMember room from) s;
                   s = persistRoomMembers r s
               in (okResponse (room_member_json room from), s))"

definition forget_member :: "string \<Rightarrow> room \<Rightarrow> room" where
  \<comment> \<open>the four \<^verbatim>\<open>delete\<close> calls of \<^verbatim>\<open>opLeave\<close> and \<^verbatim>\<open>removeMembers\<close>\<close>
  "forget_member n r = r\<lparr>r_members := del_member n (r_members r), r_mailbox := AList.delete n (r_mailbox r),
     r_dropped := AList.delete n (r_dropped r), r_waiter := AList.delete n (r_waiter r)\<rparr>"

definition opLeave :: "request \<Rightarrow> state \<Rightarrow> response \<times> state" where
  "opLeave req s =
     (let from = strVal (Args req) ''from''; room = strVal (Args req) ''room''
      in if from = [] \<or> room = [] then (from_room_required from room, s)
         else case map_of (rooms s) room of
           None \<Rightarrow> (no_such_room room, s)
         | Some r \<Rightarrow>
             if from \<notin> set (r_members r) then (not_in_room ''join the room before leaving'' from room, s)
             else
               let r = forget_member from r;
                   s = put_room room r s;
                   s = with_queue (roomRemoveMember room from) s;
                   s = persistRoomMembers r s
               in (okResponse (room_member_json room from), s))"

definition rbox :: "room \<Rightarrow> string \<Rightarrow> roomMessage list" where
  "rbox r n = get_or [] (r_mailbox r) n"

definition drops :: "room \<Rightarrow> string \<Rightarrow> int" where
  "drops r n = get_or 0 (r_dropped r) n"

definition opParticipants :: "request \<Rightarrow> state \<Rightarrow> response" where
  "opParticipants req s =
     (let from = strVal (Args req) ''from''; room = strVal (Args req) ''room''
      in if from = [] \<or> room = [] then from_room_required from room
         else case map_of (rooms s) room of
           None \<Rightarrow> no_such_room room
         | Some r \<Rightarrow>
             if from \<notin> set (r_members r) then not_in_room ''join the room before listing participants'' from room
             else okResponse (JObj [(''room'', JStr room), (''members'', JArr (map (\<lambda>n.
                 JObj [(''name'', JStr n), (''pending'', JNum (int (length (rbox r n)))),
                       (''dropped'', JNum (drops r n))]) (sort (r_members r))))]))"

definition toPeerMsg :: "roomMessage \<Rightarrow> message" where
  "toPeerMsg m = \<lparr>Seq = rm_Seq m, From = rm_From m, TS = rm_TS m, Body = rm_Body m\<rparr>"

text \<open>
  One iteration of the delivery loop. \<open>opPost\<close> and \<open>internalPost\<close> run the same loop;
  only \<open>opPost\<close> has the \<^verbatim>\<open>s.queue\<close> blocks (\<open>persist\<close>).
\<close>

definition deliver_member :: "bool \<Rightarrow> roomMessage \<Rightarrow> string \<Rightarrow> room \<times> state \<Rightarrow> room \<times> state" where
  "deliver_member persist msg member rs =
     (case rs of (r, s) \<Rightarrow>
      if member = rm_From msg then (r, s)
      else case map_of (r_waiter r) member of
        Some ch \<Rightarrow> (r\<lparr>r_waiter := AList.delete member (r_waiter r)\<rparr>, send ch (PayRoom msg) s)
      | None \<Rightarrow>
         (case deliverAny member ''room'' (r_Name r) (toPeerMsg msg) s of
            (delivered, s) \<Rightarrow>
            if delivered then (r, s)
            else
              let q = rbox r member;
                  (q, r, s) =
                    (if roomMailboxLimit \<le> length q
                     then (tl q, r\<lparr>r_dropped := AList.update member (drops r member + 1) (r_dropped r)\<rparr>,
                           if persist then with_queue (mailboxDropOldest member ''room'' (r_Name r) (rm_Seq (hd q))) s
                           else s)
                     else (q, r, s));
                  q = q @ [msg]
              in (r\<lparr>r_mailbox := AList.update member q (r_mailbox r)\<rparr>,
                  if persist then with_queue (mailboxAppend member ''room'' (r_Name r) (rm_Seq msg)
                     (rm_From msg) (rm_TS msg) (rm_Body msg)) s else s)))"

definition deliver_room :: "bool \<Rightarrow> roomMessage \<Rightarrow> room \<Rightarrow> state \<Rightarrow> room \<times> state" where
  "deliver_room persist msg r s = fold (deliver_member persist msg) (r_members r) (r, s)"

definition renderRoomMsg :: "roomMessage \<Rightarrow> string" where
  "renderRoomMsg m = ''---'' @ [nl] @ ''seq: '' @ itoa (rm_Seq m) @ [nl] @ ''from: '' @ rm_From m @ [nl]
     @ ''room: '' @ rm_Room m @ [nl] @ ''ts: '' @ rfc3339 (rm_TS m) @ [nl] @ ''---'' @ [nl, nl]
     @ with_nl (rm_Body m)"

definition room_msg_path :: "string \<Rightarrow> int \<Rightarrow> string \<Rightarrow> string" where
  "room_msg_path room seq from =
     ''rooms/'' @ room @ ''/'' @ pad06 seq @ ''-'' @ safePathSegment from @ ''.md''"

definition posted :: "env \<Rightarrow> room \<Rightarrow> string \<Rightarrow> string \<Rightarrow> roomMessage" where
  "posted e r from body = \<lparr>rm_Seq = r_seq r + 1, rm_Room = r_Name r, rm_From = from, rm_TS = now e,
     rm_Body = body\<rparr>"

definition room_logged :: "room \<Rightarrow> roomMessage \<Rightarrow> room" where
  "room_logged r m = r\<lparr>r_seq := r_seq r + 1, r_log := r_log r @ [m]\<rparr>"

definition room_write :: "string \<Rightarrow> roomMessage \<Rightarrow> state \<Rightarrow> state" where
  \<comment> \<open>the \<^verbatim>\<open>enqueueWrite\<close> of a post\<close>
  "room_write room msg s = enqueueWrite (room_msg_path room (rm_Seq msg) (rm_From msg)) (Text (renderRoomMsg msg))
     (''room msg '' @ itoa (rm_Seq msg) @ '' in '' @ room @ '' from '' @ rm_From msg) s"

definition opPost :: "env \<Rightarrow> request \<Rightarrow> state \<Rightarrow> response \<times> state" where
  "opPost e req s =
     (let from = strVal (Args req) ''from''; room = strVal (Args req) ''room'';
          body = strVal (Args req) ''body''
      in if from = [] \<or> room = [] then (from_room_required from room, s)
         else case map_of (rooms s) room of
           None \<Rightarrow> (no_such_room room, s)
         | Some r \<Rightarrow>
             if r_Archived r then
               (errorResponse CodeError ''room_archived'' ''this room is archived; no new posts allowed''
                  (''room archived: '' @ room) [(''room'', JStr room)], s)
             else if from \<notin> set (r_members r) then
               (not_in_room ''join the room before posting'' from room, s)
             else
               let msg = posted e r from body;
                   (r, s) = deliver_room True msg (room_logged r msg) s;
                   s = put_room room r s;
                   s = room_write room msg s
               in (okResponse (JObj [(''room'', JStr room), (''seq'', JNum (rm_Seq msg))]), s))"

definition room_msg_json :: "roomMessage \<Rightarrow> json" where
  "room_msg_json m = JObj [(''type'', JStr ''message''), (''seq'', JNum (rm_Seq m)), (''room'', JStr (rm_Room m)),
     (''from'', JStr (rm_From m)), (''ts'', JStr (rfc3339 (rm_TS m))), (''body'', JStr (rm_Body m))]"

definition notice_json :: "env \<Rightarrow> string \<Rightarrow> int \<Rightarrow> json" where
  "notice_json e room dropped = JObj [(''seq'', JNum 0), (''type'', JStr ''notice''), (''room'', JStr room),
     (''from'', JStr ''system''), (''ts'', JStr (rfc3339 (now e))),
     (''body'', JStr (''you are behind, '' @ itoa dropped @ '' dropped'')),
     (''notice'', JBool True), (''dropped'', JNum dropped)]"

definition roomDrainResponse :: "env \<Rightarrow> string \<Rightarrow> roomMessage list \<Rightarrow> int \<Rightarrow> response" where
  "roomDrainResponse e room msgs dropped = okResponse (JObj [(''room'', JStr room), (''messages'', JArr
     ((if dropped > 0 then [notice_json e room dropped] else []) @ map room_msg_json msgs))])"

definition room_empty :: "string \<Rightarrow> response" where
  "room_empty room = okResponse (JObj [(''room'', JStr room), (''messages'', JArr [])])"

definition drain_box :: "string \<Rightarrow> room \<Rightarrow> room" where
  "drain_box from r = r\<lparr>r_mailbox := AList.update from [] (r_mailbox r),
     r_dropped := AList.update from 0 (r_dropped r)\<rparr>"

definition roomRead :: "env \<Rightarrow> string \<Rightarrow> string \<Rightarrow> int \<Rightarrow> state \<Rightarrow> outcome \<times> state" where
  "roomRead e from room timeout s =
     (case map_of (rooms s) room of
        None \<Rightarrow> (Done (no_such_room room), s)
      | Some r \<Rightarrow>
          if from \<notin> set (r_members r) then (Done (not_in_room ''join the room before reading'' from room), s)
          else if rbox r from \<noteq> [] then
            (Done (roomDrainResponse e room (rbox r from) (drops r from)),
             with_queue (mailboxConsumeAll from ''room'' room) (put_room room (drain_box from r) s))
          else if timeout \<le> 0 then (Done (room_empty room), s)
          else case map_of (r_waiter r) from of
            Some _ \<Rightarrow> (Done (errorResponse CodeError ''room_read_already_pending''
               ''wait for the existing read call to finish''
               (''another read already pending for '' @ from @ '' on room '' @ room)
               [(''from'', JStr from), (''room'', JStr room)]), s)
          | None \<Rightarrow> let (ch, s) = block (WaitRoom from room) s
               in (Blocks ch, put_room room (r\<lparr>r_waiter := AList.update from ch (r_waiter r)\<rparr>) s))"

definition roomRead_recv :: "env \<Rightarrow> string \<Rightarrow> string \<Rightarrow> room \<Rightarrow> roomMessage \<Rightarrow> state \<Rightarrow> response \<times> state" where
  \<comment> \<open>the \<^verbatim>\<open>case first := <-ch\<close> arm, on the room as it is then\<close>
  "roomRead_recv e from room r first s =
     (roomDrainResponse e room (first # rbox r from) (drops r from),
      with_queue (mailboxConsumeAll from ''room'' room) (put_room room (drain_box from r) s))"

definition roomRead_timeout :: "string \<Rightarrow> string \<Rightarrow> room \<Rightarrow> state \<Rightarrow> response \<times> state" where
  "roomRead_timeout from room r s =
     (room_empty room, put_room room (r\<lparr>r_waiter := AList.delete from (r_waiter r)\<rparr>) s)"

definition roomPeek :: "string \<Rightarrow> string \<Rightarrow> state \<Rightarrow> response" where
  "roomPeek from room s =
     (case map_of (rooms s) room of
        None \<Rightarrow> no_such_room room
      | Some r \<Rightarrow>
          if from \<notin> set (r_members r) then not_in_room ''join the room before peeking'' from room
          else okResponse (JObj [(''room'', JStr room), (''messages'', JArr (map room_msg_json (rbox r from))),
                 (''dropped'', JNum (drops r from))]))"

definition last_n :: "int \<Rightarrow> 'a list \<Rightarrow> 'a list" where
  \<comment> \<open>\<^verbatim>\<open>if limit > 0 && len(out) > limit { out = out[len(out)-limit:] }\<close>\<close>
  "last_n limit out = (if limit > 0 \<and> int (length out) > limit
     then drop (length out - nat limit) out else out)"

definition roomHistory :: "string \<Rightarrow> string \<Rightarrow> int \<Rightarrow> int \<Rightarrow> state \<Rightarrow> response" where
  "roomHistory from room since limit s =
     (case map_of (rooms s) room of
        None \<Rightarrow> no_such_room room
      | Some r \<Rightarrow>
          if from \<notin> set (r_members r) then not_in_room ''join the room before reading history'' from room
          else okResponse (JObj [(''room'', JStr room), (''messages'', JArr (last_n limit (map (\<lambda>m.
               JObj [(''seq'', JNum (rm_Seq m)), (''from'', JStr (rm_From m)),
                     (''ts'', JStr (rfc3339 (rm_TS m))), (''body'', JStr (rm_Body m))])
             (filter (\<lambda>m. \<not> (since > 0 \<and> rm_Seq m \<le> since)) (r_log r)))))]))"

fun removeMembers :: "string list \<Rightarrow> room \<Rightarrow> bool \<times> room" where
  \<comment> \<open>returns whether anything changed\<close>
  "removeMembers [] r = (False, r)"
| "removeMembers (n # ns) r =
     (if n \<in> set (r_members r) then (True, snd (removeMembers ns (forget_member n r)))
      else removeMembers ns r)"

section \<open>Transcript files\<close>

datatype parseError = NoFrontmatter | NotClosed | BadSeq | BadTS | Incomplete

fun parse_header :: "string list \<Rightarrow> roomMessage \<Rightarrow> parseError + roomMessage" where
  "parse_header [] m = Inr m"
| "parse_header (line # lines) m =
     (case cut line '': '' of
        None \<Rightarrow> parse_header lines m
      | Some (k, v) \<Rightarrow>
          if k = ''seq'' then (case atoi v of None \<Rightarrow> Inl BadSeq
             | Some n \<Rightarrow> parse_header lines (m\<lparr>rm_Seq := n\<rparr>))
          else if k = ''from'' then parse_header lines (m\<lparr>rm_From := v\<rparr>)
          else if k = ''room'' then parse_header lines (m\<lparr>rm_Room := v\<rparr>)
          else if k = ''ts'' then (case parseRFC3339 v of None \<Rightarrow> Inl BadTS
             | Some t \<Rightarrow> parse_header lines (m\<lparr>rm_TS := t\<rparr>))
          else parse_header lines m)"

definition zero_roomMessage :: roomMessage where
  "zero_roomMessage = \<lparr>rm_Seq = 0, rm_Room = [], rm_From = [], rm_TS = zero_time, rm_Body = []\<rparr>"

definition fence :: string where
  \<comment> \<open>newline, three dashes, newline\<close>
  "fence = [nl] @ ''---'' @ [nl]"

definition parseRoomMsgFile :: "string \<Rightarrow> parseError + roomMessage" where
  "parseRoomMsgFile s =
     (if \<not> hasPrefix s (''---'' @ [nl]) then Inl NoFrontmatter
      else let rest = drop 4 s
        in case strIndex rest fence of
             None \<Rightarrow> Inl NotClosed
           | Some end \<Rightarrow>
               let header = take end rest;
                   body = trimRight (trimPrefix (drop (end + 5) rest) [nl]) nl
               in case parse_header (splitOn nl header) zero_roomMessage of
                    Inl err \<Rightarrow> Inl err
                  | Inr msg \<Rightarrow>
                      if rm_Seq msg = 0 \<or> rm_From msg = [] \<or> rm_Room msg = [] then Inl Incomplete
                      else Inr (msg\<lparr>rm_Body := body\<rparr>))"

section \<open>The room invariant\<close>

definition rbox_ok :: "room \<Rightarrow> string \<Rightarrow> bool" where
  \<comment> \<open>in posting order, never the receiver's own\<close>
  "rbox_ok r n \<longleftrightarrow> sorted_wrt (<) (map rm_Seq (rbox r n))
     \<and> (\<forall>m \<in> set (rbox r n). rm_Seq m \<le> r_seq r \<and> rm_From m \<noteq> n \<and> rm_Room m = r_Name r)"

definition room_ok :: "string \<Rightarrow> room \<Rightarrow> bool" where
  "room_ok n r \<longleftrightarrow> r_Name r = n \<and> distinct (r_members r)
     \<and> sorted_wrt (<) (map rm_Seq (r_log r)) \<and> (\<forall>m \<in> set (r_log r). rm_Seq m \<le> r_seq r)
     \<and> (\<forall>x. rbox_ok r x)"

definition boxes_bounded :: "room \<Rightarrow> bool" where
  "boxes_bounded r \<longleftrightarrow> (\<forall>n. length (rbox r n) \<le> roomMailboxLimit \<and> 0 \<le> drops r n)"

definition rooms_inv :: "state \<Rightarrow> bool" where
  "rooms_inv s \<longleftrightarrow> keys_ok (rooms s) \<and> (\<forall>n r. map_of (rooms s) n = Some r \<longrightarrow> room_ok n r \<and> boxes_bounded r)"

lemma rooms_inv_frame: "rooms_inv s \<Longrightarrow> rooms s' = rooms s \<Longrightarrow> rooms_inv s'"
  by (simp add: rooms_inv_def)

lemma rooms_inv_put:
  "rooms_inv s \<Longrightarrow> room_ok n r \<Longrightarrow> boxes_bounded r \<Longrightarrow> rooms_inv (put_room n r s)"
  by (simp add: rooms_inv_def)

lemma rooms_invD: "rooms_inv s \<Longrightarrow> map_of (rooms s) n = Some r \<Longrightarrow> room_ok n r \<and> boxes_bounded r"
  by (simp add: rooms_inv_def)

lemma rbox_simps [simp]:
  "rbox (r\<lparr>r_mailbox := AList.update n q mb\<rparr>) x = (if x = n then q else rbox (r\<lparr>r_mailbox := mb\<rparr>) x)"
  "rbox (r\<lparr>r_mailbox := AList.delete n mb\<rparr>) x = (if x = n then [] else rbox (r\<lparr>r_mailbox := mb\<rparr>) x)"
  "rbox (r\<lparr>r_mailbox := r_mailbox r'\<rparr>) x = rbox r' x"
  "rbox (r\<lparr>r_waiter := w\<rparr>) x = rbox r x" "rbox (r\<lparr>r_dropped := d\<rparr>) x = rbox r x"
  "rbox (r\<lparr>r_members := ms\<rparr>) x = rbox r x" "rbox (r\<lparr>r_seq := i\<rparr>) x = rbox r x"
  "rbox (r\<lparr>r_log := l\<rparr>) x = rbox r x" "rbox (r\<lparr>r_Archived := a\<rparr>) x = rbox r x"
  by (simp_all add: rbox_def)

lemma drops_simps [simp]:
  "drops (r\<lparr>r_dropped := AList.update n q mb\<rparr>) x = (if x = n then q else drops (r\<lparr>r_dropped := mb\<rparr>) x)"
  "drops (r\<lparr>r_dropped := AList.delete n mb\<rparr>) x = (if x = n then 0 else drops (r\<lparr>r_dropped := mb\<rparr>) x)"
  "drops (r\<lparr>r_dropped := r_dropped r'\<rparr>) x = drops r' x"
  "drops (r\<lparr>r_waiter := w\<rparr>) x = drops r x" "drops (r\<lparr>r_mailbox := d\<rparr>) x = drops r x"
  "drops (r\<lparr>r_members := ms\<rparr>) x = drops r x" "drops (r\<lparr>r_seq := i\<rparr>) x = drops r x"
  "drops (r\<lparr>r_log := l\<rparr>) x = drops r x" "drops (r\<lparr>r_Archived := a\<rparr>) x = drops r x"
  by (simp_all add: drops_def)

lemma room_ok_small [simp]:
  "room_ok n (r\<lparr>r_waiter := w\<rparr>) = room_ok n r" "room_ok n (r\<lparr>r_Archived := a\<rparr>) = room_ok n r"
  "room_ok n (r\<lparr>r_dropped := d\<rparr>) = room_ok n r"
  "boxes_bounded (r\<lparr>r_waiter := w\<rparr>) = boxes_bounded r"
  "boxes_bounded (r\<lparr>r_Archived := a\<rparr>) = boxes_bounded r"
  "boxes_bounded (r\<lparr>r_members := ms\<rparr>) = boxes_bounded r"
  by (simp_all add: room_ok_def rbox_ok_def boxes_bounded_def)

lemma room_ok_members [simp]: "distinct ms \<Longrightarrow> room_ok n r \<Longrightarrow> room_ok n (r\<lparr>r_members := ms\<rparr>)"
  by (simp add: room_ok_def rbox_ok_def)

lemma room_ok_new: "room_ok name (newRoom e name desc by)" "boxes_bounded (newRoom e name desc by)"
  by (simp_all add: room_ok_def newRoom_def rbox_ok_def rbox_def boxes_bounded_def drops_def)

lemma room_ok_forget: "room_ok n r \<Longrightarrow> room_ok n (forget_member x r)"
  by (auto simp: room_ok_def forget_member_def rbox_ok_def)

lemma bounded_forget: "boxes_bounded r \<Longrightarrow> boxes_bounded (forget_member x r)"
  by (auto simp: boxes_bounded_def forget_member_def)

lemma room_ok_drain: "room_ok n r \<Longrightarrow> room_ok n (drain_box x r)"
  by (auto simp: room_ok_def drain_box_def rbox_ok_def)

lemma bounded_drain: "boxes_bounded r \<Longrightarrow> boxes_bounded (drain_box x r)"
  by (auto simp: boxes_bounded_def drain_box_def)

lemma removeMembers_ok:
  "room_ok n r \<Longrightarrow> boxes_bounded r \<Longrightarrow>
     room_ok n (snd (removeMembers ns r)) \<and> boxes_bounded (snd (removeMembers ns r))"
  by (induction ns r rule: removeMembers.induct) (auto simp: room_ok_forget bounded_forget)

lemma room_logged_sel [simp]:
  "r_Name (room_logged r m) = r_Name r" "r_seq (room_logged r m) = r_seq r + 1"
  "r_log (room_logged r m) = r_log r @ [m]" "r_members (room_logged r m) = r_members r"
  "rbox (room_logged r m) = rbox r" "drops (room_logged r m) = drops r"
  "r_waiter (room_logged r m) = r_waiter r" "r_Archived (room_logged r m) = r_Archived r"
  by (simp_all add: room_logged_def fun_eq_iff)

lemma posted_sel [simp]: "rm_Seq (posted e r f b) = r_seq r + 1" "rm_From (posted e r f b) = f"
  "rm_Room (posted e r f b) = r_Name r" "rm_Body (posted e r f b) = b" "rm_TS (posted e r f b) = now e"
  by (simp_all add: posted_def)

lemma room_ok_logged:
  assumes "room_ok n r" "rm_Seq m = r_seq r + 1"
  shows "room_ok n (room_logged r m)"
proof -
  have "rbox_ok (room_logged r m) x" for x
    using assms(1) unfolding room_ok_def rbox_ok_def by force
  then show ?thesis using assms by (fastforce simp: room_ok_def sorted_wrt_append)
qed

section \<open>Delivery to one member\<close>

text \<open>What a post does to the mailbox and the drop counter of a member nobody waits for.\<close>

definition pushed :: "roomMessage list \<Rightarrow> roomMessage \<Rightarrow> roomMessage list" where
  "pushed q m = (if roomMailboxLimit \<le> length q then tl q else q) @ [m]"

definition overflows :: "roomMessage list \<Rightarrow> int" where
  "overflows q = (if roomMailboxLimit \<le> length q then 1 else 0)"

definition reader_of :: "room \<Rightarrow> state \<Rightarrow> string \<Rightarrow> (bool \<times> nat) option" where
  \<comment> \<open>the blocked read that takes the message: on the room itself (\<open>True\<close>), or a read-any\<close>
  "reader_of r s n = (case map_of (r_waiter r) n of Some ch \<Rightarrow> Some (True, ch)
     | None \<Rightarrow> (case map_of (anyWaiter s) n of Some ch \<Rightarrow> Some (False, ch) | None \<Rightarrow> None))"

lemma deliver_member_cases:
  "deliver_member persist msg n (r, s) =
     (if n = rm_From msg then (r, s)
      else case reader_of r s n of
        Some (True, ch) \<Rightarrow> (r\<lparr>r_waiter := AList.delete n (r_waiter r)\<rparr>, send ch (PayRoom msg) s)
      | Some (False, ch) \<Rightarrow> (r, send ch (PayAny \<lparr>am_kind = ''room'', am_target = r_Name r, am_msg = toPeerMsg msg\<rparr>)
           (s\<lparr>anyWaiter := AList.delete n (anyWaiter s)\<rparr>))
      | None \<Rightarrow>
         ((if roomMailboxLimit \<le> length (rbox r n)
           then r\<lparr>r_dropped := AList.update n (drops r n + 1) (r_dropped r)\<rparr> else r)
           \<lparr>r_mailbox := AList.update n (pushed (rbox r n) msg) (r_mailbox r)\<rparr>,
          (if persist then with_queue (mailboxAppend n ''room'' (r_Name r) (rm_Seq msg) (rm_From msg) (rm_TS msg) (rm_Body msg))
             (if roomMailboxLimit \<le> length (rbox r n)
              then with_queue (mailboxDropOldest n ''room'' (r_Name r) (rm_Seq (hd (rbox r n)))) s else s)
           else s)))"
  by (auto simp: deliver_member_def reader_of_def deliverAny_def pushed_def Let_def split: option.split)

lemma deliver_member_room:
  assumes "deliver_member p msg n (r, s) = (r', s')"
  shows "r_Name r' = r_Name r" "r_seq r' = r_seq r" "r_log r' = r_log r" "r_members r' = r_members r"
    "r_Archived r' = r_Archived r"
    "rbox r' x = (if x = n \<and> n \<noteq> rm_From msg \<and> reader_of r s n = None then pushed (rbox r n) msg else rbox r x)"
    "drops r' x = drops r x + (if x = n \<and> n \<noteq> rm_From msg \<and> reader_of r s n = None then overflows (rbox r n) else 0)"
    "x \<noteq> n \<Longrightarrow> map_of (r_waiter r') x = map_of (r_waiter r) x"
    "x \<noteq> n \<Longrightarrow> map_of (anyWaiter s') x = map_of (anyWaiter s) x"
  using assms unfolding deliver_member_cases
  by (auto simp: overflows_def split: if_splits option.splits bool.splits prod.splits)

lemma deliver_member_state [simp]:
  assumes "deliver_member p msg n (r, s) = (r', s')"
  shows "rooms s' = rooms s" "channels s' = channels s" "agents s' = agents s" "nameIdx s' = nameIdx s"
    "tasks s' = tasks s" "live_store s' = live_store s" "files s' = files s" "keys s' = keys s"
    "next_chan s' = next_chan s" "blocked s' = blocked s" "writes s' = writes s"
    "writes_closed s' = writes_closed s" "commits s' = commits s" "panicked s' = panicked s"
    "db_closed s' = db_closed s" "stopped s' = stopped s"
  using assms unfolding deliver_member_cases
  by (auto split: if_splits option.splits bool.splits prod.splits)

section \<open>Delivery to all members\<close>

lemma reader_of_other:
  assumes "deliver_member p msg n (r, s) = (r', s')" "x \<noteq> n"
  shows "reader_of r' s' x = reader_of r s x"
  using deliver_member_room(8,9)[OF assms(1,2)] by (auto simp: reader_of_def split: option.split)

lemma fold_deliver_room:
  assumes "fold (deliver_member p msg) ns (r, s) = (r', s')" "distinct ns"
  shows "r_Name r' = r_Name r \<and> r_seq r' = r_seq r \<and> r_log r' = r_log r \<and> r_members r' = r_members r
      \<and> r_Archived r' = r_Archived r
    \<and> rbox r' x = (if x \<in> set ns \<and> x \<noteq> rm_From msg \<and> reader_of r s x = None
                   then pushed (rbox r x) msg else rbox r x)
    \<and> drops r' x = drops r x + (if x \<in> set ns \<and> x \<noteq> rm_From msg \<and> reader_of r s x = None
                   then overflows (rbox r x) else 0)"
  using assms
proof (induction ns arbitrary: r s)
  case (Cons n ns)
  obtain r1 s1 where d: "deliver_member p msg n (r, s) = (r1, s1)" by fastforce
  then have f: "fold (deliver_member p msg) ns (r1, s1) = (r', s')" using Cons.prems by simp
  note one = deliver_member_room[OF d]
  show ?case
  proof (cases "x = n")
    case True
    then show ?thesis using Cons.IH[OF f] Cons.prems(2) one by simp
  next
    case False
    then show ?thesis using Cons.IH[OF f] Cons.prems(2) one reader_of_other[OF d False] by simp
  qed
qed simp

lemma fold_deliver_state:
  assumes "fold (deliver_member p msg) ns (r, s) = (r', s')"
  shows "rooms s' = rooms s" "channels s' = channels s" "agents s' = agents s" "nameIdx s' = nameIdx s"
    "tasks s' = tasks s" "live_store s' = live_store s" "files s' = files s" "keys s' = keys s"
    "next_chan s' = next_chan s" "blocked s' = blocked s" "writes s' = writes s"
    "writes_closed s' = writes_closed s" "commits s' = commits s" "panicked s' = panicked s"
    "db_closed s' = db_closed s" "stopped s' = stopped s"
  using assms
  by (induction ns arbitrary: r s; simp; metis deliver_member_state surj_pair)+

lemmas deliver_room_state = fold_deliver_state [of _ _ "r_members r" r for r, folded deliver_room_def]

lemma deliver_room_room:
  assumes "deliver_room p msg r s = (r', s')" "distinct (r_members r)"
  shows "r_Name r' = r_Name r" "r_seq r' = r_seq r" "r_log r' = r_log r" "r_members r' = r_members r"
    "r_Archived r' = r_Archived r"
    "rbox r' x = (if x \<in> set (r_members r) \<and> x \<noteq> rm_From msg \<and> reader_of r s x = None
                   then pushed (rbox r x) msg else rbox r x)"
    "drops r' x = drops r x + (if x \<in> set (r_members r) \<and> x \<noteq> rm_From msg \<and> reader_of r s x = None
                   then overflows (rbox r x) else 0)"
  using fold_deliver_room[OF assms(1)[unfolded deliver_room_def] assms(2)] by auto

lemma length_pushed: "length q \<le> roomMailboxLimit \<Longrightarrow> length (pushed q m) \<le> roomMailboxLimit"
  by (auto simp: pushed_def roomMailboxLimit_def)

lemma pushed_sorted:
  "sorted_wrt (<) (map rm_Seq q) \<Longrightarrow> \<forall>x\<in>set q. rm_Seq x < rm_Seq m \<Longrightarrow>
     sorted_wrt (<) (map rm_Seq (pushed q m))"
  by (cases q) (auto simp: pushed_def sorted_wrt_append)

lemma set_pushed: "x \<in> set (pushed q m) \<Longrightarrow> x \<in> set q \<or> x = m"
  by (cases q) (auto simp: pushed_def split: if_splits)

lemma deliver_room_ok:
  assumes "deliver_room p m (room_logged r m) s = (r', s')" "room_ok n r" "boxes_bounded r"
    "rm_Seq m = r_seq r + 1" "rm_Room m = r_Name r"
  shows "room_ok n r' \<and> boxes_bounded r'"
proof -
  have d: "distinct (r_members (room_logged r m))" using assms(2) by (simp add: room_ok_def)
  note fx = deliver_room_room[OF assms(1) d]
  have okl: "room_ok n (room_logged r m)" using room_ok_logged assms(2,4) by blast
  have "rbox_ok r' x" for x
  proof -
    have b: "rbox_ok (room_logged r m) x" "rbox_ok r x"
      using okl assms(2) by (simp_all add: room_ok_def)
    have "sorted_wrt (<) (map rm_Seq (pushed (rbox r x) m))"
      using b(2) assms(4) by (intro pushed_sorted) (auto simp: rbox_ok_def)
    then show ?thesis using b assms(4,5) unfolding rbox_ok_def fx
      by (auto dest!: set_pushed)
  qed
  moreover have "boxes_bounded r'"
    using assms(3) length_pushed unfolding boxes_bounded_def fx
    by (auto simp: overflows_def)
  ultimately show ?thesis using okl fx(1-4) by (simp add: room_ok_def)
qed

section \<open>Room handlers keep the invariants\<close>

lemma deliver_member_peer_boxes:
  assumes "deliver_member p msg n (r, s) = (r', s')"
  shows "qbox s' (x, ''peer'', t) = qbox s (x, ''peer'', t)"
  using assms unfolding deliver_member_cases
  by (auto simp: qbox_append qbox_dropOldest qbox_deleteOne
      split: if_splits option.splits bool.splits prod.splits)

lemma deliver_room_peer_boxes:
  assumes "deliver_room p msg r s = (r', s')"
  shows "qbox s' (x, ''peer'', t) = qbox s (x, ''peer'', t)"
proof -
  have "qbox s' (x, ''peer'', t) = qbox s (x, ''peer'', t)"
    if "fold (deliver_member p msg) ns (r, s) = (r', s')" for ns
    using that
  proof (induction ns arbitrary: r s)
    case (Cons n ns)
    obtain r1 s1 where d: "deliver_member p msg n (r, s) = (r1, s1)" by fastforce
    then show ?case using Cons.IH[of r1 s1] Cons.prems deliver_member_peer_boxes[OF d] by simp
  qed simp
  then show ?thesis using assms unfolding deliver_room_def .
qed

lemma deliver_room_chan_inv:
  "deliver_room p msg r s = (r', s') \<Longrightarrow> chan_inv s \<Longrightarrow> chan_inv s'"
  by (rule chan_inv_frame[of s]) (simp_all add: deliver_room_state deliver_room_peer_boxes)

lemma persist_room_frame [simp, frame]:
  "rooms (persistRoomMembers r s) = rooms s" "rooms (persistRoomDefinition r s) = rooms s"
  "rooms (room_write n m s) = rooms s"
  "channels (persistRoomMembers r s) = channels s" "channels (persistRoomDefinition r s) = channels s"
  "channels (room_write n m s) = channels s"
  "agents (persistRoomMembers r s) = agents s" "agents (persistRoomDefinition r s) = agents s"
  "agents (room_write n m s) = agents s"
  "nameIdx (persistRoomMembers r s) = nameIdx s" "nameIdx (persistRoomDefinition r s) = nameIdx s"
  "nameIdx (room_write n m s) = nameIdx s"
  "tasks (persistRoomMembers r s) = tasks s" "tasks (persistRoomDefinition r s) = tasks s"
  "tasks (room_write n m s) = tasks s"
  "qbox (persistRoomMembers r s) = qbox s" "qbox (persistRoomDefinition r s) = qbox s"
  "qbox (room_write n m s) = qbox s"
  "anyWaiter (persistRoomMembers r s) = anyWaiter s" "anyWaiter (persistRoomDefinition r s) = anyWaiter s"
  "anyWaiter (room_write n m s) = anyWaiter s"
  "bufs (persistRoomMembers r s) = bufs s" "bufs (persistRoomDefinition r s) = bufs s"
  "bufs (room_write n m s) = bufs s"
  "blocked (persistRoomMembers r s) = blocked s" "blocked (persistRoomDefinition r s) = blocked s"
  "blocked (room_write n m s) = blocked s"
  "next_chan (persistRoomMembers r s) = next_chan s" "next_chan (persistRoomDefinition r s) = next_chan s"
  "next_chan (room_write n m s) = next_chan s"
  "files (persistRoomMembers r s) = files s" "files (persistRoomDefinition r s) = files s"
  "files (room_write n m s) = files s"
  "keys (persistRoomMembers r s) = keys s" "keys (persistRoomDefinition r s) = keys s"
  "keys (room_write n m s) = keys s"
  by (simp_all add: persistRoomMembers_def persistRoomDefinition_def room_write_def)

lemma chan_inv_persist [simp]:
  "chan_inv s \<Longrightarrow> chan_inv (persistRoomMembers r s)" "chan_inv s \<Longrightarrow> chan_inv (persistRoomDefinition r s)"
  "chan_inv s \<Longrightarrow> chan_inv (room_write n m s)"
  by (simp_all add: persistRoomMembers_def persistRoomDefinition_def room_write_def chan_inv_enqueueWrite)

lemma chan_inv_room_rows [simp]:
  "chan_inv s \<Longrightarrow> chan_inv (with_queue (roomUpsert n ds cb ca) s)"
  "chan_inv s \<Longrightarrow> chan_inv (with_queue (roomAddMember n m) s)"
  "chan_inv s \<Longrightarrow> chan_inv (with_queue (roomRemoveMember n m) s)"
  "chan_inv s \<Longrightarrow> chan_inv (with_queue (roomSetArchived n b) s)"
  "chan_inv s \<Longrightarrow> chan_inv (with_queue (mailboxConsumeAll n ''room'' t) s)"
  "chan_inv s \<Longrightarrow> chan_inv (with_queue (mailboxDeleteOne n ''room'' t i) s)"
  by (rule chan_inv_with_queue, assumption, simp add: frame box_mailboxConsumeAll box_mailboxDeleteOne)+

lemma rooms_inv_frames [simp]:
  "rooms_inv (with_queue f s) = rooms_inv s" "rooms_inv (enqueueWrite p c m s) = rooms_inv s"
  "rooms_inv (send ch v s) = rooms_inv s" "rooms_inv (unblock ch s) = rooms_inv s"
  "rooms_inv (put_channel k c0 s) = rooms_inv s" "rooms_inv (snd (deliverAny t kd g ms s)) = rooms_inv s"
  "rooms_inv (persistRoomMembers r s) = rooms_inv s" "rooms_inv (persistRoomDefinition r s) = rooms_inv s"
  "rooms_inv (room_write n rm s) = rooms_inv s" "rooms_inv (snd (block pe s)) = rooms_inv s"
  by (simp_all add: rooms_inv_def block_def)

definition both_inv :: "state \<Rightarrow> bool" where
  "both_inv s \<longleftrightarrow> rooms_inv s \<and> chan_inv s"

lemma both_invI: "rooms_inv s \<Longrightarrow> chan_inv s \<Longrightarrow> both_inv s"
  by (simp add: both_inv_def)

lemma both_inv_put_room:
  "both_inv s \<Longrightarrow> room_ok n r \<Longrightarrow> boxes_bounded r \<Longrightarrow> both_inv (put_room n r s)"
  by (simp add: both_inv_def rooms_inv_put)

lemma both_inv_frames [simp]:
  "both_inv s \<Longrightarrow> both_inv (with_queue (roomUpsert n ds cb ca) s)"
  "both_inv s \<Longrightarrow> both_inv (with_queue (roomAddMember n m) s)"
  "both_inv s \<Longrightarrow> both_inv (with_queue (roomRemoveMember n m) s)"
  "both_inv s \<Longrightarrow> both_inv (with_queue (roomSetArchived n b) s)"
  "both_inv s \<Longrightarrow> both_inv (with_queue (mailboxConsumeAll n ''room'' t) s)"
  "both_inv s \<Longrightarrow> both_inv (with_queue (mailboxDeleteOne n ''room'' t i) s)"
  "both_inv s \<Longrightarrow> both_inv (enqueueWrite p c w s)" "both_inv s \<Longrightarrow> both_inv (persistRoomMembers r s)"
  "both_inv s \<Longrightarrow> both_inv (persistRoomDefinition r s)" "both_inv s \<Longrightarrow> both_inv (room_write n rm s)"
  "both_inv s \<Longrightarrow> both_inv (send ch v s)" "both_inv s \<Longrightarrow> both_inv (unblock ch s)"
  "both_inv s \<Longrightarrow> both_inv (snd (block pe s))"
  by (simp_all add: both_inv_def chan_inv_enqueueWrite chan_inv_block)

lemma both_invD: "both_inv s \<Longrightarrow> map_of (rooms s) n = Some r \<Longrightarrow> room_ok n r \<and> boxes_bounded r"
  by (simp add: both_inv_def rooms_inv_def)

lemma opRoomCreate_keeps: "both_inv s \<Longrightarrow> both_inv (snd (opRoomCreate e req s))"
  unfolding opRoomCreate_def Let_def
  by (simp add: both_inv_put_room room_ok_new split: option.split)

lemma opJoin_keeps: "both_inv s \<Longrightarrow> both_inv (snd (opJoin req s))"
proof -
  assume inv: "both_inv s"
  have "both_inv (put_room n (r\<lparr>r_members := add_member m (r_members r)\<rparr>) s)"
    if "map_of (rooms s) n = Some r" for n r m
    using both_invD[OF inv that] inv by (intro both_inv_put_room) (simp_all add: room_ok_def rbox_ok_def)
  then show ?thesis using inv unfolding opJoin_def Let_def by (simp split: option.split)
qed

lemma opLeave_keeps: "both_inv s \<Longrightarrow> both_inv (snd (opLeave req s))"
proof -
  assume inv: "both_inv s"
  have "both_inv (put_room n (forget_member m r) s)" if "map_of (rooms s) n = Some r" for n r m
    using both_invD[OF inv that] inv by (intro both_inv_put_room) (simp_all add: room_ok_forget bounded_forget)
  then show ?thesis using inv unfolding opLeave_def Let_def by (simp split: option.split)
qed

lemma opPost_keeps: "both_inv s \<Longrightarrow> both_inv (snd (opPost e req s))"
proof -
  assume inv: "both_inv s"
  let ?f = "strVal (Args req) ''from''" and ?n = "strVal (Args req) ''room''"
    and ?b = "strVal (Args req) ''body''"
  show ?thesis
  proof (cases "map_of (rooms s) ?n")
    case None
    then show ?thesis using inv by (simp add: opPost_def Let_def)
  next
    case (Some r)
    obtain r' s' where d: "deliver_room True (posted e r ?f ?b) (room_logged r (posted e r ?f ?b)) s = (r', s')"
      by fastforce
    have ok: "room_ok ?n r \<and> boxes_bounded r" using inv Some by (auto simp: both_inv_def dest: rooms_invD)
    then have ok': "room_ok ?n r' \<and> boxes_bounded r'" using deliver_room_ok[OF d, of ?n] by simp
    have "rooms_inv s' \<and> chan_inv s'"
      using inv deliver_room_state(1)[OF d] deliver_room_chan_inv[OF d] rooms_inv_frame
      by (auto simp: both_inv_def)
    then show ?thesis using inv Some ok' d
      by (auto simp: both_inv_def opPost_def Let_def rooms_inv_def)
  qed
qed

lemma both_inv_drain:
  "both_inv s \<Longrightarrow> map_of (rooms s) n = Some r \<Longrightarrow> both_inv (put_room n (drain_box m r) s)"
  by (intro both_inv_put_room room_ok_drain bounded_drain) (auto dest: both_invD)

lemma both_inv_room_waiter:
  "both_inv s \<Longrightarrow> map_of (rooms s) n = Some r \<Longrightarrow> both_inv (put_room n (r\<lparr>r_waiter := w\<rparr>) s)"
  by (intro both_inv_put_room) (auto dest: both_invD)

lemma roomRead_keeps:
  assumes inv: "both_inv s"
  shows "both_inv (snd (roomRead e from room t s))"
proof -
  have "both_inv (put_room room (r\<lparr>r_waiter := w\<rparr>) (snd (block p s)))" if "map_of (rooms s) room = Some r" for r w p
    using inv that by (intro both_inv_room_waiter) simp_all
  then show ?thesis using inv unfolding roomRead_def Let_def
    by (simp add: both_inv_drain case_prod_unfold split: option.split)
qed

lemma roomRead_recv_keeps:
  "both_inv s \<Longrightarrow> map_of (rooms s) room = Some r \<Longrightarrow> both_inv (snd (roomRead_recv e from room r m s))"
  by (simp add: roomRead_recv_def both_inv_drain)

lemma roomRead_timeout_keeps:
  "both_inv s \<Longrightarrow> map_of (rooms s) room = Some r \<Longrightarrow> both_inv (snd (roomRead_timeout from room r s))"
  by (simp add: roomRead_timeout_def both_inv_room_waiter)

section \<open>The durable copy of a room's mailboxes\<close>

definition entry_room :: "roomMessage \<Rightarrow> entry" where
  "entry_room m = (rm_Seq m, rm_From m, rfc3339 (rm_TS m), rm_Body m)"

definition room_key :: "room \<Rightarrow> string \<Rightarrow> box_key" where
  "room_key r n = (n, ''room'', r_Name r)"

definition room_durable :: "db \<Rightarrow> room \<Rightarrow> string \<Rightarrow> bool" where
  \<comment> \<open>the rows of a member's mailbox and its drop counter are those in memory\<close>
  "room_durable d r n \<longleftrightarrow>
     box d (room_key r n) = map entry_room (rbox r n) \<and> drop_count d (room_key r n) = drops r n"

definition durable_in :: "state \<Rightarrow> room \<Rightarrow> string \<Rightarrow> bool" where
  "durable_in s r n \<longleftrightarrow> (\<forall>d. queue s = Some d \<longrightarrow> room_durable d r n)"

lemma room_key_frame [simp]:
  "room_key (r\<lparr>r_mailbox := a\<rparr>) = room_key r" "room_key (r\<lparr>r_dropped := b\<rparr>) = room_key r"
  "room_key (r\<lparr>r_waiter := c\<rparr>) = room_key r" "room_key (r\<lparr>r_members := ms\<rparr>) = room_key r"
  "room_key (room_logged r m) = room_key r" "room_key (drain_box x r) = room_key r"
  by (simp_all add: room_key_def fun_eq_iff drain_box_def)

lemma drop_count_ops:
  "drop_count (mailboxAppend r kd t n f ts b d) k = drop_count d k"
  "drop_count (mailboxDropOldest r kd t n d) k = (if k = (r, kd, t) then drop_count d k + 1 else drop_count d k)"
  "drop_count (mailboxConsumeAll r kd t d) k = (if k = (r, kd, t) then 0 else drop_count d k)"
  using sqlite_box.count_put[where k = "(r, kd, t)" and m = "(n, f, rfc3339 ts, b)" and d = d and k' = k]
    sqlite_box.count_evict[where k = "(r, kd, t)" and n = n and d = d and k' = k]
    sqlite_box.count_clear[where k = "(r, kd, t)" and d = d and k' = k]
  by (auto simp: mailboxAppend_put)

lemma box_mailboxAppend:
  "box (mailboxAppend r kd t n f ts b d) k = (if k = (r, kd, t) then box d k @ [(n, f, rfc3339 ts, b)] else box d k)"
  by (simp add: mailboxAppend_put sqlite_box.view_put)

text \<open>The overflow step of the contract: the oldest row goes, the counter grows, the new row comes last.\<close>

lemma durable_push:
  assumes "room_durable d r n" "sorted_wrt (<) (map rm_Seq (rbox r n))" "r_Name r = t"
  shows "box (mailboxAppend n ''room'' t (rm_Seq m) (rm_From m) (rm_TS m) (rm_Body m)
      (if roomMailboxLimit \<le> length (rbox r n) then mailboxDropOldest n ''room'' t (rm_Seq (hd (rbox r n))) d else d))
      (room_key r n) = map entry_room (pushed (rbox r n) m)"
proof (cases "roomMailboxLimit \<le> length (rbox r n)")
  case False
  then show ?thesis using assms
    by (simp add: room_durable_def pushed_def box_mailboxAppend room_key_def entry_room_def)
next
  case True
  then obtain h q where q: "rbox r n = h # q" by (cases "rbox r n") (auto simp: roomMailboxLimit_def)
  have "box d (room_key r n) = entry_room h # map entry_room q"
    using assms(1) q by (simp add: room_durable_def)
  moreover have "sqlite_box.increasing (map entry_room (h # q))"
    using assms(2) q by (simp add: sqlite_box.increasing_def sorted_wrt_map entry_room_def)
  ultimately have "box (mailboxDropOldest n ''room'' t (fst (entry_room h)) d) (room_key r n) = map entry_room q"
    using sqlite_box.remove_head[of d "room_key r n" "entry_room h" "map entry_room q"] assms(3)
    by (simp add: room_key_def box_mailboxDropOldest)
  then show ?thesis using True q assms(3)
    by (simp add: box_mailboxAppend pushed_def room_key_def entry_room_def)
qed

lemma deliver_member_durable:
  assumes d: "deliver_member True msg n (r, s) = (r', s')" and live: "live_store s"
    and x: "durable_in s r x" and sorted: "sorted_wrt (<) (map rm_Seq (rbox r n))"
  shows "durable_in s' r' x"
proof (cases "n = rm_From msg \<or> reader_of r s n \<noteq> None")
  case True
  then have "queue s' = queue s \<and> rbox r' x = rbox r x \<and> drops r' x = drops r x \<and> room_key r' x = room_key r x"
    using d unfolding deliver_member_cases by (auto split: if_splits option.splits bool.splits)
  then show ?thesis using x by (simp add: durable_in_def room_durable_def)
next
  case False
  then have n: "n \<noteq> rm_From msg" "reader_of r s n = None" by blast+
  show ?thesis unfolding durable_in_def
  proof (intro allI impI)
    fix d' assume "queue s' = Some d'"
    then obtain d0 where d0: "queue s = Some d0"
      and d': "d' = mailboxAppend n ''room'' (r_Name r) (rm_Seq msg) (rm_From msg) (rm_TS msg) (rm_Body msg)
         (if roomMailboxLimit \<le> length (rbox r n) then mailboxDropOldest n ''room'' (r_Name r) (rm_Seq (hd (rbox r n))) d0
          else d0)"
      using d n live unfolding deliver_member_cases
      by (auto simp: queue_with_queue live_store_def split: if_splits)
    have dur: "room_durable d0 r x" using x d0 by (simp add: durable_in_def)
    have fx: "rbox r' x = (if x = n then pushed (rbox r n) msg else rbox r x)"
      "drops r' x = drops r x + (if x = n then overflows (rbox r n) else 0)" "room_key r' x = room_key r x"
      using deliver_member_room[OF d] n by (simp_all add: room_key_def)
    show "room_durable d' r' x"
    proof (cases "x = n")
      case True
      then show ?thesis using durable_push[of d0 r n "r_Name r" msg] dur sorted fx
        by (simp add: room_durable_def d' drop_count_ops overflows_def room_key_def)
    next
      case False
      then show ?thesis using dur fx
        by (auto simp: room_durable_def d' drop_count_ops box_mailboxAppend box_mailboxDropOldest
            box_mailboxDeleteOne room_key_def)
    qed
  qed
qed

lemma fold_deliver_durable:
  assumes "fold (deliver_member True msg) ns (r, s) = (r', s')" "distinct ns" "live_store s"
    "durable_in s r x" "\<forall>n\<in>set ns. sorted_wrt (<) (map rm_Seq (rbox r n))"
  shows "durable_in s' r' x"
  using assms
proof (induction ns arbitrary: r s)
  case (Cons n ns)
  obtain r1 s1 where d: "deliver_member True msg n (r, s) = (r1, s1)" by fastforce
  have "rbox r1 y = rbox r y" if "y \<in> set ns" for y
    using deliver_member_room(6)[OF d] that Cons.prems(2) by auto
  then show ?case
    using Cons.IH[of r1 s1] Cons.prems d deliver_member_durable[OF d Cons.prems(3,4)] by simp
qed simp

section \<open>What a post does\<close>

definition post_args :: "request \<Rightarrow> string \<Rightarrow> string \<Rightarrow> string \<Rightarrow> bool" where
  "post_args req from room body \<longleftrightarrow> strVal (Args req) ''from'' = from \<and> strVal (Args req) ''room'' = room
     \<and> strVal (Args req) ''body'' = body \<and> from \<noteq> [] \<and> room \<noteq> []"

lemma opPost_accepted:
  assumes "post_args req from room body" "map_of (rooms s) room = Some r" "\<not> r_Archived r"
    "from \<in> set (r_members r)"
  shows "opPost e req s = (let msg = posted e r from body in
     case deliver_room True msg (room_logged r msg) s of (r', s') \<Rightarrow>
       (okResponse (JObj [(''room'', JStr room), (''seq'', JNum (r_seq r + 1))]),
        room_write room msg (put_room room r' s')))"
  using assms by (simp add: opPost_def post_args_def Let_def split: prod.split)

text \<open>C9: An accepted post takes the next number of the room, is appended to its log, and reaches every
  other member's mailbox unless a blocked read of that member takes it. A mailbox at its limit of 64
  first loses its oldest message and the member's drop counter grows by one. The author's own mailbox
  and those of non-members do not change.\<close>

theorem opPost_fanout:
  assumes "rooms_inv s" "post_args req from room body" "map_of (rooms s) room = Some r"
    "\<not> r_Archived r" "from \<in> set (r_members r)" "opPost e req s = (resp, s')"
  shows "resp = okResponse (JObj [(''room'', JStr room), (''seq'', JNum (r_seq r + 1))])
    \<and> (\<exists>r'. map_of (rooms s') room = Some r' \<and> r_seq r' = r_seq r + 1
        \<and> r_log r' = r_log r @ [posted e r from body] \<and> r_members r' = r_members r
        \<and> (\<forall>n. rbox r' n = (if n \<in> set (r_members r) \<and> n \<noteq> from \<and> reader_of r s n = None
               then pushed (rbox r n) (posted e r from body) else rbox r n))
        \<and> (\<forall>n. drops r' n = (if n \<in> set (r_members r) \<and> n \<noteq> from \<and> reader_of r s n = None
               then drops r n + overflows (rbox r n) else drops r n)))"
proof -
  let ?m = "posted e r from body"
  have ok: "room_ok room r" using assms(1,3) by (simp add: rooms_inv_def)
  obtain r' s1 where d: "deliver_room True ?m (room_logged r ?m) s = (r', s1)" by fastforce
  have dist: "distinct (r_members (room_logged r ?m))" using ok by (simp add: room_ok_def)
  have rd: "reader_of (room_logged r ?m) s n = reader_of r s n" for n by (simp add: reader_of_def)
  have "s' = room_write room ?m (put_room room r' s1)"
    "resp = okResponse (JObj [(''room'', JStr room), (''seq'', JNum (r_seq r + 1))])"
    using assms(6) d by (simp_all add: opPost_accepted[OF assms(2-5)] Let_def)
  then show ?thesis using deliver_room_room[OF d dist] rd by auto
qed

lemma durable_in_room_write:
  "durable_in (room_write room m x) r n = durable_in x r n"
  by (auto simp: room_write_def durable_in_def enqueueWrite_def q_exec_def q_insert_def room_durable_def box_def
      drop_count_def Let_def simp del: Bex_def split: option.split prod.split)

lemma rooms_room_write [simp]: "rooms (room_write room m x) = rooms x"
  by (simp add: room_write_def)

text \<open>C8: A post keeps the side store in step: if before it every member's rows and drop counter are the
  mailbox and counter in memory, the same holds after it, whichever mailboxes overflowed.\<close>

theorem opPost_durable:
  assumes "rooms_inv s" "live_store s" "map_of (rooms s) room = Some r"
    "strVal (Args req) ''room'' = room" "\<forall>n. durable_in s r n"
  shows "\<exists>r'. map_of (rooms (snd (opPost e req s))) room = Some r'
    \<and> (\<forall>n. durable_in (snd (opPost e req s)) r' n)"
proof -
  let ?from = "strVal (Args req) ''from''" and ?body = "strVal (Args req) ''body''"
  show ?thesis
  proof (cases "?from = [] \<or> room = [] \<or> r_Archived r \<or> ?from \<notin> set (r_members r)")
    case True
    then have "snd (opPost e req s) = s" using assms(3,4) by (auto simp: opPost_def Let_def)
    then show ?thesis using assms(3,5) by auto
  next
    case False
    let ?m = "posted e r ?from ?body"
    have ok: "room_ok room r" using assms(1,3) by (simp add: rooms_inv_def)
    obtain r' s1 where d: "deliver_room True ?m (room_logged r ?m) s = (r', s1)" by fastforce
    have "durable_in s (room_logged r ?m) n" for n
      using assms(5) by (simp add: durable_in_def room_durable_def)
    moreover have "sorted_wrt (<) (map rm_Seq (rbox r n))" "distinct (r_members r)" for n
      using ok by (simp_all add: room_ok_def rbox_ok_def)
    ultimately have dur: "durable_in s1 r' n" for n
      using fold_deliver_durable[OF d[unfolded deliver_room_def], of n] assms(2) by simp
    have "post_args req ?from room ?body" using False assms(4) by (simp add: post_args_def)
    then have "snd (opPost e req s) = room_write room ?m (put_room room r' s1)"
      using d False assms(3) by (simp add: opPost_accepted Let_def)
    moreover have "durable_in (put_room room r' s1) r' n" for n
      using dur[of n] by (simp add: durable_in_def)
    ultimately show ?thesis by (intro exI[of _ r']) (simp add: durable_in_room_write)
  qed
qed

text \<open>A read of a room with pending messages answers at once with all of them, oldest first, behind a
  notice that counts what overflowed since the last read; it leaves the mailbox empty, the counter at
  zero, and no row of this mailbox in the side store.\<close>

theorem roomRead_drains:
  assumes "map_of (rooms s) room = Some r" "from \<in> set (r_members r)" "rbox r from \<noteq> []"
    "roomRead e from room timeout s = (out, s')" "live_store s" "r_Name r = room"
  shows "out = Done (okResponse (JObj [(''room'', JStr room), (''messages'', JArr
       ((if drops r from > 0 then [notice_json e room (drops r from)] else []) @ map room_msg_json (rbox r from)))]))
    \<and> (\<exists>r'. map_of (rooms s') room = Some r' \<and> rbox r' from = [] \<and> drops r' from = 0
        \<and> (\<forall>n. n \<noteq> from \<longrightarrow> rbox r' n = rbox r n \<and> drops r' n = drops r n) \<and> durable_in s' r' from)"
proof -
  have out: "out = Done (roomDrainResponse e room (rbox r from) (drops r from))"
    and s': "s' = with_queue (mailboxConsumeAll from ''room'' room) (put_room room (drain_box from r) s)"
    using assms(1-4) by (simp_all add: roomRead_def)
  have "map_of (rooms s') room = Some (drain_box from r)" by (simp add: s')
  moreover have "rbox (drain_box from r) n = (if n = from then [] else rbox r n)"
    "drops (drain_box from r) n = (if n = from then 0 else drops r n)" for n
    by (simp_all add: drain_box_def)
  moreover have "durable_in s' (drain_box from r) from"
    using assms(5,6) calculation(2,3)[of "from"]
    by (auto simp: s' durable_in_def queue_with_queue live_store_def room_durable_def
        box_mailboxConsumeAll drop_count_ops room_key_def drain_box_def)
  ultimately show ?thesis using out by (auto simp: roomDrainResponse_def)
qed

text \<open>\<^verbatim>\<open>join\<close> never takes a room past its limit: a room of at most eight members has at
  most eight afterwards, and joining a full room is refused as if the room did not exist.\<close>

theorem opJoin_capacity:
  assumes "map_of (rooms s) room = Some r" "strVal (Args req) ''room'' = room"
    "strVal (Args req) ''from'' = from" "from \<noteq> []" "room \<noteq> []" "length (r_members r) \<le> roomMaxMembers"
  shows "\<exists>r'. map_of (rooms (snd (opJoin req s))) room = Some r' \<and> length (r_members r') \<le> roomMaxMembers
    \<and> (OK (fst (opJoin req s)) \<longleftrightarrow> from \<in> set (r_members r'))
    \<and> (length (r_members r) = roomMaxMembers \<and> from \<notin> set (r_members r) \<longrightarrow>
         Code (fst (opJoin req s)) = CodeNotFound \<and> snd (opJoin req s) = s)"
  using assms by (auto simp: opJoin_def Let_def add_member_def)

section \<open>Transcript files\<close>

lemma strIndex_skip:
  "c \<notin> set l \<Longrightarrow> strIndex (l @ s) (c # p) = map_option ((+) (length l)) (strIndex s (c # p))"
proof (induction l)
  case Nil
  then show ?case by (cases "strIndex s (c # p)") simp_all
next
  case (Cons a l)
  then show ?case by (cases "strIndex s (c # p)") auto
qed

lemma strIndex_not_dash:
  "c \<noteq> CHR ''-'' \<Longrightarrow> strIndex (nl # c # s) fence = map_option Suc (strIndex (c # s) fence)"
  by (simp add: fence_def)

lemma strIndex_fence: "strIndex (fence @ s) fence = Some 0"
  by (simp add: fence_def)

lemma strIndex_line:
  assumes "nl \<notin> set l" "c \<noteq> CHR ''-''" "strIndex (c # s) fence = Some i"
  shows "strIndex (l @ nl # c # s) fence = Some (length l + 1 + i)"
proof -
  have "strIndex (l @ nl # c # s) fence = map_option ((+) (length l)) (strIndex (nl # c # s) fence)"
    using strIndex_skip[OF assms(1)] by (simp add: fence_def del: strIndex.simps)
  then show ?thesis using assms(3) by (simp only: strIndex_not_dash[OF assms(2)]) simp
qed

lemma strIndex_last_line: "nl \<notin> set l \<Longrightarrow> strIndex (l @ fence @ s) fence = Some (length l)"
proof -
  assume "nl \<notin> set l"
  then have "strIndex (l @ fence @ s) fence = map_option ((+) (length l)) (strIndex (fence @ s) fence)"
    using strIndex_skip[of nl l "fence @ s"] by (simp add: fence_def)
  then show ?thesis by (simp add: strIndex_fence)
qed

lemma splitOn_four:
  assumes "c \<notin> set a" "c \<notin> set b" "c \<notin> set d" "c \<notin> set f"
  shows "splitOn c (a @ c # b @ c # d @ c # f) = [a, b, d, f]"
  using assms by (simp add: splitOn_append splitOn_absent)

lemma trim_with_nl: "trimRight (with_nl b) nl = trimRight b nl"
  by (simp add: with_nl_def)

lemma rendered_parses:
  assumes "0 < rm_Seq m" "rm_Seq m \<le> int64_max" "rm_From m \<noteq> []" "rm_Room m \<noteq> []"
    "nl \<notin> set (rm_From m)" "nl \<notin> set (rm_Room m)" "0 \<le> rm_TS m" "rm_TS m < 253402300800 * second"
  shows "parseRoomMsgFile (renderRoomMsg m) =
    Inr (m\<lparr>rm_TS := trunc_sec (rm_TS m), rm_Body := trimRight (rm_Body m) nl\<rparr>)"
proof -
  define l1 l2 l3 l4 where "l1 = ''seq: '' @ itoa (rm_Seq m)" and "l2 = ''from: '' @ rm_From m"
    and "l3 = ''room: '' @ rm_Room m" and "l4 = ''ts: '' @ rfc3339 (rm_TS m)"
  have nnl: "nl \<notin> set l1" "nl \<notin> set l2" "nl \<notin> set l3" "nl \<notin> set l4"
    using itoa_no_nl rfc3339_no_nl assms(5,6) by (auto simp: l1_def l2_def l3_def l4_def)
  define hd' where "hd' = l1 @ nl # l2 @ nl # l3 @ nl # l4"
  define rest where "rest = hd' @ fence @ nl # with_nl (rm_Body m)"
  have r: "renderRoomMsg m = ''---'' @ nl # rest"
    by (simp add: renderRoomMsg_def rest_def hd'_def l1_def l2_def l3_def l4_def fence_def)
  have i4: "strIndex (l4 @ fence @ t) fence = Some (length l4)" for t
    using nnl(4) by (rule strIndex_last_line)
  have i3: "strIndex (l3 @ nl # l4 @ fence @ t) fence = Some (length l3 + 1 + length l4)" for t
    using strIndex_line[OF nnl(3), of "CHR ''t''"] i4[of t] by (simp add: l4_def)
  have i2: "strIndex (l2 @ nl # l3 @ nl # l4 @ fence @ t) fence = Some (length l2 + 1 + (length l3 + 1 + length l4))" for t
    using strIndex_line[OF nnl(2), of "CHR ''r''"] i3[of t] by (simp add: l3_def)
  have i1: "strIndex rest fence = Some (length hd')"
    using strIndex_line[OF nnl(1), of "CHR ''f''"] i2[of "nl # with_nl (rm_Body m)"]
    by (simp add: l2_def rest_def hd'_def)
  have pre: "hasPrefix (''---'' @ nl # rest) (''---'' @ [nl])"
    using hasPrefix_append[of "''---'' @ [nl]" rest] by simp
  have hdr: "splitOn nl hd' = [l1, l2, l3, l4]"
    unfolding hd'_def using nnl by (rule splitOn_four)
  have cuts: "cut l1 '': '' = Some (''seq'', itoa (rm_Seq m))" "cut l2 '': '' = Some (''from'', rm_From m)"
    "cut l3 '': '' = Some (''room'', rm_Room m)" "cut l4 '': '' = Some (''ts'', rfc3339 (rm_TS m))"
    using cut_two[of "CHR '':''" "''seq''" "CHR '' ''"] cut_two[of "CHR '':''" "''from''" "CHR '' ''"]
      cut_two[of "CHR '':''" "''room''" "CHR '' ''"] cut_two[of "CHR '':''" "''ts''" "CHR '' ''"]
    by (simp_all add: l1_def l2_def l3_def l4_def)
  have at: "atoi (itoa (rm_Seq m)) = Some (rm_Seq m)"
    using assms(1,2) by (intro atoi_itoa) (auto simp: int64_max_def)
  have ph: "parse_header [l1, l2, l3, l4] zero_roomMessage = Inr (zero_roomMessage\<lparr>rm_Seq := rm_Seq m,
      rm_From := rm_From m, rm_Room := rm_Room m, rm_TS := trunc_sec (rm_TS m)\<rparr>)"
    using parse_format[OF assms(7,8)] by (simp add: cuts at)
  have body: "trimRight (trimPrefix (drop (length hd' + 5) rest) [nl]) nl = trimRight (rm_Body m) nl"
    using trimPrefix_append[of "[nl]" "with_nl (rm_Body m)"] by (simp add: rest_def fence_def trim_with_nl)
  have th: "take (length hd') rest = hd'" by (simp add: rest_def)
  have d4: "drop 4 (''---'' @ nl # rest) = rest" by simp
  show ?thesis
    unfolding r parseRoomMsgFile_def d4 Let_def i1 option.case th hdr ph sum.case body
    using pre assms(1,3,4) by (simp add: zero_roomMessage_def)
qed

text \<open>Reading back a transcript file gives the message that was posted, with its time cut to the second
  and the newlines at the end of its body gone; the frontmatter never confuses the parser, whatever the
  body holds, as long as the author and the room name are single-line and not empty.\<close>

theorem parse_render_room:
  assumes "0 < rm_Seq m" "rm_Seq m \<le> int64_max" "rm_From m \<noteq> []" "rm_Room m \<noteq> []"
    "nl \<notin> set (rm_From m)" "nl \<notin> set (rm_Room m)" "0 \<le> rm_TS m" "rm_TS m < 253402300800 * second"
  shows "parseRoomMsgFile (renderRoomMsg m) =
    Inr (m\<lparr>rm_TS := trunc_sec (rm_TS m), rm_Body := trimRight (rm_Body m) nl\<rparr>)"
  using assms by (rule rendered_parses)

text \<open>Names of transcript files sort as their numbers do, below a million.\<close>

lemma padLeft_less:
  assumes "length a = length b" "list_all isDigit a" "list_all isDigit b" "digitsVal a < digitsVal b"
  shows "\<exists>p x y s t. a = p @ x # s \<and> b = p @ y # t \<and> x < y"
  using assms
proof (induction a b rule: list_induct2)
  case (Cons x xs y ys)
  have v: "digitsVal (c # cs) = digitVal c * 10 ^ length cs + digitsVal cs" for c cs
    using digitsVal_append[of "[c]" cs] by (simp add: digitsVal_def)
  have b: "digitsVal cs < 10 ^ length cs" if "list_all isDigit cs" for cs
    using that
  proof (induction cs rule: rev_induct)
    case (snoc c cs)
    then have "digitVal c \<le> 9" "digitsVal cs < 10 ^ length cs" by (auto simp: isDigit_def digitVal_def)
    then show ?case by simp
  qed simp
  show ?case
  proof (cases "x = y")
    case True
    then have "digitsVal xs < digitsVal ys" using Cons.prems(3) Cons.hyps by (simp add: v)
    then obtain p u w s t where "xs = p @ u # s \<and> ys = p @ w # t \<and> u < w"
      using Cons.IH Cons.prems(1,2) by auto
    then show ?thesis using True by (metis append_Cons)
  next
    case False
    have "digitVal x < digitVal y"
    proof (rule ccontr)
      assume "\<not> digitVal x < digitVal y"
      moreover have "digitVal x \<noteq> digitVal y"
      proof
        assume "digitVal x = digitVal y"
        moreover have "48 \<le> (of_char x :: nat)" "48 \<le> (of_char y :: nat)"
          using Cons.prems(1,2) by (simp_all add: isDigit_def)
        ultimately have "(of_char x :: nat) = of_char y" unfolding digitVal_def by linarith
        then show False using False by simp
      qed
      ultimately have "Suc (digitVal y) \<le> digitVal x" by simp
      then have "Suc (digitVal y) * 10 ^ length xs \<le> digitVal x * 10 ^ length xs"
        using mult_le_mono1 by blast
      moreover have "digitsVal ys < 10 ^ length ys" using b Cons.prems(2) by simp
      ultimately show False using Cons.prems(3) Cons.hyps by (simp add: v)
    qed
    then have "(of_char x :: nat) < of_char y" by (simp add: digitVal_def)
    then have "x < y" by (simp add: less_char_def)
    then show ?thesis by (metis append_Nil)
  qed
qed simp

lemma paths_in_order:
  assumes "0 < i" "i < j" "j < 1000000"
  shows "room_msg_path room i a < room_msg_path room j b"
proof -
  have l: "length (itoaN (nat k)) \<le> 6" if "0 < k" "k < 1000000" for k :: int
    using that by (intro length_itoaN) (auto simp: nat_less_iff)
  have "\<exists>p x y s t. padLeft 6 (itoaN (nat i)) = p @ x # s \<and> padLeft 6 (itoaN (nat j)) = p @ y # t \<and> x < y"
    using assms l[of i] l[of j] by (intro padLeft_less) (simp_all add: length_padLeft itoaN_digits)
  then obtain p x y s t where pd: "padLeft 6 (itoaN (nat i)) = p @ x # s"
    "padLeft 6 (itoaN (nat j)) = p @ y # t" "x < y" by blast
  have less: "(u @ x # v :: string) < u @ y # w" for u v w
    using pd(3) by (induction u) auto
  show ?thesis using less[of "''rooms/'' @ room @ ''/'' @ p"] pd assms
    by (simp add: room_msg_path_def pad06_def)
qed

text \<open>The daemon rebuilds a room's log by sorting file names as strings. For numbers below one million
  this is their numeric order, whoever the authors are.\<close>

theorem room_msg_path_order:
  assumes "0 < i" "i < j" "j < 1000000"
  shows "room_msg_path room i a < room_msg_path room j b"
  using assms by (rule paths_in_order)

end
