(* ===== verification/Registry.thy ===== *)
theory Registry
  imports Identity Rooms
begin

text \<open>
  The registry of agents (\<^verbatim>\<open>registry.go\<close> and the registration handlers of
  \<^verbatim>\<open>state.go\<close>): the two indexes, leases, registration with its session and PID checks,
  unregistering, and the sweep that drops expired agents.
\<close>

section \<open>Definitions\<close>

definition leaseTTL :: time where "leaseTTL = 60 * 60 * second"
definition sweepInterval :: time where "sweepInterval = 30 * second"

definition agent_path :: "string \<Rightarrow> string" where
  "agent_path i = pathJoin [''registry'', i @ ''.json'']"

definition persistAgent :: "agent \<Rightarrow> state \<Rightarrow> state" where
  "persistAgent a s = enqueueWrite (agent_path (ag_AgentID a)) (AgentFile a)
     (''register '' @ ag_Name a @ ''/'' @ ag_AgentID a @ '' (lease until '' @ rfc3339 (ag_ExpiresAt a) @ '')'') s"

definition removeAgentFile :: "string \<Rightarrow> state \<Rightarrow> state" where
  "removeAgentFile i s = s\<lparr>files := AList.delete (agent_path i) (files s)\<rparr>"

definition indexAgent :: "agent \<Rightarrow> state \<Rightarrow> state" where
  "indexAgent a s = s\<lparr>agents := AList.update (ag_AgentID a) a (agents s),
     nameIdx := AList.update (ag_Name a) (ag_AgentID a) (nameIdx s)\<rparr>"

definition unindexAgent :: "string \<Rightarrow> state \<Rightarrow> state" where
  "unindexAgent i s =
     (case map_of (agents s) i of
        None \<Rightarrow> s
      | Some a \<Rightarrow>
          let s = s\<lparr>agents := AList.delete i (agents s)\<rparr>
          in if get_or [] (nameIdx s) (ag_Name a) = i
             then s\<lparr>nameIdx := AList.delete (ag_Name a) (nameIdx s)\<rparr> else s)"

definition put_agent :: "agent \<Rightarrow> state \<Rightarrow> state" where
  \<comment> \<open>an assignment through a pointer of the registry\<close>
  "put_agent a s = s\<lparr>agents := AList.update (ag_AgentID a) a (agents s)\<rparr>"

definition renewed :: "env \<Rightarrow> agent \<Rightarrow> agent" where
  "renewed e a = a\<lparr>ag_LastSeenAt := now e, ag_ExpiresAt := now e + leaseTTL\<rparr>"

definition renewLease :: "env \<Rightarrow> string \<Rightarrow> state \<Rightarrow> state" where
  "renewLease e name s =
     (if name = [] then s
      else case agentByName s name of
        None \<Rightarrow> s
      | Some a \<Rightarrow> persistAgent (renewed e a) (put_agent (renewed e a) s))"

section \<open>Registration\<close>

definition request_info :: "(string, json) gomap \<Rightarrow> agentInfo" where
  "request_info args =
     \<lparr>in_Harness = strVal args ''harness'', in_Model = strVal args ''model'', in_Project = strVal args ''project'',
      in_RepoURL = strVal args ''repo_url'', in_RepoRoot = strVal args ''repo_root'',
      in_MainRepoRoot = strVal args ''main_repo_root'', in_WorktreeKind = strVal args ''worktree_kind'',
      in_Worktree = strVal args ''worktree'', in_Branch = strVal args ''branch'', in_CWD = strVal args ''cwd''\<rparr>"

definition apply_info :: "agentInfo \<Rightarrow> agent \<Rightarrow> agent" where
  \<comment> \<open>non-empty fields override\<close>
  "apply_info info a = a\<lparr>
     ag_Harness := or_else (in_Harness info) (ag_Harness a),
     ag_Model := or_else (in_Model info) (ag_Model a),
     ag_Project := or_else (in_Project info) (ag_Project a),
     ag_RepoURL := or_else (in_RepoURL info) (ag_RepoURL a),
     ag_RepoRoot := or_else (in_RepoRoot info) (ag_RepoRoot a),
     ag_MainRepoRoot := or_else (in_MainRepoRoot info) (ag_MainRepoRoot a),
     ag_WorktreeKind := or_else (in_WorktreeKind info) (ag_WorktreeKind a),
     ag_Worktree := or_else (in_Worktree info) (ag_Worktree a),
     ag_Branch := or_else (in_Branch info) (ag_Branch a),
     ag_CWD := or_else (in_CWD info) (ag_CWD a)\<rparr>"

definition live :: "env \<Rightarrow> agent \<Rightarrow> bool" where
  "live e a \<longleftrightarrow> now e < ag_ExpiresAt a"

fun goQuoteChar :: "char \<Rightarrow> string" where
  "goQuoteChar c =
     (if c = dquote \<or> c = CHR 0x5C then [CHR 0x5C, c]
      else if c = CHR 0x07 then [CHR 0x5C, CHR ''a''] else if c = CHR 0x08 then [CHR 0x5C, CHR ''b'']
      else if c = CHR 0x09 then [CHR 0x5C, CHR ''t''] else if c = CHR 0x0A then [CHR 0x5C, CHR ''n'']
      else if c = CHR 0x0B then [CHR 0x5C, CHR ''v''] else if c = CHR 0x0C then [CHR 0x5C, CHR ''f'']
      else if c = CHR 0x0D then [CHR 0x5C, CHR ''r'']
      else if (of_char c :: nat) < 32 \<or> (of_char c :: nat) = 127
      then [CHR 0x5C, CHR ''x'', hexDigit (of_char c div 16), hexDigit (of_char c mod 16)] else [c])"

definition goQuote :: "string \<Rightarrow> string" where
  \<comment> \<open>the verb \<^verbatim>\<open>%q\<close>, for text whose characters beyond ASCII are printable\<close>
  "goQuote s = [dquote] @ concat (map goQuoteChar s) @ [dquote]"

definition ambiguousError :: "string \<Rightarrow> string list \<Rightarrow> string" where
  "ambiguousError addr forms = ''ambiguous address '' @ goQuote addr @ '': matches '' @ joinWith '', '' forms"

definition addrError_text :: "addrError \<Rightarrow> string" where
  "addrError_text err = (case err of
       StaleNickname addr i \<Rightarrow> ''nickname '' @ goQuote addr @ '' points to agent_id '' @ i
         @ '' which is no longer registered; reassign with: lalia nickname '' @ addr @ '' <new-address>''
     | IDNotFound addr \<Rightarrow> ''agent_id '' @ addr @ '' not found''
     | AgentNotFound addr \<Rightarrow> ''agent '' @ goQuote addr @ '' not found''
     | Ambiguous addr forms \<Rightarrow> ambiguousError addr forms)"

definition pid_conflict :: "int \<Rightarrow> agent \<Rightarrow> response" where
  "pid_conflict pid a = errorResponse CodePIDConflict ''pid_in_use''
     (''unregister '' @ ag_Name a @ '' first, or run lalia register from a separate process'')
     (''PID '' @ itoa pid @ '' is already registered as agent '' @ goQuote (ag_Name a))
     [(''pid'', JNum pid), (''registered_as'', JStr (ag_Name a)), (''agent_id'', JStr (ag_AgentID a))]"

definition session_hint :: string where
  "session_hint = ''wait for lease expiry or run lalia unregister first''"

definition session_conflict :: "string \<Rightarrow> agentInfo \<Rightarrow> agent \<Rightarrow> response option" where
  \<comment> \<open>for an agent whose lease is live: another harness, or another directory\<close>
  "session_conflict name info a =
     (if in_Harness info \<noteq> [] \<and> ag_Harness a \<noteq> [] \<and> in_Harness info \<noteq> ag_Harness a then
        Some (errorResponse CodeSessionConflict ''session_conflict'' session_hint
          (''agent '' @ goQuote name @ '' is live in harness '' @ goQuote (ag_Harness a)
             @ ''; new registration from '' @ goQuote (in_Harness info) @ '' conflicts'')
          [(''name'', JStr name), (''registered_harness'', JStr (ag_Harness a)),
           (''new_harness'', JStr (in_Harness info))])
      else if in_CWD info \<noteq> [] \<and> ag_CWD a \<noteq> [] \<and> in_CWD info \<noteq> ag_CWD a then
        Some (errorResponse CodeSessionConflict ''session_conflict'' session_hint
          (''agent '' @ goQuote name @ '' is live in '' @ goQuote (ag_CWD a)
             @ ''; new registration from '' @ goQuote (in_CWD info) @ '' conflicts'')
          [(''name'', JStr name), (''registered_cwd'', JStr (ag_CWD a)), (''new_cwd'', JStr (in_CWD info))])
      else None)"

definition pid_holder :: "env \<Rightarrow> string \<Rightarrow> int \<Rightarrow> state \<Rightarrow> agent option" where
  \<comment> \<open>the agent the PID check stops at\<close>
  "pid_holder e name pid s =
     (if pid = 0 then None
      else find (\<lambda>a. ag_PID a = pid \<and> ag_Name a \<noteq> name \<and> live e a) (map snd (agents s)))"

definition register_conflict :: "env \<Rightarrow> string \<Rightarrow> int \<Rightarrow> agentInfo \<Rightarrow> state \<Rightarrow> response option" where
  \<comment> \<open>the two checks under the lock: the PID, then the session of a live lease\<close>
  "register_conflict e name pid info s =
     (case pid_holder e name pid s of
        Some existing \<Rightarrow> Some (pid_conflict pid existing)
      | None \<Rightarrow>
          (case agentByName s name of
             None \<Rightarrow> None
           | Some a \<Rightarrow> if live e a then session_conflict name info a else None))"

definition registered :: "env \<Rightarrow> string \<Rightarrow> int \<Rightarrow> string \<Rightarrow> agentInfo \<Rightarrow> string \<Rightarrow> agent option \<Rightarrow> agent" where
  \<comment> \<open>the record a registration leaves, from the one on file if there is one\<close>
  "registered e name pid pubHex info role old =
     (let a = (case old of
            Some a \<Rightarrow> a
          | None \<Rightarrow> empty_agent\<lparr>ag_AgentID := newID e, ag_Name := name, ag_StartedAt := now e\<rparr>);
          a = a\<lparr>ag_PID := pid, ag_Pubkey := pubHex, ag_LastSeenAt := now e, ag_ExpiresAt := now e + leaseTTL\<rparr>;
          a = apply_info info a
      in if role \<noteq> [] then a\<lparr>ag_Role := role\<rparr> else a)"

definition opRegister :: "env \<Rightarrow> request \<Rightarrow> state \<Rightarrow> response \<times> state" where
  "opRegister e req s =
     (let name = strVal (Args req) ''name''; pid = numVal (Args req) ''pid''
      in if name = [] then
           (errorResponse CodeError ''missing_name'' ''pass --name or set LALIA_NAME'' ''name required'' [], s)
         else case ensureKey e name s of
           (Inl err, s) \<Rightarrow> (errorResponse CodeError ''keygen_failed'' ''check key backend permissions and retry''
              (''keygen failed: '' @ err) [(''name'', JStr name)], s)
         | (Inr pub, s) \<Rightarrow>
             let pubHex = hexEncode pub; info = request_info (Args req)
             in case register_conflict e name pid info s of
                  Some r \<Rightarrow> (r, s)
                | None \<Rightarrow>
                    let a = registered e name pid pubHex info (strVal (Args req) ''role'') (agentByName s name);
                        s = indexAgent a s;
                        s = persistAgent a s
                    in (okResponse (JObj [(''name'', JStr name), (''agent_id'', JStr (ag_AgentID a)),
                          (''expires_at'', JStr (rfc3339 (ag_ExpiresAt a))), (''pubkey'', JStr pubHex),
                          (''role'', JStr (ag_Role a))]), s))"

section \<open>Unregistering, renewing, sweeping\<close>

definition not_registered :: "string \<Rightarrow> string \<Rightarrow> response" where
  "not_registered hint from = not_found ''not_registered'' hint (''not registered: '' @ from) [(''from'', JStr from)]"

definition busy_with :: "string \<Rightarrow> state \<Rightarrow> (string \<times> task) option" where
  \<comment> \<open>a project and an unmerged task of it that \<open>from\<close> supervises\<close>
  "busy_with from s =
     find (\<lambda>(p, t). t_Status t \<noteq> statusMerged)
       (concat (map (\<lambda>(p, tl). map (Pair p) (tl_Tasks tl)) (filter (\<lambda>(p, tl). tl_Supervisor tl = from) (tasks s))))"

definition release_all :: "string list \<Rightarrow> string \<Rightarrow> state \<Rightarrow> state" where
  \<comment> \<open>\<^verbatim>\<open>releaseWaiter\<close> of each name on each of its channels\<close>
  "release_all names reason s =
     fold (\<lambda>k. fold (\<lambda>name s. case map_of (channels s) k of
         None \<Rightarrow> s
       | Some c \<Rightarrow> if is_peer c name then releaseWaiter k c name reason s else s) names)
       (map fst (channels s)) s"

definition evict_rooms :: "string list \<Rightarrow> state \<Rightarrow> state" where
  \<comment> \<open>\<^verbatim>\<open>removeMembers\<close> on every room, and the new member list written where it changed\<close>
  "evict_rooms names s =
     fold (\<lambda>n s. case map_of (rooms s) n of
         None \<Rightarrow> s
       | Some r \<Rightarrow> (case removeMembers names r of
           (changed, r) \<Rightarrow> let s = put_room n r s in if changed then persistRoomMembers r s else s))
       (map fst (rooms s)) s"

definition opUnregister :: "env \<Rightarrow> request \<Rightarrow> state \<Rightarrow> response \<times> state" where
  "opUnregister e req s =
     (let from = strVal (Args req) ''from''
      in if from = [] then (missing_from, s)
         else case agentByName s from of
           None \<Rightarrow> (not_registered ''run lalia register before unregister'' from, s)
         | Some a \<Rightarrow>
             (case busy_with from s of
                Some (pid, t) \<Rightarrow> (errorResponse CodeSupervisorBusy ''supervisor_busy''
                  ''run lalia task handoff <agent> first to transfer ownership''
                  (''supervisor still owns active tasks in project '' @ pid)
                  [(''project'', JStr pid), (''slug'', JStr (t_Slug t))], s)
              | None \<Rightarrow>
                  let s = unindexAgent (ag_AgentID a) s;
                      s = s\<lparr>anyWaiter := AList.delete from (anyWaiter s)\<rparr>;
                      s = release_all [from] ''unregistered'' s;
                      s = evict_rooms [from] s;
                      s = removeAgentFile (ag_AgentID a) s;
                      s = removeKey from s
                  in (okResponse (JObj [(''name'', JStr from)]), s)))"

definition opRenew :: "env \<Rightarrow> request \<Rightarrow> state \<Rightarrow> response \<times> state" where
  "opRenew e req s =
     (let from = strVal (Args req) ''from''
      in if from = [] then (missing_from, s)
         else case agentByName s from of
           None \<Rightarrow> (not_registered ''run lalia register before renew'' from, s)
         | Some a \<Rightarrow> (okResponse (JObj [(''expires_at'', JStr (rfc3339 (ag_ExpiresAt (renewed e a))))]),
               persistAgent (renewed e a) (put_agent (renewed e a) s)))"

definition expired :: "env \<Rightarrow> agent \<Rightarrow> bool" where
  "expired e a \<longleftrightarrow> ag_ExpiresAt a < now e"

definition sweep :: "env \<Rightarrow> state \<Rightarrow> state" where
  "sweep e s =
     (let dead = filter (\<lambda>(i, a). expired e a) (agents s);
          ids = map fst dead;
          names = remdups (map (\<lambda>(i, a). ag_Name a) dead)
      in if ids = [] then s
         else let s = fold unindexAgent ids s;
                  s = release_all names ''lease expired'' s;
                  s = evict_rooms names s
              in fold removeAgentFile ids s)"

section \<open>Listing\<close>

definition agent_json :: "env \<Rightarrow> agent \<Rightarrow> json" where
  "agent_json e a = JObj
     [(''agent_id'', JStr (ag_AgentID a)), (''name'', JStr (ag_Name a)), (''qualified'', JStr (qualifiedName a)),
      (''role'', JStr (ag_Role a)), (''harness'', JStr (ag_Harness a)), (''model'', JStr (ag_Model a)),
      (''project'', JStr (ag_Project a)), (''repo_url'', JStr (ag_RepoURL a)), (''repo_root'', JStr (ag_RepoRoot a)),
      (''main_repo_root'', JStr (ag_MainRepoRoot a)), (''worktree_kind'', JStr (ag_WorktreeKind a)),
      (''worktree'', JStr (ag_Worktree a)), (''branch'', JStr (ag_Branch a)), (''cwd'', JStr (ag_CWD a)),
      (''pid'', JNum (ag_PID a)), (''started_at'', JStr (rfc3339 (ag_StartedAt a))),
      (''last_seen_at'', JStr (rfc3339 (ag_LastSeenAt a))), (''expires_at'', JStr (rfc3339 (ag_ExpiresAt a))),
      (''lease_status'', JStr (if live e a then ''live'' else ''expired'')), (''live'', JBool (live e a))]"

definition opAgents :: "env \<Rightarrow> state \<Rightarrow> response" where
  "opAgents e s = okResponse (JArr (map (agent_json e) (map snd (agents s))))"

definition opResolve :: "env \<Rightarrow> request \<Rightarrow> state \<Rightarrow> response" where
  "opResolve e req s =
     (let address = strVal (Args req) ''address''
      in if address = [] then
           errorResponse CodeError ''missing_address'' ''pass an address to resolve'' ''address required'' []
         else case ResolveAddress e address s of
           Inl err \<Rightarrow> not_found ''address_not_found'' ''check `lalia agents` or nicknames'' (addrError_text err)
             [(''address'', JStr address)]
         | Inr i \<Rightarrow> okResponse (JObj [(''agent_id'', JStr i)]))"

section \<open>What the pieces leave alone\<close>

lemma persistAgent_frame [frame, simp]:
  "agents (persistAgent a s) = agents s" "nameIdx (persistAgent a s) = nameIdx s"
  "channels (persistAgent a s) = channels s" "rooms (persistAgent a s) = rooms s"
  "tasks (persistAgent a s) = tasks s" "anyWaiter (persistAgent a s) = anyWaiter s"
  "bufs (persistAgent a s) = bufs s" "blocked (persistAgent a s) = blocked s"
  "next_chan (persistAgent a s) = next_chan s" "files (persistAgent a s) = files s"
  "keys (persistAgent a s) = keys s" "qbox (persistAgent a s) = qbox s"
  "chan_inv s \<Longrightarrow> chan_inv (persistAgent a s)"
  by (simp_all add: persistAgent_def chan_inv_enqueueWrite)

lemma removeAgentFile_frame [frame, simp]:
  "agents (removeAgentFile i s) = agents s" "nameIdx (removeAgentFile i s) = nameIdx s"
  "channels (removeAgentFile i s) = channels s" "rooms (removeAgentFile i s) = rooms s"
  "tasks (removeAgentFile i s) = tasks s" "anyWaiter (removeAgentFile i s) = anyWaiter s"
  "bufs (removeAgentFile i s) = bufs s" "blocked (removeAgentFile i s) = blocked s"
  "next_chan (removeAgentFile i s) = next_chan s" "keys (removeAgentFile i s) = keys s"
  "qbox (removeAgentFile i s) = qbox s" "live_store (removeAgentFile i s) = live_store s"
  by (simp_all add: removeAgentFile_def)

lemma put_agent_frame [frame, simp]:
  "nameIdx (put_agent a s) = nameIdx s" "channels (put_agent a s) = channels s"
  "rooms (put_agent a s) = rooms s" "tasks (put_agent a s) = tasks s" "anyWaiter (put_agent a s) = anyWaiter s"
  "bufs (put_agent a s) = bufs s" "blocked (put_agent a s) = blocked s" "next_chan (put_agent a s) = next_chan s"
  "files (put_agent a s) = files s" "keys (put_agent a s) = keys s" "qbox (put_agent a s) = qbox s"
  "live_store (put_agent a s) = live_store s" "agents (put_agent a s) = AList.update (ag_AgentID a) a (agents s)"
  by (simp_all add: put_agent_def)

lemma indexAgent_frame [frame, simp]:
  "channels (indexAgent a s) = channels s"
  "rooms (indexAgent a s) = rooms s" "tasks (indexAgent a s) = tasks s" "anyWaiter (indexAgent a s) = anyWaiter s"
  "bufs (indexAgent a s) = bufs s" "blocked (indexAgent a s) = blocked s" "next_chan (indexAgent a s) = next_chan s"
  "files (indexAgent a s) = files s" "keys (indexAgent a s) = keys s" "qbox (indexAgent a s) = qbox s"
  "live_store (indexAgent a s) = live_store s"
  by (simp_all add: indexAgent_def)

lemma unindexAgent_frame [frame, simp]:
  "channels (unindexAgent i s) = channels s"
  "rooms (unindexAgent i s) = rooms s" "tasks (unindexAgent i s) = tasks s" "anyWaiter (unindexAgent i s) = anyWaiter s"
  "bufs (unindexAgent i s) = bufs s" "blocked (unindexAgent i s) = blocked s" "next_chan (unindexAgent i s) = next_chan s"
  "files (unindexAgent i s) = files s" "keys (unindexAgent i s) = keys s" "qbox (unindexAgent i s) = qbox s"
  "live_store (unindexAgent i s) = live_store s"
  by (simp_all add: unindexAgent_def Let_def split: option.split)

lemma releaseWaiter_frame [frame, simp]:
  "agents (releaseWaiter k c n w s) = agents s" "nameIdx (releaseWaiter k c n w s) = nameIdx s"
  "rooms (releaseWaiter k c n w s) = rooms s" "tasks (releaseWaiter k c n w s) = tasks s"
  "anyWaiter (releaseWaiter k c n w s) = anyWaiter s" "files (releaseWaiter k c n w s) = files s"
  "keys (releaseWaiter k c n w s) = keys s" "blocked (releaseWaiter k c n w s) = blocked s"
  "next_chan (releaseWaiter k c n w s) = next_chan s"
  by (simp_all add: releaseWaiter_def split: option.split)

lemma release_all_frame [frame, simp]:
  "agents (release_all ns w s) = agents s" "nameIdx (release_all ns w s) = nameIdx s"
  "rooms (release_all ns w s) = rooms s" "tasks (release_all ns w s) = tasks s"
  "anyWaiter (release_all ns w s) = anyWaiter s" "files (release_all ns w s) = files s"
  "keys (release_all ns w s) = keys s"
  unfolding release_all_def
  by (intro fold_same, simp split: option.split)+

lemma persistRoomMembers_frame [frame, simp]:
  "agents (persistRoomMembers r s) = agents s" "nameIdx (persistRoomMembers r s) = nameIdx s"
  "channels (persistRoomMembers r s) = channels s" "rooms (persistRoomMembers r s) = rooms s"
  "tasks (persistRoomMembers r s) = tasks s" "anyWaiter (persistRoomMembers r s) = anyWaiter s"
  "files (persistRoomMembers r s) = files s" "keys (persistRoomMembers r s) = keys s"
  "bufs (persistRoomMembers r s) = bufs s" "blocked (persistRoomMembers r s) = blocked s"
  "next_chan (persistRoomMembers r s) = next_chan s" "qbox (persistRoomMembers r s) = qbox s"
  by (simp_all add: persistRoomMembers_def)

lemma evict_rooms_frame [frame, simp]:
  "agents (evict_rooms ns s) = agents s" "nameIdx (evict_rooms ns s) = nameIdx s"
  "channels (evict_rooms ns s) = channels s" "tasks (evict_rooms ns s) = tasks s"
  "anyWaiter (evict_rooms ns s) = anyWaiter s" "files (evict_rooms ns s) = files s"
  "keys (evict_rooms ns s) = keys s" "bufs (evict_rooms ns s) = bufs s"
  unfolding evict_rooms_def
  by (intro fold_same, simp add: Let_def split: option.split prod.split)+

lemma ensureKey_frame:
  assumes "ensureKey e n s = (res, s')"
  shows "agents s' = agents s" "nameIdx s' = nameIdx s" "channels s' = channels s" "rooms s' = rooms s"
    "tasks s' = tasks s" "anyWaiter s' = anyWaiter s" "files s' = files s" "qbox s' = qbox s"
    "live_store s' = live_store s" "bufs s' = bufs s" "blocked s' = blocked s" "next_chan s' = next_chan s"
    "writes s' = writes s" "queue s' = queue s"
  using assms by (auto simp: ensureKey_def split: option.splits)

lemma agentByName_cong: "agents s' = agents s \<Longrightarrow> nameIdx s' = nameIdx s \<Longrightarrow> agentByName s' = agentByName s"
  by (intro ext) (simp add: agentByName_def split: option.split)

section \<open>The registry invariant\<close>

text \<open>
  Agents are filed under their identifier, and \<open>nameIdx\<close> is exactly the inverse of their
  names: a name has at most one agent.
\<close>

definition wf_registry :: "state \<Rightarrow> bool" where
  "wf_registry s \<longleftrightarrow> agents_ok s \<and> keys_ok (nameIdx s)
     \<and> (\<forall>n i. map_of (nameIdx s) n = Some i \<longleftrightarrow> (\<exists>a. map_of (agents s) i = Some a \<and> ag_Name a = n))"

lemma wf_registry_cong:
  "agents s' = agents s \<Longrightarrow> nameIdx s' = nameIdx s \<Longrightarrow> wf_registry s' = wf_registry s"
  by (simp add: wf_registry_def agents_ok_def)

lemma wf_registryD:
  assumes "wf_registry s"
  shows "keys_ok (agents s)" "keys_ok (nameIdx s)" "map_of (agents s) i = Some a \<Longrightarrow> ag_AgentID a = i"
    "map_of (agents s) i = Some a \<Longrightarrow> map_of (nameIdx s) (ag_Name a) = Some i"
    "map_of (nameIdx s) n = Some i \<Longrightarrow> \<exists>a. map_of (agents s) i = Some a \<and> ag_Name a = n"
  using assms by (auto simp: wf_registry_def agents_ok_def)

lemma wf_registryI:
  assumes "keys_ok (agents s)" "keys_ok (nameIdx s)" "\<And>i a. map_of (agents s) i = Some a \<Longrightarrow> ag_AgentID a = i"
    "\<And>n i. map_of (nameIdx s) n = Some i \<longleftrightarrow> (\<exists>a. map_of (agents s) i = Some a \<and> ag_Name a = n)"
  shows "wf_registry s"
  using assms by (simp add: wf_registry_def agents_ok_def)

lemma wf_registry_names:
  "wf_registry s \<Longrightarrow> map_of (nameIdx s) n = Some i \<longleftrightarrow> (\<exists>a. map_of (agents s) i = Some a \<and> ag_Name a = n)"
  by (simp add: wf_registry_def)

lemma wf_registry_frames [simp]:
  "wf_registry (persistAgent a s) = wf_registry s" "wf_registry (removeAgentFile i s) = wf_registry s"
  "wf_registry (release_all ns w s) = wf_registry s" "wf_registry (evict_rooms ns s) = wf_registry s"
  by (rule wf_registry_cong; simp)+

lemma name_unique:
  assumes "wf_registry s" "map_of (agents s) i = Some a" "map_of (agents s) j = Some b" "ag_Name a = ag_Name b"
  shows "i = j"
  using wf_registryD(4)[OF assms(1,2)] wf_registryD(4)[OF assms(1,3)] assms(4) by simp

lemma agentByName_iff:
  assumes "wf_registry s"
  shows "agentByName s n = Some a \<longleftrightarrow> map_of (agents s) (ag_AgentID a) = Some a \<and> ag_Name a = n"
proof
  assume "agentByName s n = Some a"
  then obtain i where i: "map_of (nameIdx s) n = Some i" "map_of (agents s) i = Some a"
    by (auto simp: agentByName_def split: option.splits)
  then show "map_of (agents s) (ag_AgentID a) = Some a \<and> ag_Name a = n"
    using wf_registryD(3)[OF assms i(2)] wf_registryD(5)[OF assms i(1)] by auto
next
  assume "map_of (agents s) (ag_AgentID a) = Some a \<and> ag_Name a = n"
  then show "agentByName s n = Some a"
    using wf_registryD(4)[OF assms, of "ag_AgentID a" a] by (auto simp: agentByName_def)
qed

lemma agentByName_None:
  assumes "wf_registry s"
  shows "agentByName s n = None \<longleftrightarrow> (\<forall>i a. map_of (agents s) i = Some a \<longrightarrow> ag_Name a \<noteq> n)"
proof -
  have "agentByName s n = None \<longleftrightarrow> (\<nexists>a. agentByName s n = Some a)" by (cases "agentByName s n") auto
  also have "\<dots> \<longleftrightarrow> (\<nexists>a. map_of (agents s) (ag_AgentID a) = Some a \<and> ag_Name a = n)"
    by (simp add: agentByName_iff[OF assms])
  also have "\<dots> \<longleftrightarrow> (\<forall>i a. map_of (agents s) i = Some a \<longrightarrow> ag_Name a \<noteq> n)"
    using wf_registryD(3)[OF assms] by blast
  finally show ?thesis .
qed

lemma wf_put_agent:
  assumes "wf_registry s" "map_of (agents s) (ag_AgentID a) = Some b" "ag_Name a = ag_Name b"
  shows "wf_registry (put_agent a s)"
proof (rule wf_registryI)
  show "map_of (nameIdx (put_agent a s)) n = Some i
      \<longleftrightarrow> (\<exists>c. map_of (agents (put_agent a s)) i = Some c \<and> ag_Name c = n)" for n i
    using wf_registry_names[OF assms(1), of n i] assms(2,3) by auto
qed (use wf_registryD(1,2)[OF assms(1)] in \<open>auto split: if_splits dest: wf_registryD(3)[OF assms(1)]\<close>)

lemma wf_indexAgent:
  assumes wf: "wf_registry s"
    and old: "agentByName s (ag_Name a) = None \<and> map_of (agents s) (ag_AgentID a) = None
      \<or> (\<exists>b. agentByName s (ag_Name a) = Some b \<and> ag_AgentID b = ag_AgentID a)"
  shows "wf_registry (indexAgent a s)"
  using old
proof
  assume n: "agentByName s (ag_Name a) = None \<and> map_of (agents s) (ag_AgentID a) = None"
  then have nn: "\<And>i b. map_of (agents s) i = Some b \<Longrightarrow> ag_Name b \<noteq> ag_Name a"
    using agentByName_None[OF wf] by blast
  show ?thesis
  proof (rule wf_registryI)
    show "map_of (nameIdx (indexAgent a s)) m = Some i
        \<longleftrightarrow> (\<exists>c. map_of (agents (indexAgent a s)) i = Some c \<and> ag_Name c = m)" for m i
      using wf_registry_names[OF wf, of m i] nn[of i] n by (auto simp: indexAgent_def)
  qed (use wf_registryD(1,2)[OF wf] in \<open>auto simp: indexAgent_def split: if_splits dest: wf_registryD(3)[OF wf]\<close>)
next
  assume "\<exists>b. agentByName s (ag_Name a) = Some b \<and> ag_AgentID b = ag_AgentID a"
  then obtain b where b: "map_of (agents s) (ag_AgentID a) = Some b" "ag_Name b = ag_Name a"
    using agentByName_iff[OF wf] by metis
  have nm: "map_of (nameIdx s) (ag_Name a) = Some (ag_AgentID a)" using wf_registryD(4)[OF wf b(1)] b(2) by simp
  have uniq: "\<And>i c. map_of (agents s) i = Some c \<Longrightarrow> ag_Name c = ag_Name a \<Longrightarrow> i = ag_AgentID a"
    using name_unique[OF wf _ b(1)] b(2) by simp
  show ?thesis
  proof (rule wf_registryI)
    show "map_of (nameIdx (indexAgent a s)) n = Some i
        \<longleftrightarrow> (\<exists>c. map_of (agents (indexAgent a s)) i = Some c \<and> ag_Name c = n)" for n i
    proof (cases "i = ag_AgentID a")
      case True
      then show ?thesis using b nm wf_registry_names[OF wf, of n i] by (auto simp: indexAgent_def)
    next
      case False
      then have "\<not> (\<exists>c. map_of (agents s) i = Some c \<and> ag_Name c = ag_Name a)" using uniq by blast
      then show ?thesis using False wf_registry_names[OF wf, of n i] by (auto simp: indexAgent_def)
    qed
  qed (use wf_registryD(1,2)[OF wf] in \<open>auto simp: indexAgent_def split: if_splits dest: wf_registryD(3)[OF wf]\<close>)
qed

lemma unindexAgent_eq:
  assumes "wf_registry s" "map_of (agents s) i = Some a"
  shows "unindexAgent i s = s\<lparr>agents := AList.delete i (agents s), nameIdx := AList.delete (ag_Name a) (nameIdx s)\<rparr>"
  using wf_registryD(4)[OF assms] assms(2) by (simp add: unindexAgent_def get_or_def)

lemma wf_unindexAgent:
  assumes wf: "wf_registry s"
  shows "wf_registry (unindexAgent i s)"
proof (cases "map_of (agents s) i")
  case None
  then show ?thesis using wf by (simp add: unindexAgent_def)
next
  case (Some a)
  have uniq: "\<And>j b. map_of (agents s) j = Some b \<Longrightarrow> ag_Name b = ag_Name a \<Longrightarrow> j = i"
    using name_unique[OF wf _ Some] by blast
  show ?thesis unfolding unindexAgent_eq[OF wf Some]
  proof (rule wf_registryI)
    let ?s = "s\<lparr>agents := AList.delete i (agents s), nameIdx := AList.delete (ag_Name a) (nameIdx s)\<rparr>"
    show "map_of (nameIdx ?s) n = Some j \<longleftrightarrow> (\<exists>c. map_of (agents ?s) j = Some c \<and> ag_Name c = n)" for n j
    proof (cases "j = i")
      case True
      then show ?thesis using Some wf_registry_names[OF wf, of n j] by auto
    next
      case False
      then have "\<not> (\<exists>c. map_of (agents s) j = Some c \<and> ag_Name c = ag_Name a)" using uniq by blast
      then show ?thesis using False wf_registry_names[OF wf, of n j] by auto
    qed
  qed (use wf_registryD(1,2)[OF wf] in \<open>auto split: if_splits dest: wf_registryD(3)[OF wf]\<close>)
qed

lemma agents_unindexAgent:
  "map_of (agents (unindexAgent i s)) = (map_of (agents s))(i := None)"
  by (auto simp: unindexAgent_def Let_def fun_eq_iff split: option.split)

lemma renewed_sel [simp]: "ag_AgentID (renewed e a) = ag_AgentID a" "ag_Name (renewed e a) = ag_Name a"
  "ag_ExpiresAt (renewed e a) = now e + leaseTTL" "ag_PID (renewed e a) = ag_PID a"
  "ag_Pubkey (renewed e a) = ag_Pubkey a" "ag_Role (renewed e a) = ag_Role a"
  by (simp_all add: renewed_def)

lemma renewLease_wf: "wf_registry s \<Longrightarrow> wf_registry (renewLease e n s)"
proof (cases "n = [] \<or> agentByName s n = None")
  case False
  assume wf: "wf_registry s"
  then obtain a where "agentByName s n = Some a" "n \<noteq> []" using False by auto
  moreover from this have "wf_registry (put_agent (renewed e a) s)"
    using wf agentByName_iff[OF wf] by (auto intro: wf_put_agent)
  ultimately show ?thesis by (simp add: renewLease_def)
qed (auto simp: renewLease_def)

lemma opRenew_wf:
  assumes wf: "wf_registry s"
  shows "wf_registry (snd (opRenew e req s))"
proof (cases "strVal (Args req) ''from'' = [] \<or> agentByName s (strVal (Args req) ''from'') = None")
  case False
  then obtain a where a: "agentByName s (strVal (Args req) ''from'') = Some a" by auto
  then have "wf_registry (put_agent (renewed e a) s)"
    using wf agentByName_iff[OF wf] by (auto intro: wf_put_agent)
  then show ?thesis using a False by (simp add: opRenew_def)
qed (use wf in \<open>auto simp: opRenew_def Let_def\<close>)

lemma registered_sel [simp]:
  "ag_PID (registered e n p h info ro old) = p" "ag_Pubkey (registered e n p h info ro old) = h"
  "ag_ExpiresAt (registered e n p h info ro old) = now e + leaseTTL"
  "ag_AgentID (registered e n p h info ro old) = (case old of None \<Rightarrow> newID e | Some a \<Rightarrow> ag_AgentID a)"
  "ag_Name (registered e n p h info ro old) = (case old of None \<Rightarrow> n | Some a \<Rightarrow> ag_Name a)"
  by (simp_all add: registered_def Let_def apply_info_def split: option.split)

text \<open>The three ways a registration ends.\<close>

lemma register_conflict_refuses: "register_conflict e n p info s = Some r \<Longrightarrow> \<not> OK r"
  by (auto simp: register_conflict_def session_conflict_def pid_conflict_def split: option.splits if_splits)

lemma opRegister_cases:
  assumes "opRegister e req s = (resp, s')"
  obtains (refused) "\<not> OK resp" "agents s' = agents s" "nameIdx s' = nameIdx s" "rooms s' = rooms s"
      "channels s' = channels s" "anyWaiter s' = anyWaiter s" "qbox s' = qbox s" "live_store s' = live_store s"
      "tasks s' = tasks s" "bufs s' = bufs s" "writes s' = writes s" "files s' = files s"
  | (accepted) s1 pub a where "ensureKey e (strVal (Args req) ''name'') s = (Inr pub, s1)"
      "register_conflict e (strVal (Args req) ''name'') (numVal (Args req) ''pid'') (request_info (Args req)) s1 = None"
      "a = registered e (strVal (Args req) ''name'') (numVal (Args req) ''pid'') (hexEncode pub)
         (request_info (Args req)) (strVal (Args req) ''role'') (agentByName s1 (strVal (Args req) ''name''))"
      "s' = persistAgent a (indexAgent a s1)" "OK resp" "strVal (Args req) ''name'' \<noteq> []"
proof -
  let ?n = "strVal (Args req) ''name''"
  obtain res s1 where k: "ensureKey e ?n s = (res, s1)" by fastforce
  note fr = ensureKey_frame[OF k]
  consider "?n = []" | err where "?n \<noteq> []" "res = Inl err" | pub where "?n \<noteq> []" "res = Inr pub"
    by (cases res) auto
  then show thesis
  proof cases
    case 1
    then show thesis using assms by (intro refused) (auto simp: opRegister_def)
  next
    case 2
    then show thesis using assms k fr by (intro refused) (auto simp: opRegister_def)
  next
    case (3 pub)
    show thesis
    proof (cases "register_conflict e ?n (numVal (Args req) ''pid'') (request_info (Args req)) s1")
      case None
      then show thesis using assms k 3 by (intro accepted) (auto simp: opRegister_def Let_def)
    next
      case (Some r)
      then have "resp = r" "s' = s1" using assms k 3 by (auto simp: opRegister_def Let_def)
      then show thesis using fr register_conflict_refuses[OF Some] by (intro refused) auto
    qed
  qed
qed

lemma opRegister_wf:
  assumes wf: "wf_registry s" and fresh: "map_of (agents s) (newID e) = None"
  shows "wf_registry (snd (opRegister e req s))"
proof -
  obtain resp s' where r: "opRegister e req s = (resp, s')" by fastforce
  from r show ?thesis
  proof (cases rule: opRegister_cases)
    case refused
    then show ?thesis using wf wf_registry_cong[of s' s] r by simp
  next
    case (accepted s1 pub a)
    note fr = ensureKey_frame[OF accepted(1)]
    have wf1: "wf_registry s1" using wf wf_registry_cong[OF fr(1,2)] by simp
    have by_name: "agentByName s1 n = Some b \<Longrightarrow> ag_Name b = n" for n b using agentByName_iff[OF wf1] by blast
    have "wf_registry (indexAgent a s1)"
    proof (rule wf_indexAgent[OF wf1], cases "agentByName s1 (strVal (Args req) ''name'')")
      case None
      then have "ag_Name a = strVal (Args req) ''name''" "ag_AgentID a = newID e" by (simp_all add: accepted(3))
      then show "agentByName s1 (ag_Name a) = None \<and> map_of (agents s1) (ag_AgentID a) = None
          \<or> (\<exists>b. agentByName s1 (ag_Name a) = Some b \<and> ag_AgentID b = ag_AgentID a)"
        using None fresh fr(1) by simp
    next
      case (Some b)
      then have "ag_Name a = strVal (Args req) ''name''" "ag_AgentID a = ag_AgentID b"
        using by_name[OF Some] by (simp_all add: accepted(3))
      then show "agentByName s1 (ag_Name a) = None \<and> map_of (agents s1) (ag_AgentID a) = None
          \<or> (\<exists>b. agentByName s1 (ag_Name a) = Some b \<and> ag_AgentID b = ag_AgentID a)"
        using Some by auto
    qed
    then show ?thesis using wf_registry_cong[of "persistAgent a (indexAgent a s1)"] accepted(4) r by simp
  qed
qed

section \<open>Evicting and releasing\<close>

lemma mem_keys: "k \<in> fst ` set m \<longleftrightarrow> map_of m k \<noteq> None"
  by (metis map_of_eq_None_iff)

lemma fold_pointwise:
  assumes "\<And>k s x. x \<noteq> k \<Longrightarrow> get (f k s) x = get s x" "\<And>k s. get (f k s) k = h (get s k)" "distinct ks"
  shows "get (fold f ks s) x = (if x \<in> set ks then h (get s x) else get s x)"
  using assms(3)
proof (induction ks arbitrary: s)
  case (Cons k ks)
  then show ?case using assms(1)[of x k] assms(2)[of k] by (cases "x = k") auto
qed simp

lemma removeMembers_effect:
  "r_Name (snd (removeMembers ns r)) = r_Name r"
  "set (r_members (snd (removeMembers ns r))) = set (r_members r) - set ns"
  "fst (removeMembers ns r) \<longleftrightarrow> (\<exists>n \<in> set ns. n \<in> set (r_members r))"
  "x \<notin> set ns \<Longrightarrow> rbox (snd (removeMembers ns r)) x = rbox r x"
  "x \<in> set ns \<Longrightarrow> x \<in> set (r_members r) \<Longrightarrow> rbox (snd (removeMembers ns r)) x = []"
proof (induction ns r rule: removeMembers.induct)
  case (2 n ns r)
  {
    case 1 show ?case using 2 by (auto simp: forget_member_def)
  next
    case 2 show ?case using "2.IH" by (auto simp: forget_member_def)
  next
    case 3 show ?case using "2.IH" by (auto simp: forget_member_def)
  next
    case 4 then show ?case using "2.IH" by (auto simp: forget_member_def)
  next
    case 5
    have "rbox (snd (removeMembers ns r')) y = []" if "rbox r' y = []" for r' y
      using that by (induction ns r' rule: removeMembers.induct) (auto simp: forget_member_def)
    then show ?case using 5 "2.IH"(5,10) by (cases "x = n") (auto simp: forget_member_def)
  }
qed simp_all

lemma evict_rooms_room:
  assumes "keys_ok (rooms s)"
  shows "map_of (rooms (evict_rooms ns s)) n = map_option (\<lambda>r. snd (removeMembers ns r)) (map_of (rooms s) n)"
proof -
  let ?f = "\<lambda>n s. case map_of (rooms s) n of None \<Rightarrow> s
     | Some r \<Rightarrow> (case removeMembers ns r of (changed, r) \<Rightarrow>
         let s = put_room n r s in if changed then persistRoomMembers r s else s)"
  have "map_of (rooms (fold ?f (map fst (rooms s)) s)) n =
      (if n \<in> set (map fst (rooms s)) then map_option (\<lambda>r. snd (removeMembers ns r)) (map_of (rooms s) n)
       else map_of (rooms s) n)"
    using assms unfolding keys_ok_def
    by (intro fold_pointwise[where get = "\<lambda>s. map_of (rooms s)"])
      (auto simp: Let_def split: option.split prod.split)
  then show ?thesis by (cases "map_of (rooms s) n") (simp_all add: evict_rooms_def mem_keys)
qed

lemma evict_rooms_keeps: "both_inv s \<Longrightarrow> both_inv (evict_rooms ns s)"
  unfolding evict_rooms_def
proof (rule fold_keeps)
  fix n s assume inv: "both_inv s"
  have "both_inv (put_room n (snd (removeMembers ns r)) s)" if "map_of (rooms s) n = Some r" for r
    using both_invD[OF inv that] removeMembers_ok inv by (intro both_inv_put_room) auto
  then show "both_inv (case map_of (rooms s) n of None \<Rightarrow> s
     | Some r \<Rightarrow> (case removeMembers ns r of (changed, r) \<Rightarrow>
         let s = put_room n r s in if changed then persistRoomMembers r s else s))"
    using inv by (auto simp: Let_def split: option.split prod.split)
qed

lemma release_all_keeps:
  assumes "both_inv s"
  shows "both_inv (release_all ns w s)"
proof -
  have "chan_inv (release_all ns w s)"
    unfolding release_all_def
  proof (intro fold_keeps[where P = chan_inv])
    show "chan_inv s" using assms by (simp add: both_inv_def)
  next
    fix k n s assume "chan_inv s"
    then show "chan_inv (case map_of (channels s) k of None \<Rightarrow> s
        | Some c \<Rightarrow> if is_peer c n then releaseWaiter k c n w s else s)"
      by (auto intro: releaseWaiter_keeps split: option.split)
  qed
  then show ?thesis using assms rooms_inv_frame[of s "release_all ns w s"] by (simp add: both_inv_def)
qed

text \<open>What the name has blocked is released.\<close>

lemma releaseWaiter_channels:
  "map_of (channels s) k = Some c \<Longrightarrow>
   map_of (channels (releaseWaiter k c n w s)) = (map_of (channels s))(k \<mapsto> c\<lparr>c_waiter := AList.delete n (c_waiter c)\<rparr>)"
  by (auto simp: releaseWaiter_def fun_eq_iff delete_id map_of_eq_None_iff split: option.split)

lemma release_all_one:
  assumes "keys_ok (channels s)"
  shows "map_of (channels (release_all [n] w s)) k =
    map_option (\<lambda>c. if is_peer c n then c\<lparr>c_waiter := AList.delete n (c_waiter c)\<rparr> else c) (map_of (channels s) k)"
proof -
  let ?f = "\<lambda>k s. case map_of (channels s) k of None \<Rightarrow> s
      | Some c \<Rightarrow> if is_peer c n then releaseWaiter k c n w s else s"
  have "map_of (channels (fold ?f (map fst (channels s)) s)) k =
      (if k \<in> set (map fst (channels s))
       then map_option (\<lambda>c. if is_peer c n then c\<lparr>c_waiter := AList.delete n (c_waiter c)\<rparr> else c) (map_of (channels s) k)
       else map_of (channels s) k)"
    using assms unfolding keys_ok_def
    by (intro fold_pointwise[where get = "\<lambda>s. map_of (channels s)"])
      (auto simp: releaseWaiter_channels split: option.split)
  then show ?thesis
    by (cases "map_of (channels s) k") (simp_all add: release_all_def comp_def mem_keys)
qed

lemma bufs_grow:
  "v \<in> set (bufs s ch) \<Longrightarrow> v \<in> set (bufs (release_all ns w s) ch)"
  unfolding release_all_def
  by (intro fold_keeps[where P = "\<lambda>s. v \<in> set (bufs s ch)"])
    (auto simp: releaseWaiter_def split: option.split)

lemma release_all_signals:
  assumes "keys_ok (channels s)" "map_of (channels s) k = Some c" "is_peer c n" "map_of (c_waiter c) n = Some ch"
  shows "PayWait \<lparr>w_msg = None, w_err = w, w_code = CodePeerClosed\<rparr> \<in> set (bufs (release_all [n] w s) ch)"
proof -
  let ?f = "\<lambda>k s. case map_of (channels s) k of None \<Rightarrow> s
      | Some c \<Rightarrow> if is_peer c n then releaseWaiter k c n w s else s"
  let ?v = "PayWait \<lparr>w_msg = None, w_err = w, w_code = CodePeerClosed\<rparr>"
  have "k \<in> set (map fst (channels s))" using assms(2) by (auto dest: map_of_SomeD intro!: image_eqI)
  moreover have "?v \<in> set (bufs (fold ?f ks t) ch)"
    if "distinct ks" "k \<in> set ks" "map_of (channels t) k = Some c" for ks t
    using that
  proof (induction ks arbitrary: t)
    case (Cons x ks)
    show ?case
    proof (cases "x = k")
      case True
      have "?v \<in> set (bufs (?f k t) ch)"
        using Cons.prems(3) assms(3,4) by (simp add: releaseWaiter_def)
      then have "?v \<in> set (bufs (fold ?f ks (?f k t)) ch)"
        by (intro fold_keeps[where P = "\<lambda>s. ?v \<in> set (bufs s ch)"])
          (auto simp: releaseWaiter_def split: option.split)
      then show ?thesis using True by simp
    next
      case False
      then have "map_of (channels (?f x t)) k = Some c"
        using Cons.prems(3) by (auto simp: releaseWaiter_channels split: option.split)
      then show ?thesis using Cons False by simp
    qed
  qed simp
  ultimately show ?thesis using assms(1,2) by (simp add: release_all_def comp_def keys_ok_def)
qed

section \<open>The handlers keep the invariants\<close>

lemma both_inv_frame:
  assumes "both_inv s" "rooms s' = rooms s" "channels s' = channels s" "qbox s' = qbox s"
    "live_store s' \<Longrightarrow> live_store s"
  shows "both_inv s'"
proof -
  have "chan_inv s'" by (rule chan_inv_frame[of s]) (use assms in \<open>auto simp: both_inv_def\<close>)
  then show ?thesis using assms(1,2) rooms_inv_frame[of s s'] by (simp add: both_inv_def)
qed

lemma both_inv_persistAgent [simp]: "both_inv s \<Longrightarrow> both_inv (persistAgent a s)"
  by (simp add: persistAgent_def)

lemma both_inv_registry [simp]:
  "both_inv s \<Longrightarrow> both_inv (put_agent a s)" "both_inv s \<Longrightarrow> both_inv (indexAgent a s)"
  "both_inv s \<Longrightarrow> both_inv (unindexAgent i s)" "both_inv s \<Longrightarrow> both_inv (removeAgentFile i s)"
  "both_inv s \<Longrightarrow> both_inv (removeKey n s)" "both_inv s \<Longrightarrow> both_inv (s\<lparr>anyWaiter := w\<rparr>)"
  by (erule both_inv_frame; simp add: removeKey_def)+

lemma renewLease_keeps: "both_inv s \<Longrightarrow> both_inv (renewLease e n s)"
  by (simp add: renewLease_def split: option.split)

lemma opRenew_keeps: "both_inv s \<Longrightarrow> both_inv (snd (opRenew e req s))"
  by (simp add: opRenew_def Let_def split: option.split)

lemma opRegister_keeps:
  assumes "both_inv s"
  shows "both_inv (snd (opRegister e req s))"
proof -
  obtain resp s' where r: "opRegister e req s = (resp, s')" by fastforce
  from r show ?thesis
  proof (cases rule: opRegister_cases)
    case refused
    then show ?thesis using both_inv_frame[OF assms, of s'] r by simp
  next
    case (accepted s1 pub a)
    then have "both_inv s1" using ensureKey_frame[OF accepted(1)] both_inv_frame[OF assms, of s1] by simp
    then show ?thesis using accepted(4) r by simp
  qed
qed

lemma opUnregister_accepted:
  assumes "agentByName s from = Some a" "busy_with from s = None" "from \<noteq> []" "strVal (Args req) ''from'' = from"
  shows "opUnregister e req s = (okResponse (JObj [(''name'', JStr from)]),
    removeKey from (removeAgentFile (ag_AgentID a) (evict_rooms [from] (release_all [from] ''unregistered''
      (unindexAgent (ag_AgentID a) s\<lparr>anyWaiter := AList.delete from (anyWaiter s)\<rparr>)))))"
  using assms by (simp add: opUnregister_def Let_def)

lemma opUnregister_refused:
  assumes "strVal (Args req) ''from'' = [] \<or> agentByName s (strVal (Args req) ''from'') = None
    \<or> busy_with (strVal (Args req) ''from'') s \<noteq> None"
  shows "snd (opUnregister e req s) = s"
  using assms by (auto simp: opUnregister_def Let_def split: option.split)

lemma opUnregister_keeps:
  assumes "both_inv s"
  shows "both_inv (snd (opUnregister e req s))"
proof (cases "strVal (Args req) ''from'' = [] \<or> agentByName s (strVal (Args req) ''from'') = None
    \<or> busy_with (strVal (Args req) ''from'') s \<noteq> None")
  case True
  then show ?thesis using opUnregister_refused assms by metis
next
  case False
  then obtain a where "agentByName s (strVal (Args req) ''from'') = Some a" by auto
  moreover have "busy_with (strVal (Args req) ''from'') s = None" using False by blast
  ultimately show ?thesis using False assms
    by (simp add: opUnregister_accepted[OF _ _ _ refl] evict_rooms_keeps release_all_keeps)
qed

lemma wf_unregister_frames [simp]:
  "wf_registry (removeKey n s) = wf_registry s" "wf_registry (s\<lparr>anyWaiter := w\<rparr>) = wf_registry s"
  by (rule wf_registry_cong; simp add: removeKey_def)+

lemma opUnregister_wf:
  assumes "wf_registry s"
  shows "wf_registry (snd (opUnregister e req s))"
proof (cases "strVal (Args req) ''from'' = [] \<or> agentByName s (strVal (Args req) ''from'') = None
    \<or> busy_with (strVal (Args req) ''from'') s \<noteq> None")
  case True
  then show ?thesis using opUnregister_refused assms by metis
next
  case False
  then obtain a where "agentByName s (strVal (Args req) ''from'') = Some a" by auto
  moreover have "busy_with (strVal (Args req) ''from'') s = None" using False by blast
  ultimately show ?thesis using False assms
    by (simp add: opUnregister_accepted[OF _ _ _ refl] wf_unindexAgent)
qed

lemma sweep_parts:
  "sweep e s = s \<or> (\<exists>ids names. sweep e s = fold removeAgentFile ids (evict_rooms names
     (release_all names ''lease expired'' (fold unindexAgent ids s))))"
  by (auto simp: sweep_def Let_def)

lemma sweep_keeps: "both_inv s \<Longrightarrow> both_inv (sweep e s)"
proof -
  assume inv: "both_inv s"
  have "both_inv (fold removeAgentFile ids (evict_rooms names
     (release_all names ''lease expired'' (fold unindexAgent ids s))))" for ids names
    by (intro fold_keeps[where P = both_inv] evict_rooms_keeps release_all_keeps) (simp_all add: inv)
  then show ?thesis using sweep_parts[of e s] inv by auto
qed

lemma sweep_wf: "wf_registry s \<Longrightarrow> wf_registry (sweep e s)"
proof -
  assume wf: "wf_registry s"
  have u: "wf_registry (fold unindexAgent ids s)" for ids
    by (intro fold_keeps[where P = wf_registry]) (simp_all add: wf wf_unindexAgent)
  have "wf_registry (fold removeAgentFile ids (evict_rooms names
     (release_all names ''lease expired'' (fold unindexAgent ids s))))" for ids names
    by (intro fold_keeps[where P = wf_registry]) (simp_all add: u)
  then show ?thesis using sweep_parts[of e s] wf by auto
qed

section \<open>Registration, unregistering and expiry\<close>

lemma bare_resolves:
  assumes "wf_registry s" "map_of (nicks e) n = None" "\<not> isULID e n" "CHR ''@'' \<notin> set n"
  shows "resolvePeerName e n s = Inr m \<longleftrightarrow> m = n \<and> agentByName s n \<noteq> None"
proof -
  have am: "address_matches n a \<longleftrightarrow> ag_Name a = n" for a
    using strIndex_char_absent[OF assms(4)] by (simp add: address_matches_def contains_def)
  have ok: "agents_ok s" using assms(1) by (simp add: wf_registry_def)
  have res: "ResolveAddress e n s = Inr i \<longleftrightarrow> (\<exists>a. map_of (agents s) i = Some a \<and> ag_Name a = n)" for i
    using name_unique[OF assms(1)] unfolding resolve_unique_aux[OF ok assms(2,3)] am by blast
  show ?thesis
  proof (cases "agentByName s n")
    case None
    then have "\<And>i. ResolveAddress e n s \<noteq> Inr i" using res agentByName_None[OF assms(1)] by blast
    then show ?thesis using None by (auto simp: resolvePeerName_def split: sum.split)
  next
    case (Some a)
    then have a: "map_of (agents s) (ag_AgentID a) = Some a" "ag_Name a = n"
      using agentByName_iff[OF assms(1)] by blast+
    then have "ResolveAddress e n s = Inr (ag_AgentID a)" using res by blast
    then show ?thesis using a Some by (auto simp: resolvePeerName_def)
  qed
qed

text \<open>A name has at most one agent, and looking it up as an address finds exactly the agent that
  signs and is addressed under that name, whenever the name is not a nickname, not an identifier and
  holds no separator.\<close>

theorem bare_name_resolves:
  assumes "wf_registry s" "map_of (nicks e) n = None" "\<not> isULID e n" "CHR ''@'' \<notin> set n"
  shows "resolvePeerName e n s = Inr m \<longleftrightarrow> m = n \<and> agentByName s n \<noteq> None"
  using assms by (rule bare_resolves)

lemma registered_key:
  assumes "wf_registry s" "map_of (agents s) (newID e) = None" "length (genKey e) = privateKeySize"
    "opRegister e req s = (resp, s')" "OK resp" "strVal (Args req) ''name'' = n"
  shows "\<exists>a priv. agentByName s' n = Some a \<and> key_load (keys s') n = Some priv
    \<and> ag_Pubkey a = hexEncode (pubOf e priv) \<and> ag_ExpiresAt a = now e + leaseTTL
    \<and> (\<forall>b. agentByName s n = Some b \<longrightarrow> ag_AgentID a = ag_AgentID b)
    \<and> (\<forall>m. m \<noteq> n \<longrightarrow> agentByName s' m = agentByName s m)"
  using assms(4)
proof (cases rule: opRegister_cases)
  case refused
  then show ?thesis using assms(5) by simp
next
  case (accepted s1 pub a)
  note fr = ensureKey_frame[OF accepted(1)]
  have same: "agentByName s1 = agentByName s" using fr(1,2) by (rule agentByName_cong)
  obtain priv where k: "key_load (keys s1) n = Some priv" "pub = pubOf e priv"
    using accepted(1) assms(3,6) by (auto simp: ensureKey_def key_load_def key_save_def split: option.splits if_splits)
  have an: "ag_Name a = n"
    using agentByName_iff[OF assms(1)] by (auto simp: accepted(3) same assms(6) split: option.split)
  have wf1: "wf_registry s1" using assms(1) wf_registry_cong[OF fr(1,2)] by simp
  have "agentByName s' m = (if m = n then Some a else agentByName s m)" for m
  proof (cases "m = n")
    case True
    then show ?thesis by (simp add: accepted(4) agentByName_def indexAgent_def an)
  next
    case False
    have "map_of (nameIdx s1) m \<noteq> Some (ag_AgentID a)"
    proof (cases "agentByName s1 n")
      case None
      then have "ag_AgentID a = newID e" by (simp add: accepted(3) assms(6))
      then show ?thesis using assms(2) fr(1) wf_registryD(5)[OF wf1] by fastforce
    next
      case (Some b)
      then have "ag_AgentID a = ag_AgentID b" by (simp add: accepted(3) assms(6))
      moreover have "map_of (agents s1) (ag_AgentID b) = Some b" "ag_Name b = n"
        using Some agentByName_iff[OF wf1] by blast+
      ultimately show ?thesis using False wf_registryD(5)[OF wf1] by fastforce
    qed
    then show ?thesis using False
      by (auto simp: accepted(4) agentByName_def indexAgent_def an fr(1,2) split: option.split)
  qed
  moreover have "keys s' = keys s1" by (simp add: accepted(4))
  ultimately show ?thesis using k by (auto simp: accepted(3) same assms(6))
qed

text \<open>An accepted registration binds the name: its agent carries the public half of the private key
  on file and a fresh lease, keeps its identifier when the name was already registered, and every
  other agent is as before.\<close>

theorem register_binds:
  assumes "wf_registry s" "map_of (agents s) (newID e) = None" "length (genKey e) = privateKeySize"
    "opRegister e req s = (resp, s')" "OK resp" "strVal (Args req) ''name'' = n"
  shows "\<exists>a priv. agentByName s' n = Some a \<and> key_load (keys s') n = Some priv
    \<and> ag_Pubkey a = hexEncode (pubOf e priv) \<and> ag_ExpiresAt a = now e + leaseTTL
    \<and> (\<forall>b. agentByName s n = Some b \<longrightarrow> ag_AgentID a = ag_AgentID b)
    \<and> (\<forall>m. m \<noteq> n \<longrightarrow> agentByName s' m = agentByName s m)"
  using registered_key[OF assms] .

text \<open>After an accepted registration with a process id no other agent with a live lease has that
  process id.\<close>

theorem register_pid_exclusive:
  assumes "wf_registry s" "opRegister e req s = (resp, s')" "OK resp" "numVal (Args req) ''pid'' = pid" "pid \<noteq> 0"
    "map_of (agents s') i = Some b" "ag_PID b = pid" "live e b"
  shows "ag_Name b = strVal (Args req) ''name''"
  using assms(2)
proof (cases rule: opRegister_cases)
  case refused
  then show ?thesis using assms(3) by simp
next
  case (accepted s1 pub a)
  note fr = ensureKey_frame[OF accepted(1)]
  have none: "pid_holder e (strVal (Args req) ''name'') pid s1 = None"
    using accepted(2) assms(4) by (simp add: register_conflict_def split: option.splits)
  show ?thesis
  proof (cases "i = ag_AgentID a")
    case True
    then have "b = a" using assms(6) by (simp add: accepted(4) indexAgent_def)
    then show ?thesis using agentByName_iff[OF assms(1)] agentByName_cong[OF fr(1,2)]
      by (auto simp: accepted(3) split: option.split)
  next
    case False
    then have "map_of (agents s1) i = Some b" using assms(6) by (simp add: accepted(4) indexAgent_def)
    then have "b \<in> set (map snd (agents s1))" by (force dest: map_of_SomeD)
    then show ?thesis using none assms(5,7,8) by (auto simp: pid_holder_def find_None_iff)
  qed
qed

text \<open>While the lease of a name is live, a registration of that name from another harness, or from
  another directory, is refused and leaves the registry and the write queue alone.\<close>

theorem live_session_kept:
  assumes "opRegister e req s = (resp, s')" "agentByName s (strVal (Args req) ''name'') = Some a" "live e a"
    "(strVal (Args req) ''harness'' \<noteq> [] \<and> ag_Harness a \<noteq> [] \<and> strVal (Args req) ''harness'' \<noteq> ag_Harness a)
     \<or> (strVal (Args req) ''cwd'' \<noteq> [] \<and> ag_CWD a \<noteq> [] \<and> strVal (Args req) ''cwd'' \<noteq> ag_CWD a)"
  shows "\<not> OK resp \<and> agents s' = agents s \<and> nameIdx s' = nameIdx s \<and> writes s' = writes s"
  using assms(1)
proof (cases rule: opRegister_cases)
  case (accepted s1 pub b)
  have "agentByName s1 (strVal (Args req) ''name'') = Some a"
    using agentByName_cong[OF ensureKey_frame(1,2)[OF accepted(1)]] assms(2) by simp
  then have "session_conflict (strVal (Args req) ''name'') (request_info (Args req)) a = None"
    using accepted(2) assms(3) by (simp add: register_conflict_def split: option.splits)
  then show ?thesis using assms(4) by (auto simp: session_conflict_def request_info_def split: if_splits)
qed simp

text \<open>A supervisor with a task that is not merged cannot unregister: it is told so, and nothing
  changes.\<close>

theorem unregister_refused_while_busy:
  assumes "agentByName s from = Some a" "(p, l) \<in> set (tasks s)" "tl_Supervisor l = from"
    "t \<in> set (tl_Tasks l)" "t_Status t \<noteq> statusMerged" "strVal (Args req) ''from'' = from" "from \<noteq> []"
  shows "Code (fst (opUnregister e req s)) = CodeSupervisorBusy \<and> snd (opUnregister e req s) = s"
proof -
  have "busy_with from s \<noteq> None"
  proof
    assume "busy_with from s = None"
    then have no: "\<And>x. x \<in> set (concat (map (\<lambda>(p, tl). map (Pair p) (tl_Tasks tl))
        (filter (\<lambda>(p, tl). tl_Supervisor tl = from) (tasks s)))) \<Longrightarrow> \<not> (case x of (p, t) \<Rightarrow> t_Status t \<noteq> statusMerged)"
      unfolding busy_with_def find_None_iff by blast
    have "(p, t) \<in> set (concat (map (\<lambda>(p, tl). map (Pair p) (tl_Tasks tl))
        (filter (\<lambda>(p, tl). tl_Supervisor tl = from) (tasks s))))"
      using assms(2-4) by (auto intro!: bexI[of _ "(p, l)"])
    from no[OF this] show False using assms(5) by simp
  qed
  then obtain q u where "busy_with from s = Some (q, u)" by auto
  then show ?thesis using assms(1,6,7) by (simp add: opUnregister_def codes)
qed

lemma unindexed:
  assumes "wf_registry s" "agentByName s n = Some a"
  shows "agentByName (unindexAgent (ag_AgentID a) s) m = (if m = n then None else agentByName s m)"
proof -
  have a: "map_of (agents s) (ag_AgentID a) = Some a" "ag_Name a = n"
    using agentByName_iff[OF assms(1)] assms(2) by blast+
  have wf: "wf_registry (unindexAgent (ag_AgentID a) s)" using assms(1) by (rule wf_unindexAgent)
  have ag: "map_of (agents (unindexAgent (ag_AgentID a) s)) i = Some b \<longleftrightarrow>
      map_of (agents s) i = Some b \<and> i \<noteq> ag_AgentID a" for i b
    by (simp add: agents_unindexAgent)
  show ?thesis
  proof (cases "m = n")
    case True
    then show ?thesis using agentByName_None[OF wf] name_unique[OF assms(1) a(1)] a(2) by (simp add: ag) blast
  next
    case False
    have "agentByName (unindexAgent (ag_AgentID a) s) m = Some b \<longleftrightarrow> agentByName s m = Some b" for b
      unfolding agentByName_iff[OF wf] agentByName_iff[OF assms(1)] ag using False a by auto
    then show ?thesis using False by (metis option.exhaust)
  qed
qed

text \<open>C25: A successful unregister removes the name from the registry, its registry file, its key file, every
  room's members together with its mailbox there, and its place on every channel, where a blocked read
  is told the peer has gone. Other names keep their agents.\<close>

theorem unregister_forgets:
  assumes "wf_registry s" "keys_ok (rooms s)" "keys_ok (channels s)" "agentByName s from = Some a"
    "busy_with from s = None" "strVal (Args req) ''from'' = from" "from \<noteq> []"
    "opUnregister e req s = (resp, s')"
  shows "OK resp \<and> (\<forall>m. agentByName s' m = (if m = from then None else agentByName s m))
    \<and> map_of (files s') (agent_path (ag_AgentID a)) = None \<and> key_load (keys s') from = None
    \<and> (\<forall>n r. map_of (rooms s') n = Some r \<longrightarrow> from \<notin> set (r_members r))
    \<and> (\<forall>n r. map_of (rooms s) n = Some r \<and> from \<in> set (r_members r) \<longrightarrow>
         (\<exists>r'. map_of (rooms s') n = Some r' \<and> rbox r' from = []))
    \<and> (\<forall>k c ch. map_of (channels s) k = Some c \<and> is_peer c from \<and> map_of (c_waiter c) from = Some ch \<longrightarrow>
         PayWait \<lparr>w_msg = None, w_err = ''unregistered'', w_code = CodePeerClosed\<rparr> \<in> set (bufs s' ch)
         \<and> (\<exists>c'. map_of (channels s') k = Some c' \<and> map_of (c_waiter c') from = None))"
proof -
  let ?s0 = "unindexAgent (ag_AgentID a) s\<lparr>anyWaiter := AList.delete from (anyWaiter s)\<rparr>"
  let ?s1 = "release_all [from] ''unregistered'' ?s0"
  let ?s2 = "evict_rooms [from] ?s1"
  have s': "s' = removeKey from (removeAgentFile (ag_AgentID a) ?s2)" "OK resp"
    using opUnregister_accepted[OF assms(4,5,7,6), of e] assms(8) by simp_all
  have "agentByName s' = agentByName (unindexAgent (ag_AgentID a) s)"
    by (rule agentByName_cong) (simp_all add: s' removeKey_def)
  then have 1: "agentByName s' m = (if m = from then None else agentByName s m)" for m
    using unindexed[OF assms(1,4)] by simp
  have rm: "map_of (rooms s') n = map_option (\<lambda>r. snd (removeMembers [from] r)) (map_of (rooms s) n)" for n
    using evict_rooms_room[of ?s1 "[from]" n] assms(2) by (simp add: s' removeKey_def)
  have 2: "from \<notin> set (r_members r)" if "map_of (rooms s') n = Some r" for n r
    using that removeMembers_effect(2)[of "[from]"] by (auto simp: rm simp del: removeMembers.simps)
  have 3: "\<exists>r'. map_of (rooms s') n = Some r' \<and> rbox r' from = []"
    if "map_of (rooms s) n = Some r" "from \<in> set (r_members r)" for n r
    using that removeMembers_effect(5)[of "from" "[from]" r] by (auto simp: rm simp del: removeMembers.simps)
  have ch: "channels s' = channels ?s1" "bufs s' = bufs ?s1" by (simp_all add: s' removeKey_def removeAgentFile_def)
  have 4: "PayWait \<lparr>w_msg = None, w_err = ''unregistered'', w_code = CodePeerClosed\<rparr> \<in> set (bufs s' x)
      \<and> (\<exists>c'. map_of (channels s') k = Some c' \<and> map_of (c_waiter c') from = None)"
    if "map_of (channels s) k = Some c" "is_peer c from" "map_of (c_waiter c) from = Some x" for k c x
    unfolding ch using that assms(3) release_all_signals[of ?s0 k c "from" x "''unregistered''"]
      release_all_one[of ?s0 "from" "''unregistered''" k] by simp
  have 5: "map_of (files s') (agent_path (ag_AgentID a)) = None" "key_load (keys s') from = None"
    by (simp_all add: s' removeKey_def removeAgentFile_def key_load_def key_delete_def)
  show ?thesis using 1 2 3 4 5 s'(2) by blast
qed

lemma agents_fold_unindex:
  "map_of (agents (fold unindexAgent ids s)) i = (if i \<in> set ids then None else map_of (agents s) i)"
  by (induction ids arbitrary: s) (auto simp: agents_unindexAgent)

lemma agents_fold_removeFile [simp]:
  "agents (fold removeAgentFile ids s) = agents s" "rooms (fold removeAgentFile ids s) = rooms s"
  by (rule fold_same; simp)+

lemma rooms_fold_unindex [simp]: "rooms (fold unindexAgent ids s) = rooms s"
  by (rule fold_same) simp

text \<open>C26: A sweep drops exactly the agents whose lease has run out, and afterwards no room has one of their
  names among its members.\<close>

theorem sweep_exact:
  assumes "wf_registry s" "keys_ok (rooms s)"
  shows "map_of (agents (sweep e s)) i =
      (case map_of (agents s) i of None \<Rightarrow> None | Some a \<Rightarrow> if expired e a then None else Some a)
    \<and> (\<forall>n r a. map_of (rooms (sweep e s)) n = Some r \<and> map_of (agents s) i = Some a \<and> expired e a \<longrightarrow>
         ag_Name a \<notin> set (r_members r))"
proof -
  let ?dead = "filter (\<lambda>(i, a). expired e a) (agents s)"
  let ?ids = "map fst ?dead" and ?names = "remdups (map (\<lambda>(i, a). ag_Name a) ?dead)"
  have k: "keys_ok (agents s)" using assms(1) by (rule wf_registryD(1))
  have dead: "(i, a) \<in> set ?dead \<longleftrightarrow> map_of (agents s) i = Some a \<and> expired e a" for i a
    using mem_map_of_iff[OF k] by auto
  have ids: "i \<in> set ?ids \<longleftrightarrow> (\<exists>a. map_of (agents s) i = Some a \<and> expired e a)" for i
  proof -
    have "i \<in> set ?ids \<longleftrightarrow> (\<exists>a. (i, a) \<in> set ?dead)" by force
    then show ?thesis by (simp only: dead)
  qed
  show ?thesis
  proof (cases "?ids = []")
    case True
    then have "sweep e s = s" "\<And>i a. map_of (agents s) i = Some a \<Longrightarrow> \<not> expired e a"
      using dead by (auto simp: sweep_def Let_def)
    then show ?thesis by (auto split: option.split)
  next
    case False
    let ?t = "release_all ?names ''lease expired'' (fold unindexAgent ?ids s)"
    have sw: "sweep e s = fold removeAgentFile ?ids (evict_rooms ?names ?t)"
      using False by (simp add: sweep_def Let_def)
    have "agents (sweep e s) = agents (fold unindexAgent ?ids s)" by (simp add: sw)
    then have 1: "map_of (agents (sweep e s)) i =
      (case map_of (agents s) i of None \<Rightarrow> None | Some a \<Rightarrow> if expired e a then None else Some a)"
      using ids[of i] by (simp add: agents_fold_unindex split: option.split)
    have rm: "map_of (rooms (sweep e s)) n = map_option (\<lambda>r. snd (removeMembers ?names r)) (map_of (rooms s) n)" for n
      using evict_rooms_room[of ?t ?names n] assms(2) by (simp add: sw)
    have "ag_Name a \<in> set ?names" if "map_of (agents s) i = Some a" "expired e a" for a
      using dead[of i a] that by force
    then have "ag_Name a \<notin> set (r_members r)"
      if "map_of (rooms (sweep e s)) n = Some r" "map_of (agents s) i = Some a" "expired e a" for n r a
      using that removeMembers_effect(2)[of ?names] by (auto simp: rm)
    then show ?thesis using 1 by blast
  qed
qed

end
