(* ===== verification/Worktrees.thy ===== *)
theory Worktrees
  imports Registry
begin

text \<open>
  Git worktrees as \<^verbatim>\<open>task.go\<close> drives them: the parser of
  \<^verbatim>\<open>git worktree list --porcelain\<close>, creating and removing a worktree, and the test
  that one holds no unsaved work. What git and the file system answer is a \<open>gitworld\<close>.
\<close>

section \<open>Definitions\<close>

record worktreeEntry =
  we_Path :: string
  we_Branch :: string

definition no_entry :: worktreeEntry where
  "no_entry = \<lparr>we_Path = [], we_Branch = []\<rparr>"

definition strip_cr :: "string \<Rightarrow> string" where
  "strip_cr l = (if l \<noteq> [] \<and> last l = CHR 0x0D then butlast l else l)"

definition scan_lines :: "string \<Rightarrow> string list" where
  \<comment> \<open>the tokens of a \<^verbatim>\<open>bufio.Scanner\<close>: no empty last line, no carriage returns\<close>
  "scan_lines s = (let ls = splitOn nl s in map strip_cr (if last ls = [] then butlast ls else ls))"

fun parse_worktrees :: "string list \<Rightarrow> worktreeEntry \<Rightarrow> worktreeEntry list" where
  \<comment> \<open>the scanning loop; the second argument is \<^verbatim>\<open>cur\<close>\<close>
  "parse_worktrees [] cur = (if we_Path cur \<noteq> [] then [cur] else [])"
| "parse_worktrees (line # ls) cur =
     (if line = [] then (if we_Path cur \<noteq> [] then [cur] else []) @ parse_worktrees ls no_entry
      else if hasPrefix line ''worktree '' then parse_worktrees ls (cur\<lparr>we_Path := trimPrefix line ''worktree ''\<rparr>)
      else if hasPrefix line ''branch '' then
        parse_worktrees ls (cur\<lparr>we_Branch := trimPrefix (trimPrefix line ''branch '') ''refs/heads/''\<rparr>)
      else parse_worktrees ls cur)"

definition listWorktrees :: "gitworld \<Rightarrow> string + worktreeEntry list" where
  "listWorktrees g = (case g_list g of Inl err \<Rightarrow> Inl err
     | Inr out \<Rightarrow> Inr (parse_worktrees (scan_lines out) no_entry))"

fun check_entries :: "gitworld \<Rightarrow> string \<Rightarrow> string \<Rightarrow> worktreeEntry list \<Rightarrow> (string + unit) option" where
  \<comment> \<open>the loop over the known worktrees: \<open>Some (Inr ())\<close> when the target is there already,
     \<open>Some (Inl err)\<close> on a clash\<close>
  "check_entries g absTarget branch [] = None"
| "check_entries g absTarget branch (w # ws) =
     (if g_canon g (we_Path w) = absTarget then
        (if we_Branch w = branch then Some (Inr ())
         else Some (Inl (''worktree at '' @ absTarget @ '' is on branch '' @ goQuote (we_Branch w)
                @ '', not '' @ goQuote branch)))
      else if we_Branch w = branch then
        Some (Inl (''branch '' @ goQuote branch @ '' already checked out at '' @ we_Path w))
      else check_entries g absTarget branch ws)"

definition ensureWorktree :: "gitworld \<Rightarrow> string \<Rightarrow> string \<Rightarrow> string + bool" where
  \<comment> \<open>whether a worktree was created, or the error\<close>
  "ensureWorktree g target branch =
     (let absTarget = g_canon g target
      in case listWorktrees g of
           Inl err \<Rightarrow> Inl (''list worktrees: '' @ err)
         | Inr entries \<Rightarrow>
             (case check_entries g absTarget branch entries of
                Some (Inr ()) \<Rightarrow> Inr False
              | Some (Inl err) \<Rightarrow> Inl err
              | None \<Rightarrow>
                  if g_exists g absTarget then
                    Inl (''target path '' @ absTarget @ '' already exists and is not a git worktree'')
                  else (case g_mkdirErr g of
                      Some err \<Rightarrow> Inl (''create parent dir: '' @ err)
                    | None \<Rightarrow>
                        (case g_add g absTarget branch (\<not> g_branchExists g branch) of
                           Some out \<Rightarrow> Inl (''git worktree add: '' @ trimSpace out)
                         | None \<Rightarrow> Inr True))))"

definition removeWorktree :: "gitworld \<Rightarrow> string \<Rightarrow> string option" where
  "removeWorktree g target =
     (case g_remove g target of
        Some out \<Rightarrow> Some (''git worktree remove: '' @ trimSpace out)
      | None \<Rightarrow> if g_existsAfter g target then Some (''worktree still present at '' @ target @ '' after remove'')
          else None)"

definition worktreeIsClean :: "gitworld \<Rightarrow> string \<Rightarrow> string option" where
  \<comment> \<open>\<open>None\<close> when clean, else the detail\<close>
  "worktreeIsClean g worktree =
     (if \<not> g_exists g worktree then None
      else case g_status g worktree of
        Inl err \<Rightarrow> Some (''git status failed: '' @ err)
      | Inr status \<Rightarrow>
          if trimSpace status \<noteq> [] then Some ''worktree has uncommitted changes (see git status)''
          else case g_upstream g worktree of
            None \<Rightarrow> None
          | Some upstream \<Rightarrow>
              if trimSpace upstream = [] then None
              else case g_ahead g worktree of
                Inl err \<Rightarrow> Some (''git rev-list failed: '' @ err)
              | Inr ahead \<Rightarrow>
                  if trimSpace ahead \<noteq> ''0'' then
                    Some ''worktree has commits ahead of upstream (push or discard first)''
                  else None)"

section \<open>The porcelain format\<close>

definition render_entry :: "worktreeEntry \<Rightarrow> string list" where
  \<comment> \<open>the lines git prints for a worktree; a detached one has no branch line\<close>
  "render_entry w = [''worktree '' @ we_Path w, ''HEAD 0000'']
     @ (if we_Branch w = [] then [''detached''] else [''branch refs/heads/'' @ we_Branch w]) @ [[]]"

lemma parse_render_entry:
  assumes "we_Path w \<noteq> []"
  shows "parse_worktrees (render_entry w @ ls) no_entry = w # parse_worktrees ls no_entry"
proof -
  have "trimPrefix (''branch refs/heads/'' @ b) ''branch '' = ''refs/heads/'' @ b" for b
    by (simp add: trimPrefix_def)
  moreover have "trimPrefix (''refs/heads/'' @ b) ''refs/heads/'' = b" for b by (simp add: trimPrefix_def)
  moreover have "trimPrefix (''worktree '' @ p) ''worktree '' = p" for p by (simp add: trimPrefix_def)
  ultimately show ?thesis using assms by (cases w) (auto simp: render_entry_def no_entry_def)
qed

lemma parse_render_entries:
  "\<forall>w \<in> set ws. we_Path w \<noteq> [] \<Longrightarrow> parse_worktrees (concat (map render_entry ws)) no_entry = ws"
proof (induction ws)
  case Nil
  then show ?case by (simp add: no_entry_def)
qed (simp add: parse_render_entry)

definition unlines :: "string list \<Rightarrow> string" where
  "unlines ls = concat (map (\<lambda>l. l @ [nl]) ls)"

lemma splitOn_unlines: "\<forall>l \<in> set ls. nl \<notin> set l \<Longrightarrow> splitOn nl (unlines ls) = ls @ [[]]"
  by (induction ls) (simp_all add: unlines_def splitOn_append)

lemma scan_unlines:
  assumes "\<forall>l \<in> set ls. nl \<notin> set l \<and> CHR 0x0D \<notin> set l"
  shows "scan_lines (unlines ls) = ls"
proof -
  have "map strip_cr ls = ls"
    using assms by (intro map_idI) (auto simp: strip_cr_def dest: last_in_set)
  then show ?thesis using assms by (simp add: scan_lines_def splitOn_unlines)
qed

text \<open>The worktrees git lists are read back as they are: for every list of worktrees with non-empty
  single-line paths, parsing what \<^verbatim>\<open>git worktree list --porcelain\<close> prints gives their paths
  and branches in order.\<close>

theorem listWorktrees_reads_back:
  assumes "\<forall>w \<in> set ws. we_Path w \<noteq> [] \<and> {nl, CHR 0x0D} \<inter> (set (we_Path w) \<union> set (we_Branch w)) = {}"
    "g_list g = Inr (unlines (concat (map render_entry ws)))"
  shows "listWorktrees g = Inr ws"
proof -
  have "nl \<notin> set l \<and> CHR 0x0D \<notin> set l" if "w \<in> set ws" "l \<in> set (render_entry w)" for w l
    using that assms(1) by (fastforce simp: render_entry_def split: if_splits)
  then have "scan_lines (unlines (concat (map render_entry ws))) = concat (map render_entry ws)"
    by (intro scan_unlines) auto
  then show ?thesis using assms parse_render_entries[of ws] by (simp add: listWorktrees_def)
qed

text \<open>No worktree is created over another: \<^verbatim>\<open>ensureWorktree\<close> reports success only if the target is
  listed on the wanted branch already (then nothing is created), or if git added it at a path where
  nothing was and no listed worktree is at the target or on the branch.\<close>

theorem ensureWorktree_safe:
  assumes "ensureWorktree g target branch = Inr created" "listWorktrees g = Inr ws"
  shows "if created
    then \<not> g_exists g (g_canon g target) \<and> g_add g (g_canon g target) branch (\<not> g_branchExists g branch) = None
       \<and> (\<forall>w \<in> set ws. g_canon g (we_Path w) \<noteq> g_canon g target \<and> we_Branch w \<noteq> branch)
    else \<exists>w \<in> set ws. g_canon g (we_Path w) = g_canon g target \<and> we_Branch w = branch"
proof -
  have none: "check_entries g t b es = None \<longleftrightarrow> (\<forall>w \<in> set es. g_canon g (we_Path w) \<noteq> t \<and> we_Branch w \<noteq> b)" for t b es
    by (induction es) auto
  have some: "check_entries g t b es = Some (Inr ()) \<Longrightarrow> \<exists>w \<in> set es. g_canon g (we_Path w) = t \<and> we_Branch w = b" for t b es
    by (induction es) (auto split: if_splits)
  show ?thesis
  proof (cases "check_entries g (g_canon g target) branch ws")
    case None
    then show ?thesis using assms none[of "g_canon g target" branch ws]
      by (auto simp: ensureWorktree_def Let_def split: if_splits option.splits)
  next
    case (Some r)
    then have "r = Inr () \<and> \<not> created"
      using assms by (auto simp: ensureWorktree_def Let_def split: sum.splits unit.splits)
    then show ?thesis using some[of "g_canon g target" branch ws] Some by auto
  qed
qed

end
