(* ===== verification/Tasks.thy ===== *)
theory Tasks
  imports Worktrees
begin

text \<open>
  Task lists (\<^verbatim>\<open>task.go\<close>): publishing workstreams with their worktrees, rooms and bundle
  posts, claiming, status changes, reassigning, handing over, unpublishing, and the rooms
  behind the tasks. A task list is filed under its project; a task's room has the task's slug
  as its name.
\<close>

section \<open>Task lists\<close>

definition persistTaskList :: "taskList \<Rightarrow> state \<Rightarrow> state" where
  "persistTaskList l s = enqueueWrite (pathJoin [''tasks'', tl_ProjectID l, ''task-list.json'']) (TaskFile l)
     (''task list update: '' @ tl_ProjectID l @ '' (supervisor='' @ tl_Supervisor l @ '')'') s"

definition put_tasks :: "string \<Rightarrow> taskList \<Rightarrow> state \<Rightarrow> state" where
  "put_tasks pid l s = s\<lparr>tasks := AList.update pid l (tasks s)\<rparr>"

definition findTask :: "taskList \<Rightarrow> string \<Rightarrow> task option" where
  "findTask l slug = find (\<lambda>t. t_Slug t = slug) (tl_Tasks l)"

fun update_task :: "string \<Rightarrow> (task \<Rightarrow> task) \<Rightarrow> task list \<Rightarrow> task list" where
  \<comment> \<open>an assignment through the pointer \<open>findTask\<close> returns\<close>
  "update_task slug f [] = []"
| "update_task slug f (t # ts) = (if t_Slug t = slug then f t # ts else t # update_task slug f ts)"

definition touch_task :: "env \<Rightarrow> string \<Rightarrow> (task \<Rightarrow> task) \<Rightarrow> taskList \<Rightarrow> taskList" where
  "touch_task e slug f l = l\<lparr>tl_Tasks := update_task slug (\<lambda>t. (f t)\<lparr>t_UpdatedAt := now e\<rparr>) (tl_Tasks l),
     tl_UpdatedAt := now e\<rparr>"

definition not_supervisor :: "string \<Rightarrow> response" where
  "not_supervisor from = unauthorized ''not_supervisor'' ''register with --role supervisor''
     (''caller is not a supervisor: '' @ from) [(''from'', JStr from)]"

definition not_registered_auth :: "string \<Rightarrow> response" where
  "not_registered_auth from = unauthorized ''not_registered'' ''run lalia register'' (''not registered: '' @ from)
     [(''from'', JStr from)]"

definition requireSupervisor :: "string \<Rightarrow> string \<Rightarrow> state \<Rightarrow> response option" where
  \<comment> \<open>\<open>None\<close> when the caller may act, else the refusal\<close>
  "requireSupervisor from pid s =
     (case agentByName s from of
        None \<Rightarrow> Some (not_registered_auth from)
      | Some a \<Rightarrow>
          if ag_Role a \<noteq> ''supervisor'' then Some (not_supervisor from)
          else case map_of (tasks s) pid of
            Some l \<Rightarrow> if tl_Supervisor l \<noteq> from then
                Some (unauthorized ''not_project_supervisor'' ''only the project supervisor may perform this action''
                  (''project '' @ pid @ '' supervisor is '' @ tl_Supervisor l @ '', not '' @ from)
                  [(''project'', JStr pid), (''supervisor'', JStr (tl_Supervisor l))])
              else None
          | None \<Rightarrow> None)"

definition owned_json :: "string list \<Rightarrow> json" where
  \<comment> \<open>a nil slice is marshalled as \<^verbatim>\<open>null\<close>\<close>
  "owned_json ps = (if ps = [] then JNull else JArr (map JStr ps))"

definition contract_json :: "contract \<Rightarrow> json" where
  "contract_json c = JObj [(''other_slug'', JStr (OtherSlug c)), (''note'', JStr (Note c))]"

definition task_members :: "task \<Rightarrow> (string \<times> json) list" where
  "task_members t = [(''slug'', JStr (t_Slug t)), (''branch'', JStr (t_Branch t)), (''brief'', JStr (t_Brief t)),
     (''owned_paths'', owned_json (t_OwnedPaths t)), (''contracts'', JArr (map contract_json (t_Contracts t))),
     (''worktree'', JStr (t_Worktree t)), (''owner'', JStr (t_Owner t)), (''status'', JStr (t_Status t)),
     (''updated_at'', JStr (rfc3339 (t_UpdatedAt t)))]"

definition taskToMap :: "task \<Rightarrow> json" where
  "taskToMap t = JObj (task_members t)"

definition taskListToMap :: "taskList \<Rightarrow> json" where
  "taskListToMap l = JObj [(''project_id'', JStr (tl_ProjectID l)), (''supervisor'', JStr (tl_Supervisor l)),
     (''repo_root'', JStr (tl_RepoRoot l)), (''tasks'', JArr (map taskToMap (tl_Tasks l))),
     (''updated_at'', JStr (rfc3339 (tl_UpdatedAt l)))]"

definition composeBundle :: "string \<Rightarrow> string list \<Rightarrow> contract list \<Rightarrow> string" where
  "composeBundle brief owned contracts =
     trimRight brief nl @ [nl]
     @ (if owned \<noteq> [] \<or> contracts \<noteq> [] then [nl] @ ''---'' @ [nl, nl] else [])
     @ (if owned \<noteq> [] then ''**Owned paths**'' @ [nl] @ concat (map (\<lambda>p. ''- '' @ p @ [nl]) owned) else [])
     @ (if contracts \<noteq> [] then (if owned \<noteq> [] then [nl] else []) @ ''**Contracts**'' @ [nl]
          @ concat (map (\<lambda>c. ''- '' @ OtherSlug c @ '': '' @ Note c @ [nl]) contracts) else [])"

section \<open>The rooms behind the tasks\<close>

definition add_members :: "string list \<Rightarrow> room \<Rightarrow> room" where
  "add_members ms r = r\<lparr>r_members := fold add_member ms (r_members r)\<rparr>"

definition persist_members :: "string \<Rightarrow> string list \<Rightarrow> state \<Rightarrow> state" where
  "persist_members slug ms s = fold (\<lambda>m. with_queue (roomAddMember slug m)) ms s"

definition ensureRoomWithMembers :: "env \<Rightarrow> string \<Rightarrow> string \<Rightarrow> string list \<Rightarrow> state \<Rightarrow> state" where
  \<comment> \<open>the room is then the one stored under \<open>slug\<close>\<close>
  "ensureRoomWithMembers e slug createdBy ms s =
     (case map_of (rooms s) slug of
        None \<Rightarrow>
          let r = add_members ms (newRoom e slug [] createdBy);
              s = put_room slug r s;
              s = with_queue (roomUpsert slug [] createdBy (r_CreatedAt r)) s
          in persist_members slug (r_members r) s
      | Some r \<Rightarrow>
          persist_members slug (filter (\<lambda>m. m \<notin> set (r_members r)) (remdups ms)) (put_room slug (add_members ms r) s))"

definition archiveRoom :: "string \<Rightarrow> state \<Rightarrow> bool \<times> state" where
  \<comment> \<open>whether the room existed and was open\<close>
  "archiveRoom slug s =
     (case map_of (rooms s) slug of
        None \<Rightarrow> (False, s)
      | Some r \<Rightarrow>
          let s' = put_room slug (r\<lparr>r_Archived := True\<rparr>) s
          in if r_Archived r then (False, s') else (True, with_queue (roomSetArchived slug True) s'))"

definition unarchiveRoom :: "string \<Rightarrow> state \<Rightarrow> bool \<times> state" where
  "unarchiveRoom slug s =
     (case map_of (rooms s) slug of
        None \<Rightarrow> (False, s)
      | Some r \<Rightarrow>
          let s' = put_room slug (r\<lparr>r_Archived := False\<rparr>) s
          in if \<not> r_Archived r then (False, s') else (True, with_queue (roomSetArchived slug False) s'))"

definition internalPost :: "env \<Rightarrow> string \<Rightarrow> string \<Rightarrow> string \<Rightarrow> state \<Rightarrow> state" where
  \<comment> \<open>post to the room stored under \<open>n\<close>: no membership check, and no row of the side store\<close>
  "internalPost e n from body s =
     (case map_of (rooms s) n of
        None \<Rightarrow> s
      | Some r \<Rightarrow>
          let msg = posted e r from body;
              (r, s) = deliver_room False msg (room_logged r msg) s;
              s = put_room n r s
          in room_write (r_Name r) msg s)"

definition on_room :: "string \<Rightarrow> (room \<Rightarrow> state \<Rightarrow> state) \<Rightarrow> state \<Rightarrow> state" where
  \<comment> \<open>what a handler does with the room pointer it holds\<close>
  "on_room n f s = (case map_of (rooms s) n of None \<Rightarrow> s | Some r \<Rightarrow> f r s)"

definition gc_candidates :: "string \<Rightarrow> state \<Rightarrow> (string \<times> string) list" where
  \<comment> \<open>slug and project of the merged tasks the caller supervises that have a room\<close>
  "gc_candidates from s = concat (map (\<lambda>(pid, l).
       map (\<lambda>t. (t_Slug t, pid)) (filter (\<lambda>t. t_Status t = statusMerged \<and> map_of (rooms s) (t_Slug t) \<noteq> None) (tl_Tasks l)))
     (filter (\<lambda>(pid, l). tl_Supervisor l = from) (tasks s)))"

fun archive_all :: "(string \<times> string) list \<Rightarrow> state \<Rightarrow> json list \<times> state" where
  "archive_all [] s = ([], s)"
| "archive_all ((slug, pid) # cs) s =
     (case archiveRoom slug s of (flipped, s) \<Rightarrow>
        (case archive_all cs s of (js, s) \<Rightarrow>
           ((if flipped then [JObj [(''slug'', JStr slug), (''project'', JStr pid)]] else []) @ js, s)))"

definition opRoomsGC :: "request \<Rightarrow> state \<Rightarrow> response \<times> state" where
  "opRoomsGC req s =
     (let from = strVal (Args req) ''from''
      in if from = [] then (missing_from, s)
         else case agentByName s from of
           None \<Rightarrow> (not_registered_auth from, s)
         | Some a \<Rightarrow>
             if ag_Role a \<noteq> ''supervisor'' then (not_supervisor from, s)
             else case archive_all (gc_candidates from s) s of (archived, s) \<Rightarrow>
               (okResponse (JObj [(''archived'', JArr archived), (''count'', JNum (int (length archived)))]), s))"

section \<open>Publishing\<close>

record wsInput =
  ws_Slug :: string
  ws_Branch :: string
  ws_Brief :: string
  ws_OwnedPaths :: "string list"
  ws_Contracts :: "contract list"

definition arrVal :: "(string, json) gomap \<Rightarrow> string \<Rightarrow> json list" where
  \<comment> \<open>\<^verbatim>\<open>args[key].([]any)\<close>, nil when it is not an array\<close>
  "arrVal args key = (case map_of args key of Some (JArr xs) \<Rightarrow> xs | _ \<Rightarrow> [])"

definition parse_owned :: "(string, json) gomap \<Rightarrow> string list" where
  "parse_owned m = concat (map (\<lambda>j. case j of JStr p \<Rightarrow> if p = [] then [] else [p] | _ \<Rightarrow> []) (arrVal m ''owned_paths''))"

definition parse_contracts :: "(string, json) gomap \<Rightarrow> contract list" where
  "parse_contracts m = concat (map (\<lambda>j. case j of
       JObj c \<Rightarrow> if strVal c ''other_slug'' = [] then []
         else [\<lparr>OtherSlug = strVal c ''other_slug'', Note = strVal c ''note''\<rparr>]
     | _ \<Rightarrow> []) (arrVal m ''contracts''))"

fun parse_workstreams :: "nat \<Rightarrow> string list \<Rightarrow> json list \<Rightarrow> response + wsInput list" where
  \<comment> \<open>the index and the slugs seen so far\<close>
  "parse_workstreams i seen [] = Inr []"
| "parse_workstreams i seen (raw # raws) =
     (case raw of
        JObj m \<Rightarrow>
          (let slug = strVal m ''slug''; branch = strVal m ''branch''
           in if slug = [] \<or> branch = [] then
                Inl (errorResponse CodeError ''bad_workstream'' ''slug and branch required''
                  (''workstream '' @ itoa (int i) @ '' missing slug or branch'') [(''index'', JNum (int i))])
              else if slug \<in> set seen then
                Inl (errorResponse CodeError ''duplicate_slug'' ''each workstream slug must be unique''
                  (''duplicate slug in payload: '' @ slug) [(''slug'', JStr slug)])
              else case parse_workstreams (Suc i) (slug # seen) raws of
                Inl err \<Rightarrow> Inl err
              | Inr ws \<Rightarrow> Inr (\<lparr>ws_Slug = slug, ws_Branch = branch, ws_Brief = strVal m ''brief'',
                    ws_OwnedPaths = parse_owned m, ws_Contracts = parse_contracts m\<rparr> # ws))
      | _ \<Rightarrow> Inl (errorResponse CodeError ''bad_workstream'' ''each workstream must be an object''
               (''workstream '' @ itoa (int i) @ '' is not an object'') []))"

definition publish_root :: "env \<Rightarrow> string \<Rightarrow> response + string" where
  \<comment> \<open>the absolute repository root\<close>
  "publish_root e repoRoot =
     (case absPath e repoRoot of
        Inl err \<Rightarrow> Inl (errorResponse CodeError ''bad_repo_root'' ''check the repo_root path''
          (''bad repo_root: '' @ err) [(''repo_root'', JStr repoRoot)])
      | Inr absRoot \<Rightarrow>
          if isDir e absRoot then Inr absRoot
          else Inl (errorResponse CodeError ''repo_root_not_found'' ''ensure repo_root exists on this machine''
            (''repo_root does not exist: '' @ absRoot) [(''repo_root'', JStr absRoot)]))"

definition publish_auth :: "env \<Rightarrow> string \<Rightarrow> string \<Rightarrow> string \<Rightarrow> state \<Rightarrow> response option" where
  "publish_auth e from pid absRoot s =
     (case agentByName s from of
        None \<Rightarrow> Some (not_registered_auth from)
      | Some a \<Rightarrow>
          if ag_Role a \<noteq> ''supervisor'' then Some (not_supervisor from)
          else if ag_Project a \<noteq> [] \<and> ag_Project a \<noteq> pid then
            Some (errorResponse CodeProjectIdentityMismatch ''project_mismatch''
              ''re-register from inside the right repo, or publish from that repo''
              (''caller is registered under project '' @ ag_Project a @ '', not '' @ pid)
              [(''expected'', JStr (ag_Project a)), (''got'', JStr pid)])
          else
            let absA = (case absPath e (ag_RepoRoot a) of Inl _ \<Rightarrow> [] | Inr p \<Rightarrow> p)
            in if ag_RepoRoot a \<noteq> [] \<and> absA \<noteq> absRoot then
                 Some (errorResponse CodeProjectIdentityMismatch ''repo_root_mismatch''
                   ''publish from the same repo you registered in''
                   (''caller registered with repo_root '' @ absA @ '', publish payload has '' @ absRoot)
                   [(''expected'', JStr absA), (''got'', JStr absRoot)])
               else case map_of (tasks s) pid of
                 Some l \<Rightarrow> if tl_Supervisor l \<noteq> [] \<and> tl_Supervisor l \<noteq> from then
                     Some (unauthorized ''not_project_supervisor'' ''only the project supervisor may publish''
                       (''project '' @ pid @ '' supervisor is '' @ tl_Supervisor l @ '', not '' @ from)
                       [(''project'', JStr pid), (''supervisor'', JStr (tl_Supervisor l))])
                   else None
               | None \<Rightarrow> None)"

definition publish_row :: "env \<Rightarrow> string \<Rightarrow> wsInput \<Rightarrow> taskList \<Rightarrow> bool \<times> taskList" where
  \<comment> \<open>whether the row was open on this branch already, and the list with the row installed\<close>
  "publish_row e target ws l =
     (case findTask l (ws_Slug ws) of
        Some x \<Rightarrow>
          (t_Status x = statusOpen \<and> t_Branch x = ws_Branch ws,
           touch_task e (ws_Slug ws) (\<lambda>t. t\<lparr>t_Branch := ws_Branch ws, t_Brief := ws_Brief ws,
             t_OwnedPaths := ws_OwnedPaths ws, t_Contracts := ws_Contracts ws, t_Worktree := target,
             t_Status := or_else (t_Status t) statusOpen\<rparr>) l)
      | None \<Rightarrow>
          (False, l\<lparr>tl_Tasks := tl_Tasks l @ [\<lparr>t_Slug = ws_Slug ws, t_Branch = ws_Branch ws, t_Brief = ws_Brief ws,
               t_OwnedPaths = ws_OwnedPaths ws, t_Contracts = ws_Contracts ws, t_Worktree = target, t_Owner = [],
               t_Status = statusOpen, t_UpdatedAt = now e\<rparr>], tl_UpdatedAt := now e\<rparr>))"

definition publish_list :: "string \<Rightarrow> string \<Rightarrow> string \<Rightarrow> state \<Rightarrow> taskList" where
  \<comment> \<open>the project's list, made or completed\<close>
  "publish_list from pid absRoot s =
     (let l = (case map_of (tasks s) pid of Some l \<Rightarrow> l
          | None \<Rightarrow> \<lparr>tl_ProjectID = pid, tl_Supervisor = from, tl_RepoRoot = absRoot, tl_Tasks = [],
                     tl_UpdatedAt = zero_time\<rparr>)
      in l\<lparr>tl_Supervisor := or_else (tl_Supervisor l) from, tl_RepoRoot := or_else (tl_RepoRoot l) absRoot\<rparr>)"

definition publish_install :: "env \<Rightarrow> string \<Rightarrow> string \<Rightarrow> wsInput \<Rightarrow> taskList \<Rightarrow> state \<Rightarrow> state" where
  \<comment> \<open>the row, the room, and their files\<close>
  "publish_install e from pid ws l s =
     (let s = put_tasks pid l s;
          s = persistTaskList l s;
          s = ensureRoomWithMembers e (ws_Slug ws) from [from] s;
          s = snd (unarchiveRoom (ws_Slug ws) s);
          s = on_room (ws_Slug ws) persistRoomDefinition s
      in on_room (ws_Slug ws) persistRoomMembers s)"

definition publish_one ::
  "env \<Rightarrow> gitworld \<Rightarrow> string \<Rightarrow> string \<Rightarrow> string \<Rightarrow> string \<Rightarrow> wsInput \<Rightarrow> state \<Rightarrow> (json + json) \<times> state" where
  \<comment> \<open>one iteration: an entry of \<^verbatim>\<open>failed\<close> (\<open>Inl\<close>) or of \<^verbatim>\<open>ok\<close> (\<open>Inr\<close>)\<close>
  "publish_one e g from pid absRoot wtRoot ws s =
     (let target = pathJoin [wtRoot, ws_Slug ws]
      in case ensureWorktree g target (ws_Branch ws) of
           Inl err \<Rightarrow> (Inl (JObj [(''slug'', JStr (ws_Slug ws)), (''error'', JStr err)]), s)
         | Inr created \<Rightarrow>
             (case publish_row e target ws (publish_list from pid absRoot s) of
                (alreadyOpen, l) \<Rightarrow>
                  let s = publish_install e from pid ws l s;
                      hasPosts = (case map_of (rooms s) (ws_Slug ws) of None \<Rightarrow> False | Some r \<Rightarrow> 0 < r_seq r)
                  in if \<not> created \<and> alreadyOpen \<and> hasPosts then
                       (Inr (JObj [(''slug'', JStr (ws_Slug ws)), (''noop'', JBool True)]), s)
                     else
                       (Inr (JObj [(''slug'', JStr (ws_Slug ws)), (''worktree'', JStr target),
                          (''created_worktree'', JBool created)]),
                        internalPost e (ws_Slug ws) from
                          (composeBundle (ws_Brief ws) (ws_OwnedPaths ws) (ws_Contracts ws)) s)))"

fun publish_all ::
  "env \<Rightarrow> nat \<Rightarrow> string \<Rightarrow> string \<Rightarrow> string \<Rightarrow> string \<Rightarrow> wsInput list \<Rightarrow> state \<Rightarrow> json list \<times> json list \<times> state" where
  \<comment> \<open>the slugs that went through, those that failed, the state\<close>
  "publish_all e i from pid absRoot wtRoot [] s = ([], [], s)"
| "publish_all e i from pid absRoot wtRoot (ws # wss) s =
     (case publish_one e (git e i) from pid absRoot wtRoot ws s of
        (res, s) \<Rightarrow>
          (case publish_all e (Suc i) from pid absRoot wtRoot wss s of
             (oks, fails, s) \<Rightarrow>
               (case res of Inr j \<Rightarrow> (j # oks, fails, s) | Inl j \<Rightarrow> (oks, j # fails, s))))"

definition opTaskPublish :: "env \<Rightarrow> request \<Rightarrow> state \<Rightarrow> response \<times> state" where
  "opTaskPublish e req s =
     (let from = strVal (Args req) ''from''; pid = strVal (Args req) ''project'';
          repoRoot = strVal (Args req) ''repo_root''; wsRaw = arrVal (Args req) ''workstreams''
      in if from = [] then (missing_from, s)
         else if pid = [] then
           (errorResponse CodeError ''missing_project'' ''include project in publish payload'' ''project required'' [], s)
         else if repoRoot = [] then
           (errorResponse CodeError ''missing_repo_root'' ''include repo_root in publish payload''
              ''repo_root required'' [], s)
         else if wsRaw = [] then
           (errorResponse CodeError ''missing_workstreams'' ''include at least one workstream''
              ''workstreams required'' [], s)
         else case publish_root e repoRoot of
           Inl err \<Rightarrow> (err, s)
         | Inr absRoot \<Rightarrow>
             (case parse_workstreams 0 [] wsRaw of
                Inl err \<Rightarrow> (err, s)
              | Inr parsed \<Rightarrow>
                  (case publish_auth e from pid absRoot s of
                     Some err \<Rightarrow> (err, s)
                   | None \<Rightarrow>
                       let wtRoot = pathJoin [pathDir absRoot, ''wt'']
                       in case publish_all e 0 from pid absRoot wtRoot parsed s of
                            (oks, fails, s) \<Rightarrow>
                              (okResponse (JObj [(''project'', JStr pid), (''ok'', JArr oks),
                                 (''failed'', JArr fails), (''repo_root'', JStr absRoot)]), s))))"

section \<open>What the pieces leave alone\<close>

lemma persistTaskList_frame [frame, simp]:
  "agents (persistTaskList l s) = agents s" "nameIdx (persistTaskList l s) = nameIdx s"
  "channels (persistTaskList l s) = channels s" "rooms (persistTaskList l s) = rooms s"
  "tasks (persistTaskList l s) = tasks s" "anyWaiter (persistTaskList l s) = anyWaiter s"
  "bufs (persistTaskList l s) = bufs s" "blocked (persistTaskList l s) = blocked s"
  "qbox (persistTaskList l s) = qbox s"
  by (simp_all add: persistTaskList_def)

lemma put_tasks_frame [frame, simp]:
  "agents (put_tasks p l s) = agents s" "nameIdx (put_tasks p l s) = nameIdx s"
  "channels (put_tasks p l s) = channels s" "rooms (put_tasks p l s) = rooms s"
  "tasks (put_tasks p l s) = AList.update p l (tasks s)" "anyWaiter (put_tasks p l s) = anyWaiter s"
  "bufs (put_tasks p l s) = bufs s" "blocked (put_tasks p l s) = blocked s" "qbox (put_tasks p l s) = qbox s"
  "live_store (put_tasks p l s) = live_store s"
  by (simp_all add: put_tasks_def)

lemma persist_members_frame [frame, simp]:
  "agents (persist_members n ms s) = agents s" "nameIdx (persist_members n ms s) = nameIdx s"
  "channels (persist_members n ms s) = channels s" "rooms (persist_members n ms s) = rooms s"
  "tasks (persist_members n ms s) = tasks s" "anyWaiter (persist_members n ms s) = anyWaiter s"
  "bufs (persist_members n ms s) = bufs s" "blocked (persist_members n ms s) = blocked s"
  "writes (persist_members n ms s) = writes s"
  unfolding persist_members_def by (rule fold_same; simp)+

lemma ensureRoom_frame [frame, simp]:
  "agents (ensureRoomWithMembers e n by ms s) = agents s" "nameIdx (ensureRoomWithMembers e n by ms s) = nameIdx s"
  "channels (ensureRoomWithMembers e n by ms s) = channels s" "tasks (ensureRoomWithMembers e n by ms s) = tasks s"
  "anyWaiter (ensureRoomWithMembers e n by ms s) = anyWaiter s" "bufs (ensureRoomWithMembers e n by ms s) = bufs s"
  "writes (ensureRoomWithMembers e n by ms s) = writes s"
  by (simp_all add: ensureRoomWithMembers_def Let_def split: option.split)

lemma archiveRoom_frame [frame, simp]:
  "agents (snd (archiveRoom n s)) = agents s" "nameIdx (snd (archiveRoom n s)) = nameIdx s"
  "channels (snd (archiveRoom n s)) = channels s" "tasks (snd (archiveRoom n s)) = tasks s"
  "anyWaiter (snd (archiveRoom n s)) = anyWaiter s" "bufs (snd (archiveRoom n s)) = bufs s"
  "writes (snd (archiveRoom n s)) = writes s"
  "agents (snd (unarchiveRoom n s)) = agents s" "nameIdx (snd (unarchiveRoom n s)) = nameIdx s"
  "channels (snd (unarchiveRoom n s)) = channels s" "tasks (snd (unarchiveRoom n s)) = tasks s"
  "anyWaiter (snd (unarchiveRoom n s)) = anyWaiter s" "bufs (snd (unarchiveRoom n s)) = bufs s"
  "writes (snd (unarchiveRoom n s)) = writes s"
  by (simp_all add: archiveRoom_def unarchiveRoom_def Let_def split: option.split)

lemma archiveRoom_rooms:
  "map_of (rooms (snd (archiveRoom n s))) m =
     (if m = n then map_option (\<lambda>r. r\<lparr>r_Archived := True\<rparr>) (map_of (rooms s) n) else map_of (rooms s) m)"
  "map_of (rooms (snd (unarchiveRoom n s))) m =
     (if m = n then map_option (\<lambda>r. r\<lparr>r_Archived := False\<rparr>) (map_of (rooms s) n) else map_of (rooms s) m)"
  by (simp_all add: archiveRoom_def unarchiveRoom_def Let_def split: option.split)

lemma persistRoomDefinition_frame [frame, simp]:
  "agents (persistRoomDefinition r s) = agents s" "nameIdx (persistRoomDefinition r s) = nameIdx s"
  "channels (persistRoomDefinition r s) = channels s" "rooms (persistRoomDefinition r s) = rooms s"
  "tasks (persistRoomDefinition r s) = tasks s" "anyWaiter (persistRoomDefinition r s) = anyWaiter s"
  "qbox (persistRoomDefinition r s) = qbox s"
  by (simp_all add: persistRoomDefinition_def)

lemma on_room_cong:
  "(\<And>r. map_of (rooms s) n = Some r \<Longrightarrow> P (f r s)) \<Longrightarrow> P s \<Longrightarrow> P (on_room n f s)"
  by (simp add: on_room_def split: option.split)

lemma on_room_persist [frame, simp]:
  "agents (on_room n persistRoomMembers s) = agents s" "nameIdx (on_room n persistRoomMembers s) = nameIdx s"
  "rooms (on_room n persistRoomMembers s) = rooms s" "tasks (on_room n persistRoomMembers s) = tasks s"
  "channels (on_room n persistRoomMembers s) = channels s"
  "agents (on_room n persistRoomDefinition s) = agents s" "nameIdx (on_room n persistRoomDefinition s) = nameIdx s"
  "rooms (on_room n persistRoomDefinition s) = rooms s" "tasks (on_room n persistRoomDefinition s) = tasks s"
  "channels (on_room n persistRoomDefinition s) = channels s"
  by (simp_all add: on_room_def split: option.split)

lemma room_write_frame [frame, simp]:
  "agents (room_write n m s) = agents s" "nameIdx (room_write n m s) = nameIdx s"
  "channels (room_write n m s) = channels s" "tasks (room_write n m s) = tasks s"
  by (simp_all add: room_write_def)

lemma internalPost_frame [frame, simp]:
  "agents (internalPost e n f b s) = agents s" "nameIdx (internalPost e n f b s) = nameIdx s"
  "channels (internalPost e n f b s) = channels s" "tasks (internalPost e n f b s) = tasks s"
  using deliver_room_state
  by (auto simp: internalPost_def Let_def split: option.split prod.split)

section \<open>Keeping the room and channel invariants\<close>

lemma both_inv_task_frames [simp]:
  "both_inv s \<Longrightarrow> both_inv (persistTaskList l s)" "both_inv s \<Longrightarrow> both_inv (put_tasks p l s)"
  by (simp_all add: persistTaskList_def) (erule both_inv_frame; simp)

lemma persist_members_keeps [simp]: "both_inv s \<Longrightarrow> both_inv (persist_members n ms s)"
  unfolding persist_members_def by (rule fold_keeps) simp_all

lemma distinct_fold_add: "distinct ms \<Longrightarrow> distinct (fold add_member xs ms)"
  by (rule fold_keeps) simp_all

lemma set_fold_add [simp]: "set (fold add_member xs ms) = set xs \<union> set ms"
  by (induction xs arbitrary: ms) auto

lemma add_members_ok:
  "room_ok n r \<Longrightarrow> boxes_bounded r \<Longrightarrow> room_ok n (add_members ms r) \<and> boxes_bounded (add_members ms r)"
  by (auto simp: add_members_def room_ok_def rbox_ok_def boxes_bounded_def distinct_fold_add)

lemma ensureRoom_keeps:
  assumes "both_inv s"
  shows "both_inv (ensureRoomWithMembers e n by ms s)"
proof (cases "map_of (rooms s) n")
  case None
  have "both_inv (put_room n (add_members ms (newRoom e n [] by)) s)"
    using add_members_ok[OF room_ok_new] by (intro both_inv_put_room assms) auto
  then show ?thesis using None by (simp add: ensureRoomWithMembers_def Let_def)
next
  case (Some r)
  have "both_inv (put_room n (add_members ms r) s)"
    using add_members_ok both_invD[OF assms Some] by (intro both_inv_put_room assms) auto
  then show ?thesis using Some by (simp add: ensureRoomWithMembers_def)
qed

lemma both_inv_archived:
  "both_inv s \<Longrightarrow> map_of (rooms s) n = Some r \<Longrightarrow> both_inv (put_room n (r\<lparr>r_Archived := b\<rparr>) s)"
  by (intro both_inv_put_room) (auto dest: both_invD)

lemma archiveRoom_keeps:
  "both_inv s \<Longrightarrow> both_inv (snd (archiveRoom n s))" "both_inv s \<Longrightarrow> both_inv (snd (unarchiveRoom n s))"
  by (auto simp: archiveRoom_def unarchiveRoom_def Let_def both_inv_archived split: option.split)

lemma internalPost_keeps:
  assumes inv: "both_inv s"
  shows "both_inv (internalPost e n f b s)"
proof (cases "map_of (rooms s) n")
  case (Some r)
  obtain r' s' where d: "deliver_room False (posted e r f b) (room_logged r (posted e r f b)) s = (r', s')" by fastforce
  have ok: "room_ok n r \<and> boxes_bounded r" using inv Some by (rule both_invD)
  then have ok': "room_ok n r' \<and> boxes_bounded r'" using deliver_room_ok[OF d, of n] by simp
  have "both_inv s'"
    using inv deliver_room_state(1)[OF d] deliver_room_chan_inv[OF d] rooms_inv_frame
    by (auto simp: both_inv_def)
  then have "both_inv (put_room n r' s')" using ok' by (intro both_inv_put_room) auto
  then show ?thesis using Some d by (simp add: internalPost_def Let_def)
qed (use inv in \<open>simp add: internalPost_def\<close>)

lemma archive_all_state:
  "snd (archive_all cs s) = fold (\<lambda>c s. snd (archiveRoom (fst c) s)) cs s"
proof (induction cs arbitrary: s)
  case (Cons c cs)
  then show ?case by (cases c) (simp add: case_prod_beta)
qed simp

lemma archive_all_keeps: "both_inv s \<Longrightarrow> both_inv (snd (archive_all cs s))"
  unfolding archive_all_state by (rule fold_keeps) (simp_all add: archiveRoom_keeps)

lemma archive_all_frame [simp]:
  "agents (snd (archive_all cs s)) = agents s" "nameIdx (snd (archive_all cs s)) = nameIdx s"
  "tasks (snd (archive_all cs s)) = tasks s"
  unfolding archive_all_state by (rule fold_same; simp)+

lemma opRoomsGC_keeps: "both_inv s \<Longrightarrow> both_inv (snd (opRoomsGC req s))"
  using archive_all_keeps[of s "gc_candidates (strVal (Args req) ''from'') s"]
  by (auto simp: opRoomsGC_def Let_def split: option.split prod.split)

section \<open>Rows and the task invariant\<close>

definition row_at :: "state \<Rightarrow> string \<Rightarrow> string \<Rightarrow> task option" where
  "row_at s pid slug = (case map_of (tasks s) pid of None \<Rightarrow> None | Some l \<Rightarrow> findTask l slug)"

definition known_statuses :: "string list" where
  "known_statuses = [statusOpen, statusAssigned, statusInProgress, statusReady, statusBlocked, statusMerged]"

definition list_ok :: "string \<Rightarrow> taskList \<Rightarrow> bool" where
  "list_ok pid l \<longleftrightarrow> tl_ProjectID l = pid \<and> distinct (map t_Slug (tl_Tasks l))
     \<and> (\<forall>t \<in> set (tl_Tasks l). t_Status t \<in> set known_statuses)"

definition tasks_inv :: "state \<Rightarrow> bool" where
  \<comment> \<open>lists are filed under their project, a slug has one row, every status is one of the six\<close>
  "tasks_inv s \<longleftrightarrow> keys_ok (tasks s) \<and> (\<forall>pid l. map_of (tasks s) pid = Some l \<longrightarrow> list_ok pid l)"

lemma tasks_inv_frame: "tasks s' = tasks s \<Longrightarrow> tasks_inv s' = tasks_inv s"
  by (simp add: tasks_inv_def)

lemma tasks_inv_frames [simp]:
  "tasks_inv (persistTaskList l s) = tasks_inv s" "tasks_inv (ensureRoomWithMembers e n by ms s) = tasks_inv s"
  "tasks_inv (snd (archiveRoom n s)) = tasks_inv s" "tasks_inv (snd (unarchiveRoom n s)) = tasks_inv s"
  "tasks_inv (on_room n persistRoomMembers s) = tasks_inv s"
  "tasks_inv (on_room n persistRoomDefinition s) = tasks_inv s" "tasks_inv (internalPost e n f b s) = tasks_inv s"
  by (rule tasks_inv_frame; simp)+

lemma tasks_inv_put: "tasks_inv s \<Longrightarrow> list_ok pid l \<Longrightarrow> tasks_inv (put_tasks pid l s)"
  by (simp add: tasks_inv_def)

lemma row_at_frame: "tasks s' = tasks s \<Longrightarrow> row_at s' = row_at s"
  by (simp add: row_at_def fun_eq_iff)

lemma update_task_slugs:
  "(\<And>t. t_Slug (f t) = t_Slug t) \<Longrightarrow> map t_Slug (update_task slug f ts) = map t_Slug ts"
  by (induction ts) auto

lemma find_update_task:
  assumes "\<And>t. t_Slug (f t) = t_Slug t"
  shows "find (\<lambda>t. t_Slug t = x) (update_task slug f ts) =
    (if x = slug then map_option f (find (\<lambda>t. t_Slug t = slug) ts) else find (\<lambda>t. t_Slug t = x) ts)"
  using assms by (induction ts) auto

lemma set_update_task: "t \<in> set (update_task slug f ts) \<Longrightarrow> t \<in> set ts \<or> (\<exists>u \<in> set ts. t = f u)"
  by (induction ts) (auto split: if_splits)

lemma findTask_touch:
  assumes "\<And>t. t_Slug (f t) = t_Slug t"
  shows "findTask (touch_task e slug f l) x =
    (if x = slug then map_option (\<lambda>t. (f t)\<lparr>t_UpdatedAt := now e\<rparr>) (findTask l slug) else findTask l x)"
  by (simp add: findTask_def touch_task_def find_update_task assms)

lemma touch_task_sel [simp]: "tl_ProjectID (touch_task e n f l) = tl_ProjectID l"
  "tl_Supervisor (touch_task e n f l) = tl_Supervisor l" "tl_RepoRoot (touch_task e n f l) = tl_RepoRoot l"
  by (simp_all add: touch_task_def)

lemma list_ok_touch:
  assumes "list_ok pid l" "\<And>t. t_Slug (f t) = t_Slug t"
    "\<And>t. t \<in> set (tl_Tasks l) \<Longrightarrow> t_Status (f t) \<in> set known_statuses"
  shows "list_ok pid (touch_task e slug f l)"
  using assms by (auto simp: list_ok_def touch_task_def update_task_slugs dest!: set_update_task)

lemma findTask_Some: "findTask l slug = Some t \<Longrightarrow> t \<in> set (tl_Tasks l) \<and> t_Slug t = slug"
  by (auto simp: findTask_def find_Some_iff)

lemma findTask_None: "findTask l slug = None \<longleftrightarrow> slug \<notin> t_Slug ` set (tl_Tasks l)"
  by (auto simp: findTask_def find_None_iff)

lemma findTask_append:
  "findTask (l\<lparr>tl_Tasks := tl_Tasks l @ [t]\<rparr>) x = (case findTask l x of Some u \<Rightarrow> Some u
     | None \<Rightarrow> if t_Slug t = x then Some t else None)"
proof -
  have "find P (xs @ [t]) = (case find P xs of Some u \<Rightarrow> Some u | None \<Rightarrow> if P t then Some t else None)" for P xs
    by (induction xs) auto
  then show ?thesis by (simp add: findTask_def)
qed

lemma findTask_upd [simp]:
  "findTask (l\<lparr>tl_UpdatedAt := u\<rparr>) = findTask l" "findTask (l\<lparr>tl_Supervisor := v\<rparr>) = findTask l"
  "findTask (l\<lparr>tl_RepoRoot := w\<rparr>) = findTask l"
  by (simp_all add: findTask_def fun_eq_iff)

section \<open>One workstream\<close>

lemma publish_list_ok: "tasks_inv s \<Longrightarrow> list_ok pid (publish_list from pid root s)"
  by (auto simp: publish_list_def tasks_inv_def list_ok_def Let_def split: option.split)

lemma publish_list_rows:
  "findTask (publish_list from pid root s) x = row_at s pid x"
  by (auto simp: publish_list_def row_at_def Let_def findTask_def split: option.split)

lemma publish_row_ok:
  assumes "list_ok pid l" "publish_row e target ws l = (op, l')"
  shows "list_ok pid l'"
proof (cases "findTask l (ws_Slug ws)")
  case None
  then have "ws_Slug ws \<notin> t_Slug ` set (tl_Tasks l)" using findTask_None by blast
  then show ?thesis using assms None
    by (auto simp: publish_row_def list_ok_def known_statuses_def)
next
  case (Some t)
  then have "l' = touch_task e (ws_Slug ws) (\<lambda>t. t\<lparr>t_Branch := ws_Branch ws, t_Brief := ws_Brief ws,
             t_OwnedPaths := ws_OwnedPaths ws, t_Contracts := ws_Contracts ws, t_Worktree := target,
             t_Status := or_else (t_Status t) statusOpen\<rparr>) l" (is "_ = touch_task e _ ?f l")
    using assms(2) by (simp add: publish_row_def)
  moreover have "list_ok pid (touch_task e (ws_Slug ws) ?f l)"
    using assms(1) by (intro list_ok_touch) (auto simp: or_else_def list_ok_def known_statuses_def)
  ultimately show ?thesis by simp
qed

lemma publish_row_rows:
  assumes "publish_row e target ws l = (op, l')"
  shows "x \<noteq> ws_Slug ws \<Longrightarrow> findTask l' x = findTask l x"
    and "\<exists>t. findTask l' (ws_Slug ws) = Some t \<and> t_Branch t = ws_Branch ws \<and> t_Brief t = ws_Brief ws
      \<and> t_Worktree t = target \<and> t_Owner t = (case findTask l (ws_Slug ws) of None \<Rightarrow> [] | Some u \<Rightarrow> t_Owner u)"
  using assms by (auto simp: publish_row_def findTask_touch findTask_append split: option.splits)

lemma ensureRoom_rooms:
  "map_of (rooms (ensureRoomWithMembers e n by ms s)) x = (if x = n
     then Some (add_members ms (case map_of (rooms s) n of None \<Rightarrow> newRoom e n [] by | Some r \<Rightarrow> r))
     else map_of (rooms s) x)"
  by (simp add: ensureRoomWithMembers_def Let_def split: option.split)

lemma internalPost_other: "x \<noteq> n \<Longrightarrow> map_of (rooms (internalPost e n f b s)) x = map_of (rooms s) x"
  using deliver_room_state(1) by (auto simp: internalPost_def Let_def split: option.split prod.split)

lemma internalPost_room:
  assumes "map_of (rooms s) n = Some r" "distinct (r_members r)"
  shows "\<exists>r'. map_of (rooms (internalPost e n f b s)) n = Some r' \<and> r_members r' = r_members r
    \<and> r_Archived r' = r_Archived r \<and> r_seq r' = r_seq r + 1 \<and> r_log r' = r_log r @ [posted e r f b]"
proof -
  obtain r' s' where d: "deliver_room False (posted e r f b) (room_logged r (posted e r f b)) s = (r', s')" by fastforce
  note f = deliver_room_room(2-5)[OF d] 
  show ?thesis using assms d f by (simp add: internalPost_def Let_def)
qed

lemma publish_install_tasks: "tasks (publish_install e from pid ws l s) = AList.update pid l (tasks s)"
  by (simp add: publish_install_def Let_def)

lemma publish_install_rooms:
  "map_of (rooms (publish_install e from pid ws l s)) x = (if x = ws_Slug ws
     then Some ((add_members [from] (case map_of (rooms s) (ws_Slug ws) of
       None \<Rightarrow> newRoom e (ws_Slug ws) [] from | Some r \<Rightarrow> r))\<lparr>r_Archived := False\<rparr>)
     else map_of (rooms s) x)"
  by (simp add: publish_install_def Let_def archiveRoom_rooms ensureRoom_rooms)

lemma publish_install_keeps: "both_inv s \<Longrightarrow> both_inv (publish_install e from pid ws l s)"
proof -
  assume inv: "both_inv s"
  have "both_inv (on_room n persistRoomDefinition s)" "both_inv (on_room n persistRoomMembers s)" if "both_inv s" for n s
    using that by (auto intro: on_room_cong)
  then show ?thesis using inv by (simp add: publish_install_def Let_def ensureRoom_keeps archiveRoom_keeps)
qed

lemma publish_one_keeps:
  assumes "both_inv s"
  shows "both_inv (snd (publish_one e g from pid root wt ws s))"
  using publish_install_keeps[OF assms] internalPost_keeps assms
  by (auto simp: publish_one_def Let_def split: sum.split prod.split)

lemma publish_one_tasks_inv:
  assumes "tasks_inv s"
  shows "tasks_inv (snd (publish_one e g from pid root wt ws s))"
proof -
  have "tasks_inv (publish_install e from pid ws l s)" if "publish_row e t ws (publish_list from pid root s) = (op, l)" for t op l
    using tasks_inv_put[OF assms publish_row_ok[OF publish_list_ok[OF assms] that]]
    by (simp add: publish_install_tasks tasks_inv_def)
  then show ?thesis using assms by (auto simp: publish_one_def Let_def split: sum.split prod.split)
qed

lemma publish_one_agents:
  "agents (snd (publish_one e g from pid root wt ws s)) = agents s"
  "nameIdx (snd (publish_one e g from pid root wt ws s)) = nameIdx s"
  by (auto simp: publish_one_def publish_install_def Let_def split: sum.split prod.split)

lemma publish_one_failed: "publish_one e g from pid root wt ws s = (Inl j, s') \<Longrightarrow> s' = s"
  by (auto simp: publish_one_def Let_def split: sum.splits prod.splits if_splits)

lemma publish_one_other:
  assumes "publish_one e g from pid root wt ws s = (res, s')" "x \<noteq> ws_Slug ws"
  shows "row_at s' pid x = row_at s pid x \<and> map_of (rooms s') x = map_of (rooms s) x"
proof (cases "ensureWorktree g (pathJoin [wt, ws_Slug ws]) (ws_Branch ws)")
  case (Inl err)
  then show ?thesis using assms(1) by (auto simp: publish_one_def Let_def)
next
  case (Inr created)
  obtain op l where l: "publish_row e (pathJoin [wt, ws_Slug ws]) ws (publish_list from pid root s) = (op, l)" by fastforce
  have t: "tasks s' = AList.update pid l (tasks s)"
    using assms(1) Inr l by (auto simp: publish_one_def Let_def publish_install_tasks split: if_splits)
  have "map_of (rooms s') x = map_of (rooms s) x"
    using assms Inr l by (auto simp: publish_one_def Let_def publish_install_rooms internalPost_other split: if_splits)
  then show ?thesis
    using t publish_row_rows(1)[OF l assms(2)] by (simp add: row_at_def publish_list_rows[unfolded row_at_def])
qed

lemma publish_one_done:
  assumes "publish_one e g from pid root wt ws s = (Inr j, s')" "both_inv s"
  shows "\<exists>t r. row_at s' pid (ws_Slug ws) = Some t \<and> t_Branch t = ws_Branch ws \<and> t_Brief t = ws_Brief ws
    \<and> t_Worktree t = pathJoin [wt, ws_Slug ws]
    \<and> map_of (rooms s') (ws_Slug ws) = Some r \<and> \<not> r_Archived r \<and> from \<in> set (r_members r)"
proof -
  let ?n = "ws_Slug ws"
  obtain created where c: "ensureWorktree g (pathJoin [wt, ?n]) (ws_Branch ws) = Inr created"
    using assms(1) by (auto simp: publish_one_def Let_def split: sum.splits)
  obtain op l where l: "publish_row e (pathJoin [wt, ?n]) ws (publish_list from pid root s) = (op, l)" by fastforce
  let ?s1 = "publish_install e from pid ws l s"
  have s': "s' = ?s1 \<or> (\<exists>b. s' = internalPost e ?n from b ?s1)"
    using assms(1) c l by (auto simp: publish_one_def Let_def split: if_splits)
  then have t: "tasks s' = AList.update pid l (tasks s)" by (auto simp: publish_install_tasks)
  obtain r1 where r1: "map_of (rooms ?s1) ?n = Some r1" "\<not> r_Archived r1" "from \<in> set (r_members r1)"
    by (simp add: publish_install_rooms add_members_def)
  have "distinct (r_members r1)"
    using both_invD[OF publish_install_keeps[OF assms(2)] r1(1)] by (simp add: room_ok_def)
  then have "\<exists>r. map_of (rooms (internalPost e ?n from b ?s1)) ?n = Some r \<and> \<not> r_Archived r
      \<and> from \<in> set (r_members r)" for b
    using internalPost_room[OF r1(1), of e "from" b] r1(2,3) by fastforce
  then have "\<exists>r. map_of (rooms s') ?n = Some r \<and> \<not> r_Archived r \<and> from \<in> set (r_members r)"
    using s' r1 by auto
  moreover have "row_at s' pid ?n = findTask l ?n" by (simp add: row_at_def t)
  ultimately show ?thesis using publish_row_rows(2)[OF l] by auto
qed

section \<open>A whole publish\<close>

lemma parse_workstreams_slugs:
  "parse_workstreams i seen raws = Inr wss \<Longrightarrow> distinct (map ws_Slug wss) \<and> set (map ws_Slug wss) \<inter> set seen = {}
    \<and> (\<forall>ws \<in> set wss. ws_Slug ws \<noteq> [] \<and> ws_Branch ws \<noteq> []) \<and> length wss = length raws"
proof (induction i seen raws arbitrary: wss rule: parse_workstreams.induct)
  case (2 i seen raw raws)
  then obtain m where m: "raw = JObj m" by (cases raw) auto
  let ?n = "strVal m ''slug''"
  have ok: "?n \<noteq> []" "strVal m ''branch'' \<noteq> []" "?n \<notin> set seen"
    using 2(2) m by (auto simp: Let_def split: if_splits)
  then obtain ws where ws: "parse_workstreams (Suc i) (?n # seen) raws = Inr ws"
    using 2(2) m by (auto simp: Let_def split: sum.splits)
  then have "distinct (map ws_Slug ws) \<and> set (map ws_Slug ws) \<inter> set (?n # seen) = {}
      \<and> (\<forall>w \<in> set ws. ws_Slug w \<noteq> [] \<and> ws_Branch w \<noteq> []) \<and> length ws = length raws"
    using 2(1)[OF m refl refl] ok by simp
  then show ?case using 2(2) m ok ws by (auto simp: Let_def disjoint_iff)
qed simp

lemma publish_all_Cons:
  assumes "publish_all e i from pid root wt (ws # wss) s = (oks, fails, s')"
  obtains res s1 oks1 fails1 where "publish_one e (git e i) from pid root wt ws s = (res, s1)"
    "publish_all e (Suc i) from pid root wt wss s1 = (oks1, fails1, s')"
    "case res of Inr j \<Rightarrow> oks = j # oks1 \<and> fails = fails1 | Inl j \<Rightarrow> oks = oks1 \<and> fails = j # fails1"
  using assms by (auto split: prod.splits sum.splits)

lemma publish_all_keeps:
  assumes "publish_all e i from pid root wt wss s = (oks, fails, s')"
  shows "both_inv s \<Longrightarrow> both_inv s'" "tasks_inv s \<Longrightarrow> tasks_inv s'" "agents s' = agents s" "nameIdx s' = nameIdx s"
  using assms
proof (induction wss arbitrary: i s oks fails)
  case (Cons ws wss)
  {
    case 1 then show ?case using Cons.IH(1) publish_one_keeps by (metis publish_all_Cons snd_conv)
  next
    case 2 then show ?case using Cons.IH(2) publish_one_tasks_inv by (metis publish_all_Cons snd_conv)
  next
    case 3 then show ?case using Cons.IH(3) publish_one_agents(1) by (metis publish_all_Cons snd_conv)
  next
    case 4 then show ?case using Cons.IH(4) publish_one_agents(2) by (metis publish_all_Cons snd_conv)
  }
qed simp_all

lemma publish_all_other:
  "publish_all e i from pid root wt wss s = (oks, fails, s') \<Longrightarrow> x \<notin> set (map ws_Slug wss) \<Longrightarrow>
    row_at s' pid x = row_at s pid x \<and> map_of (rooms s') x = map_of (rooms s) x"
proof (induction wss arbitrary: i s oks fails)
  case (Cons ws wss)
  from Cons.prems(1) show ?case
  proof (cases rule: publish_all_Cons)
    case (1 res s1 oks1 fails1)
    then show ?thesis using Cons.IH[OF 1(2)] publish_one_other[OF 1(1), of x] Cons.prems(2) by simp
  qed
qed simp

definition published :: "state \<Rightarrow> string \<Rightarrow> string \<Rightarrow> string \<Rightarrow> wsInput \<Rightarrow> bool" where
  \<comment> \<open>the row is installed and its room is open with the supervisor in it\<close>
  "published s from pid wt ws \<longleftrightarrow> (\<exists>t r. row_at s pid (ws_Slug ws) = Some t \<and> t_Branch t = ws_Branch ws
     \<and> t_Brief t = ws_Brief ws \<and> t_Worktree t = pathJoin [wt, ws_Slug ws]
     \<and> map_of (rooms s) (ws_Slug ws) = Some r \<and> \<not> r_Archived r \<and> from \<in> set (r_members r))"

lemma publish_all_each:
  assumes "publish_all e i from pid root wt wss s = (oks, fails, s')" "distinct (map ws_Slug wss)" "both_inv s"
  shows "length oks + length fails = length wss \<and> (\<forall>k < length wss. let ws = wss ! k in
      case ensureWorktree (git e (i + k)) (pathJoin [wt, ws_Slug ws]) (ws_Branch ws) of
        Inl err \<Rightarrow> JObj [(''slug'', JStr (ws_Slug ws)), (''error'', JStr err)] \<in> set fails
          \<and> row_at s' pid (ws_Slug ws) = row_at s pid (ws_Slug ws)
          \<and> map_of (rooms s') (ws_Slug ws) = map_of (rooms s) (ws_Slug ws)
      | Inr created \<Rightarrow> published s' from pid wt ws)"
  using assms
proof (induction wss arbitrary: i s oks fails)
  case (Cons ws wss)
  from Cons.prems(1) show ?case
  proof (cases rule: publish_all_Cons)
    case (1 res s1 oks1 fails1)
    note inv1 = publish_one_keeps[OF Cons.prems(3), of e "git e i" "from" pid root wt ws]
    have ih: "length oks1 + length fails1 = length wss \<and> (\<forall>k < length wss. let ws = wss ! k in
      case ensureWorktree (git e (Suc i + k)) (pathJoin [wt, ws_Slug ws]) (ws_Branch ws) of
        Inl err \<Rightarrow> JObj [(''slug'', JStr (ws_Slug ws)), (''error'', JStr err)] \<in> set fails1
          \<and> row_at s' pid (ws_Slug ws) = row_at s1 pid (ws_Slug ws)
          \<and> map_of (rooms s') (ws_Slug ws) = map_of (rooms s1) (ws_Slug ws)
      | Inr created \<Rightarrow> published s' from pid wt ws)"
      using Cons.IH[OF 1(2)] Cons.prems(2) inv1 1(1) by simp
    have sub: "set fails1 \<subseteq> set fails" using 1(3) by (auto split: sum.splits)
    have nin: "ws_Slug ws \<notin> set (map ws_Slug wss)" using Cons.prems(2) by simp
    note keep = publish_all_other[OF 1(2) nin]
    have head: "case ensureWorktree (git e i) (pathJoin [wt, ws_Slug ws]) (ws_Branch ws) of
        Inl err \<Rightarrow> JObj [(''slug'', JStr (ws_Slug ws)), (''error'', JStr err)] \<in> set fails
          \<and> row_at s' pid (ws_Slug ws) = row_at s pid (ws_Slug ws)
          \<and> map_of (rooms s') (ws_Slug ws) = map_of (rooms s) (ws_Slug ws)
      | Inr created \<Rightarrow> published s' from pid wt ws"
    proof (cases "ensureWorktree (git e i) (pathJoin [wt, ws_Slug ws]) (ws_Branch ws)")
      case (Inl err)
      then have "res = Inl (JObj [(''slug'', JStr (ws_Slug ws)), (''error'', JStr err)])" "s1 = s"
        using 1(1) by (simp_all add: publish_one_def Let_def)
      then show ?thesis using Inl keep 1(3) by simp
    next
      case (Inr created)
      then obtain j where "res = Inr j" using 1(1)
        by (auto simp: publish_one_def Let_def split: prod.splits if_splits)
      then show ?thesis using publish_one_done[of e "git e i" "from" pid root wt ws s j s1] 1(1) Cons.prems(3) keep Inr
        by (simp add: published_def)
    qed
    have "let ws' = (ws # wss) ! k in
      case ensureWorktree (git e (i + k)) (pathJoin [wt, ws_Slug ws']) (ws_Branch ws') of
        Inl err \<Rightarrow> JObj [(''slug'', JStr (ws_Slug ws')), (''error'', JStr err)] \<in> set fails
          \<and> row_at s' pid (ws_Slug ws') = row_at s pid (ws_Slug ws')
          \<and> map_of (rooms s') (ws_Slug ws') = map_of (rooms s) (ws_Slug ws')
      | Inr created \<Rightarrow> published s' from pid wt ws'" if k: "k < length (ws # wss)" for k
    proof (cases k)
      case 0
      then show ?thesis using head by simp
    next
      case (Suc m)
      then have m: "m < length wss" using k by simp
      then have "ws_Slug (wss ! m) \<noteq> ws_Slug ws" using nin by (metis nth_mem image_eqI set_map)
      note other = publish_one_other[OF 1(1) this]
      show ?thesis using ih m other sub Suc by (fastforce simp: Let_def split: sum.splits)
    qed
    moreover have "length oks + length fails = length (ws # wss)"
      using ih 1(3) by (auto split: sum.splits)
    ultimately show ?thesis by blast
  qed
qed simp

lemma opTaskPublish_accepted:
  assumes "opTaskPublish e req s = (resp, s')" "OK resp"
  obtains root wss oks fails where
    "publish_root e (strVal (Args req) ''repo_root'') = Inr root"
    "parse_workstreams 0 [] (arrVal (Args req) ''workstreams'') = Inr wss"
    "publish_auth e (strVal (Args req) ''from'') (strVal (Args req) ''project'') root s = None"
    "publish_all e 0 (strVal (Args req) ''from'') (strVal (Args req) ''project'') root (pathJoin [pathDir root, ''wt'']) wss s
       = (oks, fails, s')"
    "resp = okResponse (JObj [(''project'', JStr (strVal (Args req) ''project'')), (''ok'', JArr oks),
       (''failed'', JArr fails), (''repo_root'', JStr root)])"
proof -
  let ?from = "strVal (Args req) ''from''" and ?pid = "strVal (Args req) ''project''"
  have err: "parse_workstreams i seen raws = Inl r \<Longrightarrow> \<not> OK r" for i seen raws r
    by (induction i seen raws arbitrary: r rule: parse_workstreams.induct)
      (auto simp: Let_def split: json.splits if_splits sum.splits)
  have root: "publish_root e p = Inl r \<Longrightarrow> \<not> OK r" for p r
    by (auto simp: publish_root_def split: sum.splits if_splits)
  have auth: "publish_auth e f p rt s = Some r \<Longrightarrow> \<not> OK r" for f p rt r
    by (auto simp: publish_auth_def not_registered_auth_def not_supervisor_def Let_def split: option.splits if_splits)
  have ne: "?from \<noteq> []" "?pid \<noteq> []" "strVal (Args req) ''repo_root'' \<noteq> []" "arrVal (Args req) ''workstreams'' \<noteq> []"
    using assms by (auto simp: opTaskPublish_def Let_def split: if_splits)
  obtain rt where rt: "publish_root e (strVal (Args req) ''repo_root'') = Inr rt"
    using assms ne root by (cases "publish_root e (strVal (Args req) ''repo_root'')") (auto simp: opTaskPublish_def Let_def)
  obtain wss where wss: "parse_workstreams 0 [] (arrVal (Args req) ''workstreams'') = Inr wss"
    using assms ne rt err by (cases "parse_workstreams 0 [] (arrVal (Args req) ''workstreams'')")
      (auto simp: opTaskPublish_def Let_def)
  have au: "publish_auth e ?from ?pid rt s = None"
    using assms ne rt wss auth by (cases "publish_auth e ?from ?pid rt s") (auto simp: opTaskPublish_def Let_def)
  obtain oks fails t where "publish_all e 0 ?from ?pid rt (pathJoin [pathDir rt, ''wt'']) wss s = (oks, fails, t)"
    by (metis prod_cases3)
  then show thesis using assms ne rt wss au by (intro that) (auto simp: opTaskPublish_def Let_def)
qed

lemma opTaskPublish_refused:
  assumes "opTaskPublish e req s = (resp, s')" "\<not> OK resp"
  shows "s' = s"
  using assms by (auto simp: opTaskPublish_def Let_def split: if_splits sum.splits option.splits prod.splits)

lemma opTaskPublish_keeps:
  shows "both_inv s \<Longrightarrow> both_inv (snd (opTaskPublish e req s))" "tasks_inv s \<Longrightarrow> tasks_inv (snd (opTaskPublish e req s))"
    "agents (snd (opTaskPublish e req s)) = agents s" "nameIdx (snd (opTaskPublish e req s)) = nameIdx s"
proof -
  obtain resp s' where r: "opTaskPublish e req s = (resp, s')" by fastforce
  have "(both_inv s \<longrightarrow> both_inv s') \<and> (tasks_inv s \<longrightarrow> tasks_inv s') \<and> agents s' = agents s \<and> nameIdx s' = nameIdx s"
  proof (cases "OK resp")
    case True
    from opTaskPublish_accepted[OF r True] show ?thesis using publish_all_keeps by metis
  qed (use opTaskPublish_refused[OF r] in simp)
  then show "both_inv s \<Longrightarrow> both_inv (snd (opTaskPublish e req s))" "tasks_inv s \<Longrightarrow> tasks_inv (snd (opTaskPublish e req s))"
    "agents (snd (opTaskPublish e req s)) = agents s" "nameIdx (snd (opTaskPublish e req s)) = nameIdx s"
    using r by simp_all
qed

text \<open>C20: Publishing is atomic per workstream. Every workstream of an accepted publish is either reported as
  failed with the error of its worktree, and then its row and its room are as before, or its row is
  installed with the branch, brief and worktree asked for and its room is open with the supervisor in
  it; a failure never stops the others.\<close>

theorem publish_per_slug:
  assumes "both_inv s" "opTaskPublish e req s = (resp, s')" "OK resp" "strVal (Args req) ''project'' = pid"
  shows "\<exists>root wss oks fails. parse_workstreams 0 [] (arrVal (Args req) ''workstreams'') = Inr wss
    \<and> Data resp = Some (JObj [(''project'', JStr pid), (''ok'', JArr oks), (''failed'', JArr fails), (''repo_root'', JStr root)])
    \<and> length oks + length fails = length wss
    \<and> (\<forall>k < length wss. let ws = wss ! k; wt = pathJoin [pathDir root, ''wt''] in
        case ensureWorktree (git e k) (pathJoin [wt, ws_Slug ws]) (ws_Branch ws) of
          Inl err \<Rightarrow> JObj [(''slug'', JStr (ws_Slug ws)), (''error'', JStr err)] \<in> set fails
            \<and> row_at s' pid (ws_Slug ws) = row_at s pid (ws_Slug ws)
            \<and> map_of (rooms s') (ws_Slug ws) = map_of (rooms s) (ws_Slug ws)
        | Inr created \<Rightarrow> published s' (strVal (Args req) ''from'') pid wt ws)"
  using assms(2,3)
proof (rule opTaskPublish_accepted)
  fix root wss oks fails
  assume p: "parse_workstreams 0 [] (arrVal (Args req) ''workstreams'') = Inr wss"
    "publish_all e 0 (strVal (Args req) ''from'') (strVal (Args req) ''project'') root (pathJoin [pathDir root, ''wt'']) wss s
       = (oks, fails, s')"
    "resp = okResponse (JObj [(''project'', JStr (strVal (Args req) ''project'')), (''ok'', JArr oks),
       (''failed'', JArr fails), (''repo_root'', JStr root)])"
  have "distinct (map ws_Slug wss)" using parse_workstreams_slugs[OF p(1)] by blast
  from publish_all_each[OF p(2) this assms(1)] show ?thesis
    unfolding assms(4)[symmetric]
    by - (rule exI[of _ root], rule exI[of _ wss], rule exI[of _ oks], rule exI[of _ fails],
      use p(1,3) in \<open>simp add: Let_def\<close>)
qed

text \<open>Only a registered supervisor publishes, only under its own project and repository when it has
  registered with them, and never into a list that another agent supervises.\<close>

theorem publish_authorised:
  assumes "opTaskPublish e req s = (resp, s')" "OK resp" "strVal (Args req) ''from'' = from"
    "strVal (Args req) ''project'' = pid"
  shows "\<exists>a. agentByName s from = Some a \<and> ag_Role a = ''supervisor'' \<and> (ag_Project a = [] \<or> ag_Project a = pid)
    \<and> (ag_RepoRoot a = [] \<or> (case absPath e (ag_RepoRoot a) of Inl _ \<Rightarrow> [] | Inr p \<Rightarrow> p) =
         (case absPath e (strVal (Args req) ''repo_root'') of Inl _ \<Rightarrow> [] | Inr p \<Rightarrow> p))
    \<and> (\<forall>l. map_of (tasks s) pid = Some l \<longrightarrow> tl_Supervisor l = [] \<or> tl_Supervisor l = from)"
  using assms(1,2)
proof (rule opTaskPublish_accepted)
  fix root wss oks fails
  assume p: "publish_root e (strVal (Args req) ''repo_root'') = Inr root"
    "publish_auth e (strVal (Args req) ''from'') (strVal (Args req) ''project'') root s = None"
  have "absPath e (strVal (Args req) ''repo_root'') = Inr root"
    using p(1) by (auto simp: publish_root_def split: sum.splits if_splits)
  then show ?thesis using p(2) assms(3,4) by (auto simp: publish_auth_def Let_def split: option.splits if_splits)
qed

text \<open>Publishing a workstream again changes no conversation: when its row is open on the branch, its
  worktree is there and its room has posts, the answer says so, and the room keeps its log, its
  mailboxes and its waiting readers.\<close>

theorem republish_is_noop:
  assumes "row_at s pid (ws_Slug ws) = Some t" "t_Status t = statusOpen" "t_Branch t = ws_Branch ws"
    "ensureWorktree g (pathJoin [wt, ws_Slug ws]) (ws_Branch ws) = Inr False"
    "map_of (rooms s) (ws_Slug ws) = Some r" "0 < r_seq r" "from \<in> set (r_members r)"
    "publish_one e g from pid root wt ws s = (res, s')"
  shows "res = Inr (JObj [(''slug'', JStr (ws_Slug ws)), (''noop'', JBool True)])
    \<and> map_of (rooms s') (ws_Slug ws) = Some (r\<lparr>r_Archived := False\<rparr>) \<and> bufs s' = bufs s \<and> anyWaiter s' = anyWaiter s"
proof -
  obtain op l where l: "publish_row e (pathJoin [wt, ws_Slug ws]) ws (publish_list from pid root s) = (op, l)" by fastforce
  have "op" using l assms(1-3) publish_list_rows[of "from" pid root s] by (simp add: publish_row_def)
  have am: "add_members [from] r = r" using assms(7) by (simp add: add_members_def add_member_def)
  let ?s1 = "publish_install e from pid ws l s"
  have r1: "map_of (rooms ?s1) (ws_Slug ws) = Some (r\<lparr>r_Archived := False\<rparr>)"
    using assms(5) am by (simp add: publish_install_rooms)
  have "bufs ?s1 = bufs s" "anyWaiter ?s1 = anyWaiter s"
    by (simp_all add: publish_install_def Let_def on_room_def persistRoomDefinition_def split: option.split)
  then show ?thesis using assms(4,6,8) l \<open>op\<close> r1 by (simp add: publish_one_def Let_def)
qed

lemma deliver_room_queue:
  assumes "deliver_room False m r s = (r', s')"
  shows "queue s' = queue s"
proof -
  have "queue s' = queue s" if "fold (deliver_member False m) ns (r, s) = (r', s')" for ns r s
    using that
  proof (induction ns arbitrary: r s)
    case (Cons n ns)
    obtain r1 s1 where d: "deliver_member False m n (r, s) = (r1, s1)" by fastforce
    then have "queue s1 = queue s"
      unfolding deliver_member_cases by (auto split: if_splits option.splits bool.splits prod.splits)
    then show ?case using Cons d by simp
  qed simp
  then show ?thesis using assms unfolding deliver_room_def by blast
qed

text \<open>The bundle post of a publish is not durable: it enters the mailbox of a member nobody waits for,
  while the side store keeps the rows it had, so the member's mailbox and its durable copy differ
  afterwards (a restart loses the post from the mailbox).\<close>

theorem bundle_post_not_durable:
  assumes "map_of (rooms s) n = Some r" "distinct (r_members r)" "m \<in> set (r_members r)" "m \<noteq> from"
    "reader_of r s m = None" "queue s = Some d" "live_store s" "length (rbox r m) < roomMailboxLimit"
    "room_durable d r m"
  shows "\<exists>r'. map_of (rooms (internalPost e n from body s)) n = Some r'
    \<and> rbox r' m = rbox r m @ [posted e r from body]
    \<and> \<not> durable_in (internalPost e n from body s) r' m"
proof -
  let ?m = "posted e r from body"
  obtain r' s1 where dl: "deliver_room False ?m (room_logged r ?m) s = (r', s1)" by fastforce
  have box: "rbox r' m = rbox r m @ [?m]" "r_Name r' = r_Name r"
    using deliver_room_room(1,6)[OF dl] assms(2-5,8) by (simp_all add: pushed_def reader_of_def)
  have s': "internalPost e n from body s = room_write (r_Name r') ?m (put_room n r' s1)"
    using assms(1) dl by (simp add: internalPost_def Let_def)
  have q: "queue s1 = Some d"
    using dl assms(6) by (simp add: deliver_room_queue)
  have "\<not> durable_in (put_room n r' s1) r' m"
    using assms(9) box q by (auto simp: durable_in_def room_durable_def room_key_def)
  then show ?thesis using box s' by (simp add: durable_in_room_write)
qed

end
