(* ===== verification/Task_Handlers.thy ===== *)
theory Task_Handlers
  imports Tasks
begin

text \<open>
  The other task handlers of \<^verbatim>\<open>task.go\<close>: unassign, reassign, status, claim, show, list,
  bulletin, unpublish and handoff, and the one-shot migration of the old plan files.
\<close>

section \<open>Definitions\<close>

definition missing_slug :: "string \<Rightarrow> response" where
  "missing_slug hint = errorResponse CodeError ''missing_slug'' hint ''slug required'' []"

definition no_task_list :: "string \<Rightarrow> string \<Rightarrow> response" where
  "no_task_list hint pid = not_found ''task_list_not_found'' hint (''no task list for project: '' @ pid)
     [(''project'', JStr pid)]"

definition slug_not_found :: "string \<Rightarrow> string \<Rightarrow> response" where
  "slug_not_found hint slug = not_found ''slug_not_found'' hint (''slug not found: '' @ slug) [(''slug'', JStr slug)]"

definition find_row :: "string \<Rightarrow> string \<Rightarrow> string \<Rightarrow> string \<Rightarrow> state \<Rightarrow> response + (taskList \<times> task)" where
  \<comment> \<open>the list of the project and the row of the slug\<close>
  "find_row listHint slugHint pid slug s =
     (case map_of (tasks s) pid of
        None \<Rightarrow> Inl (no_task_list listHint pid)
      | Some l \<Rightarrow> (case findTask l slug of
            None \<Rightarrow> Inl (slug_not_found slugHint slug)
          | Some t \<Rightarrow> Inr (l, t)))"

definition change_row :: "env \<Rightarrow> string \<Rightarrow> string \<Rightarrow> (task \<Rightarrow> task) \<Rightarrow> taskList \<Rightarrow> state \<Rightarrow> state" where
  \<comment> \<open>change the row in place, stamp it and the list, write the list\<close>
  "change_row e pid slug f l s = (let l' = touch_task e slug f l in persistTaskList l' (put_tasks pid l' s))"

definition row_of :: "string \<Rightarrow> string \<Rightarrow> state \<Rightarrow> json" where
  \<comment> \<open>\<^verbatim>\<open>taskToMap(*t)\<close> of the pointer the handler holds\<close>
  "row_of pid slug s = (case map_of (tasks s) pid of None \<Rightarrow> JNull
     | Some l \<Rightarrow> (case findTask l slug of None \<Rightarrow> JNull | Some t \<Rightarrow> taskToMap t))"

text \<open>
  Each handler that changes something is a check, which finds the row or the error to answer,
  and the change.
\<close>

definition unassign_check :: "request \<Rightarrow> state \<Rightarrow> response + (taskList \<times> task)" where
  "unassign_check req s =
     (let from = strVal (Args req) ''from''; slug = strVal (Args req) ''slug''; pid = strVal (Args req) ''project''
      in if from = [] then Inl missing_from
         else if slug = [] then Inl (missing_slug ''provide the slug to unassign'')
         else if pid = [] then Inl missing_project
         else case requireSupervisor from pid s of
           Some err \<Rightarrow> Inl err
         | None \<Rightarrow> find_row ''run task publish to initialise tasks for this project''
             ''check lalia task show for available slugs'' pid slug s)"

definition opTaskUnassign :: "env \<Rightarrow> request \<Rightarrow> state \<Rightarrow> response \<times> state" where
  "opTaskUnassign e req s =
     (let slug = strVal (Args req) ''slug''; pid = strVal (Args req) ''project''
      in case unassign_check req s of
           Inl err \<Rightarrow> (err, s)
         | Inr (l, t) \<Rightarrow>
             let s = change_row e pid slug (\<lambda>t. t\<lparr>t_Owner := [], t_Status := statusOpen\<rparr>) l s
             in (okResponse (row_of pid slug s), s))"

definition drop_member :: "string \<Rightarrow> room \<Rightarrow> room" where
  \<comment> \<open>\<^verbatim>\<open>delete(r.members, n)\<close>\<close>
  "drop_member n r = r\<lparr>r_members := del_member n (r_members r)\<rparr>"

definition reassign_check :: "request \<Rightarrow> state \<Rightarrow> response + (taskList \<times> task)" where
  "reassign_check req s =
     (let from = strVal (Args req) ''from''; slug = strVal (Args req) ''slug'';
          newOwner = strVal (Args req) ''owner''; pid = strVal (Args req) ''project''
      in if from = [] then Inl missing_from
         else if slug = [] \<or> newOwner = [] then
           Inl (missing_params ''provide slug and owner'' ''slug and owner required''
              [(''slug'', JStr slug), (''owner'', JStr newOwner)])
         else if pid = [] then Inl missing_project
         else case requireSupervisor from pid s of
           Some err \<Rightarrow> Inl err
         | None \<Rightarrow>
             if agentByName s newOwner = None then
               Inl (not_found ''owner_not_registered'' ''the target agent must be registered''
                  (''agent not registered: '' @ newOwner) [(''owner'', JStr newOwner)])
             else find_row ''publish tasks for this project first''
                 ''check lalia task show for available slugs'' pid slug s)"

definition reassign_rooms :: "env \<Rightarrow> string \<Rightarrow> string \<Rightarrow> string \<Rightarrow> string \<Rightarrow> state \<Rightarrow> state" where
  \<comment> \<open>rewire the membership of the room\<close>
  "reassign_rooms e slug supervisor oldOwner newOwner s =
     (let s = ensureRoomWithMembers e slug supervisor [supervisor, newOwner] s;
          s = (if oldOwner \<noteq> [] \<and> oldOwner \<noteq> newOwner
               then on_room slug (\<lambda>r. put_room slug (drop_member oldOwner r)) s else s)
      in on_room slug persistRoomMembers s)"

definition opTaskReassign :: "env \<Rightarrow> request \<Rightarrow> state \<Rightarrow> response \<times> state" where
  "opTaskReassign e req s =
     (let slug = strVal (Args req) ''slug''; newOwner = strVal (Args req) ''owner''; pid = strVal (Args req) ''project''
      in case reassign_check req s of
           Inl err \<Rightarrow> (err, s)
         | Inr (l, t) \<Rightarrow>
             let s = change_row e pid slug (\<lambda>t. t\<lparr>t_Owner := newOwner, t_Status := statusAssigned\<rparr>) l s;
                 s = reassign_rooms e slug (tl_Supervisor l) (t_Owner t) newOwner s
             in (okResponse (row_of pid slug s), s))"

definition all_statuses :: "string list" where
  "all_statuses = workerStatuses @ [statusMerged, statusOpen, statusAssigned]"

definition status_check :: "request \<Rightarrow> state \<Rightarrow> response + (taskList \<times> task)" where
  "status_check req s =
     (let from = strVal (Args req) ''from''; slug = strVal (Args req) ''slug'';
          status = strVal (Args req) ''status''; pid = strVal (Args req) ''project''
      in if from = [] then Inl missing_from
         else if slug = [] \<or> status = [] then
           Inl (missing_params ''provide slug and status'' ''slug and status required'' [])
         else if pid = [] then Inl missing_project
         else case find_row ''publish tasks for this project first''
             ''check lalia task show for available slugs'' pid slug s of
           Inl err \<Rightarrow> Inl err
         | Inr (l, t) \<Rightarrow>
             let isSupervisor = (tl_Supervisor l = from); isOwner = (t_Owner t = from)
             in if \<not> isSupervisor \<and> \<not> isOwner then
                  Inl (unauthorized ''not_your_row'' ''only the row owner or supervisor may change this status''
                     (''cannot mutate row owned by '' @ t_Owner t)
                     [(''slug'', JStr slug), (''owner'', JStr (t_Owner t)), (''from'', JStr from)])
                else if \<not> isSupervisor \<and> status \<notin> set workerStatuses then
                  Inl (unauthorized ''status_not_allowed'' ''workers may only set: in-progress, ready, blocked''
                     (''workers cannot set status '' @ status) [(''status'', JStr status)])
                else if status \<notin> set all_statuses then
                  Inl (errorResponse CodeError ''invalid_status''
                     ''valid values: open, assigned, in-progress, ready, blocked, merged''
                     (''invalid status: '' @ status) [(''status'', JStr status)])
                else Inr (l, t))"

definition opTaskStatus :: "env \<Rightarrow> request \<Rightarrow> state \<Rightarrow> response \<times> state" where
  "opTaskStatus e req s =
     (let slug = strVal (Args req) ''slug''; status = strVal (Args req) ''status''; pid = strVal (Args req) ''project''
      in case status_check req s of
           Inl err \<Rightarrow> (err, s)
         | Inr (l, t) \<Rightarrow>
             let s = change_row e pid slug (\<lambda>t. t\<lparr>t_Status := status\<rparr>) l s
             in (okResponse (row_of pid slug s), s))"

definition bundle_json :: "string \<Rightarrow> state \<Rightarrow> json" where
  \<comment> \<open>the first message of the room, or a nil map\<close>
  "bundle_json slug s = (case map_of (rooms s) slug of None \<Rightarrow> JNull
     | Some r \<Rightarrow> (case r_log r of [] \<Rightarrow> JNull
        | m # _ \<Rightarrow> JObj [(''seq'', JNum (rm_Seq m)), (''from'', JStr (rm_From m)),
             (''ts'', JStr (rfc3339 (rm_TS m))), (''body'', JStr (rm_Body m))]))"

definition supervisor_cannot_claim :: "string \<Rightarrow> response" where
  "supervisor_cannot_claim from = unauthorized ''supervisor_cannot_claim''
     ''register with --role worker to claim tasks; supervisors publish and supervise''
     (''supervisor '' @ from @ '' may not claim tasks'') [(''from'', JStr from), (''role'', JStr ''supervisor'')]"

definition claim_check :: "request \<Rightarrow> state \<Rightarrow> response + (taskList \<times> task)" where
  "claim_check req s =
     (let from = strVal (Args req) ''from''; slug = strVal (Args req) ''slug''; pid = strVal (Args req) ''project''
      in if from = [] then Inl missing_from
         else if slug = [] then Inl (missing_slug ''provide the slug to claim'')
         else if pid = [] then Inl missing_project
         else if (case agentByName s from of None \<Rightarrow> False | Some a \<Rightarrow> ag_Role a = ''supervisor'') then
           Inl (supervisor_cannot_claim from)
         else case find_row ''no tasks published for this project yet''
             ''check lalia task bulletin for open slugs'' pid slug s of
           Inl err \<Rightarrow> Inl err
         | Inr (l, t) \<Rightarrow>
             if t_Status t \<noteq> statusOpen then
               Inl (errorResponse CodeError ''not_open'' ''only open tasks can be claimed''
                  (''task '' @ slug @ '' is not open (status='' @ t_Status t @ '')'')
                  [(''slug'', JStr slug), (''status'', JStr (t_Status t))])
             else Inr (l, t))"

definition opTaskClaim :: "env \<Rightarrow> request \<Rightarrow> state \<Rightarrow> response \<times> state" where
  "opTaskClaim e req s =
     (let from = strVal (Args req) ''from''; slug = strVal (Args req) ''slug''; pid = strVal (Args req) ''project''
      in case claim_check req s of
           Inl err \<Rightarrow> (err, s)
         | Inr (l, t) \<Rightarrow>
             let t' = t\<lparr>t_Owner := from, t_Status := statusInProgress, t_UpdatedAt := now e\<rparr>;
                 s = change_row e pid slug (\<lambda>t. t\<lparr>t_Owner := from, t_Status := statusInProgress\<rparr>) l s;
                 s = ensureRoomWithMembers e slug (tl_Supervisor l) [tl_Supervisor l, from] s;
                 s = on_room slug persistRoomMembers s
             in (okResponse (JObj (task_members t' @ [(''bundle'', bundle_json slug s)])), s))"

definition opTaskShow :: "request \<Rightarrow> state \<Rightarrow> response" where
  "opTaskShow req s =
     (let pid = strVal (Args req) ''project''; slug = strVal (Args req) ''slug''
      in if pid = [] then missing_project
         else case map_of (tasks s) pid of
           None \<Rightarrow> no_task_list ''no tasks published for this project yet'' pid
         | Some l \<Rightarrow>
             if slug \<noteq> [] then (case findTask l slug of
                 None \<Rightarrow> slug_not_found ''check lalia task bulletin for available slugs'' slug
               | Some t \<Rightarrow> okResponse (taskToMap t))
             else okResponse (taskListToMap l))"

definition opTaskList :: "request \<Rightarrow> state \<Rightarrow> response" where
  "opTaskList req s =
     (let from = strVal (Args req) ''from''
      in if from = [] then missing_from
         else okResponse (JArr (map taskListToMap
           (filter (\<lambda>l. tl_Supervisor l = from \<or> (\<exists>t \<in> set (tl_Tasks l). t_Owner t = from)) (map snd (tasks s))))))"

definition brief_head :: "string \<Rightarrow> string" where
  \<comment> \<open>the first line, trimmed\<close>
  "brief_head brief = trimSpace (case strIndex brief [nl] of None \<Rightarrow> brief | Some i \<Rightarrow> take i brief)"

definition bulletin_json :: "state \<Rightarrow> task \<Rightarrow> json" where
  "bulletin_json s t = JObj [(''slug'', JStr (t_Slug t)), (''brief_summary'', JStr (brief_head (t_Brief t))),
     (''owned_paths'', owned_json (t_OwnedPaths t)), (''branch'', JStr (t_Branch t)),
     (''worktree'', JStr (t_Worktree t)), (''status'', JStr (t_Status t)), (''owner'', JStr (t_Owner t)),
     (''has_context'', JBool (case map_of (rooms s) (t_Slug t) of None \<Rightarrow> False | Some r \<Rightarrow> 0 < r_seq r))]"

definition opTaskBulletin :: "request \<Rightarrow> state \<Rightarrow> response" where
  "opTaskBulletin req s =
     (let from = strVal (Args req) ''from''; pid = strVal (Args req) ''project''
      in if from = [] then missing_from
         else if pid = [] then missing_project
         else case map_of (tasks s) pid of
           None \<Rightarrow> okResponse (JObj [(''project'', JStr pid), (''tasks'', JArr [])])
         | Some l \<Rightarrow> okResponse (JObj [(''project'', JStr pid), (''tasks'', JArr (map (bulletin_json s)
               (filter (\<lambda>t. t_Status t = statusOpen) (tl_Tasks l))))]))"

section \<open>Unpublishing\<close>

definition room_msgs :: "string \<Rightarrow> state \<Rightarrow> nat" where
  "room_msgs slug s = (case map_of (rooms s) slug of None \<Rightarrow> 0 | Some r \<Rightarrow> length (r_log r))"

definition owner_gate :: "env \<Rightarrow> string \<Rightarrow> task \<Rightarrow> bool \<Rightarrow> state \<Rightarrow> response option" where
  \<comment> \<open>the liveness gate: the lease of the owner\<close>
  "owner_gate e slug t evictOwner s =
     (if t_Owner t = [] then None
      else case agentByName s (t_Owner t) of
        None \<Rightarrow> None
      | Some a \<Rightarrow>
          if live e a \<and> \<not> evictOwner then
            Some (errorResponse CodeError ''owner_lease_live''
              ''wait for the owner to unregister or pass --evict-owner to override''
              (''owner '' @ t_Owner t @ [CHR 0x27] @ ''s lease is live until '' @ rfc3339 (ag_ExpiresAt a))
              [(''slug'', JStr slug), (''owner'', JStr (t_Owner t)), (''owner_agent_id'', JStr (ag_AgentID a)),
               (''expires_at'', JStr (rfc3339 (ag_ExpiresAt a)))])
          else None)"

definition unpublish_gates :: "env \<Rightarrow> gitworld \<Rightarrow> string \<Rightarrow> task \<Rightarrow> bool \<Rightarrow> bool \<Rightarrow> bool \<Rightarrow> state \<Rightarrow> response option" where
  "unpublish_gates e g slug t force wipe evictOwner s =
     (let msgCount = room_msgs slug s; hasOwner = (t_Owner t \<noteq> []); hasTraffic = (1 < msgCount)
      in if (hasOwner \<or> hasTraffic) \<and> \<not> force then
           Some (errorResponse CodeError ''unpublish_needs_force''
             ''re-run with --force to proceed; the task has active state''
             (''task '' @ slug @ '' has owner or room traffic '' @ [CHR 0xE2, CHR 0x80, CHR 0x94] @ '' unpublish requires --force'')
             [(''slug'', JStr slug), (''owner'', JStr (t_Owner t)), (''room_msgs'', JNum (int msgCount)),
              (''bundle_only'', JBool (\<not> hasTraffic))])
         else if wipe \<and> t_Worktree t \<noteq> [] then
           (case worktreeIsClean g (t_Worktree t) of
              Some detail \<Rightarrow> Some (errorResponse CodeError ''worktree_not_clean''
                ''commit or push work in the worktree, or delete it manually, then retry''
                (''worktree '' @ t_Worktree t @ '' is not clean: '' @ detail)
                [(''slug'', JStr slug), (''worktree'', JStr (t_Worktree t)), (''detail'', JStr detail)])
            | None \<Rightarrow> owner_gate e slug t evictOwner s)
         else None)"

definition wipe_worktree :: "gitworld \<Rightarrow> string \<Rightarrow> task \<Rightarrow> bool \<Rightarrow> bool \<times> string \<times> string" where
  \<comment> \<open>\<^verbatim>\<open>worktree_removed\<close>, \<^verbatim>\<open>worktree_preserved\<close> and \<^verbatim>\<open>worktree_remove_error\<close>\<close>
  "wipe_worktree g repoRoot t wipe =
     (let preserved = (if \<not> wipe then ''default'' else [])
      in if wipe \<and> t_Worktree t \<noteq> [] \<and> repoRoot \<noteq> [] then
           (case removeWorktree g (t_Worktree t) of
              Some err \<Rightarrow> (False, ''remove_failed'', err)
            | None \<Rightarrow> (True, preserved, []))
         else (False, preserved, []))"

definition drop_row :: "env \<Rightarrow> string \<Rightarrow> string \<Rightarrow> state \<Rightarrow> state" where
  "drop_row e pid slug s =
     (case map_of (tasks s) pid of
        None \<Rightarrow> s
      | Some l \<Rightarrow>
          let l = l\<lparr>tl_Tasks := filter (\<lambda>t. t_Slug t \<noteq> slug) (tl_Tasks l), tl_UpdatedAt := now e\<rparr>
          in persistTaskList l (put_tasks pid l s))"

definition unpublish_check :: "env \<Rightarrow> request \<Rightarrow> state \<Rightarrow> response + (taskList \<times> task)" where
  "unpublish_check e req s =
     (let from = strVal (Args req) ''from''; slug = strVal (Args req) ''slug''; pid = strVal (Args req) ''project'';
          force = boolVal (Args req) ''force''; wipe = boolVal (Args req) ''wipe_worktree'';
          evictOwner = boolVal (Args req) ''evict_owner''
      in if from = [] then Inl missing_from
         else if slug = [] then Inl (missing_slug ''provide the slug to unpublish'')
         else if pid = [] then Inl missing_project
         else case requireSupervisor from pid s of
           Some err \<Rightarrow> Inl err
         | None \<Rightarrow>
             (case find_row ''no tasks published for this project''
                 ''check lalia task show for available slugs'' pid slug s of
                Inl err \<Rightarrow> Inl err
              | Inr (l, t) \<Rightarrow>
                  (case unpublish_gates e (git e 0) slug t force wipe evictOwner s of
                     Some err \<Rightarrow> Inl err
                   | None \<Rightarrow> Inr (l, t))))"

definition opTaskUnpublish :: "env \<Rightarrow> request \<Rightarrow> state \<Rightarrow> response \<times> state" where
  "opTaskUnpublish e req s =
     (let slug = strVal (Args req) ''slug''; pid = strVal (Args req) ''project'';
          wipe = boolVal (Args req) ''wipe_worktree''
      in case unpublish_check e req s of
           Inl err \<Rightarrow> (err, s)
         | Inr (l, t) \<Rightarrow>
             (case wipe_worktree (git e 0) (tl_RepoRoot l) t wipe of
                (removed, preserved, err) \<Rightarrow>
                  let hasRoom = (map_of (rooms s) slug \<noteq> None);
                      s = snd (archiveRoom slug s);
                      s = drop_row e pid slug s
                  in (okResponse (JObj ([(''slug'', JStr slug), (''removed'', JBool True),
                        (''room_archived'', JBool hasRoom), (''worktree_removed'', JBool removed)]
                        @ (if preserved \<noteq> [] then [(''worktree_preserved'', JStr preserved)] else [])
                        @ (if err \<noteq> [] then [(''worktree_remove_error'', JStr err)] else []))), s)))"

section \<open>Handing over\<close>

definition hand_room :: "string \<Rightarrow> string \<Rightarrow> string \<Rightarrow> state \<Rightarrow> state" where
  \<comment> \<open>the new supervisor joins the room, the old one is deleted from its members\<close>
  "hand_room newSup from slug s =
     on_room slug (\<lambda>r s. let r = drop_member from (r\<lparr>r_members := add_member newSup (r_members r)\<rparr>)
        in persistRoomMembers r (put_room slug r s)) s"

definition handoff_check :: "request \<Rightarrow> state \<Rightarrow> response + taskList" where
  "handoff_check req s =
     (let from = strVal (Args req) ''from''; newSup = strVal (Args req) ''to''; pid = strVal (Args req) ''project''
      in if from = [] then Inl missing_from
         else if newSup = [] then
           Inl (errorResponse CodeError ''missing_to''
              (''provide the new supervisor'' @ [CHR 0x27] @ ''s agent name'') ''to required'' [])
         else if pid = [] then Inl missing_project
         else case requireSupervisor from pid s of
           Some err \<Rightarrow> Inl err
         | None \<Rightarrow>
             (case agentByName s newSup of
                None \<Rightarrow> Inl (not_found ''agent_not_found'' ''the new supervisor must be registered''
                   (''agent not registered: '' @ newSup) [(''to'', JStr newSup)])
              | Some a \<Rightarrow>
                  if ag_Role a \<noteq> ''supervisor'' then
                    Inl (unauthorized ''not_supervisor'' ''new supervisor must register with --role supervisor''
                       (''agent '' @ newSup @ '' does not have supervisor role'') [(''to'', JStr newSup)])
                  else case map_of (tasks s) pid of
                    None \<Rightarrow> Inl (no_task_list ''no tasks for this project'' pid)
                  | Some l \<Rightarrow> Inr l))"

definition active_slugs :: "taskList \<Rightarrow> string list" where
  "active_slugs l = map t_Slug (filter (\<lambda>t. t_Status t \<noteq> statusMerged) (tl_Tasks l))"

definition opTaskHandoff :: "env \<Rightarrow> request \<Rightarrow> state \<Rightarrow> response \<times> state" where
  "opTaskHandoff e req s =
     (let from = strVal (Args req) ''from''; newSup = strVal (Args req) ''to''; pid = strVal (Args req) ''project''
      in case handoff_check req s of
           Inl err \<Rightarrow> (err, s)
         | Inr l \<Rightarrow>
             let l' = l\<lparr>tl_Supervisor := newSup, tl_UpdatedAt := now e\<rparr>;
                 s = persistTaskList l' (put_tasks pid l' s);
                 s = fold (hand_room newSup from) (active_slugs l) s
             in (okResponse (JObj [(''project'', JStr pid), (''supervisor'', JStr newSup)]), s))"

section \<open>Migration of plan files\<close>

record legacyAssignment =
  la_Slug :: string
  la_Goal :: string
  la_Worktree :: string
  la_Owner :: string
  la_Status :: string
  la_UpdatedAt :: time

record legacyPlan =
  lp_ProjectID :: string
  lp_Supervisor :: string
  lp_Assignments :: "legacyAssignment list"
  lp_UpdatedAt :: time

definition migrate_assignment :: "legacyAssignment \<Rightarrow> task" where
  "migrate_assignment a = \<lparr>t_Slug = la_Slug a, t_Branch = [], t_Brief = la_Goal a, t_OwnedPaths = [],
     t_Contracts = [], t_Worktree = la_Worktree a, t_Owner = la_Owner a, t_Status = la_Status a,
     t_UpdatedAt = la_UpdatedAt a\<rparr>"

definition migrate_plan :: "string \<Rightarrow> legacyPlan \<Rightarrow> taskList" where
  "migrate_plan dir p = \<lparr>tl_ProjectID = or_else (lp_ProjectID p) dir, tl_Supervisor = lp_Supervisor p,
     tl_RepoRoot = [], tl_Tasks = map migrate_assignment (lp_Assignments p), tl_UpdatedAt = lp_UpdatedAt p\<rparr>"

definition migratePlansToTasks ::
  "(string \<times> legacyPlan option) list option \<Rightarrow> bool \<Rightarrow> (string \<times> content) list option" where
  \<comment> \<open>the directories below \<^verbatim>\<open>plans/\<close> with the plan each holds, if it can be read and parsed, and
     whether \<^verbatim>\<open>tasks/\<close> exists: the files written, \<open>None\<close> when there is nothing to do\<close>
  "migratePlansToTasks plans tasksExists =
     (case plans of
        None \<Rightarrow> None
      | Some dirs \<Rightarrow>
          if tasksExists then None
          else Some (concat (map (\<lambda>(dir, p). case p of None \<Rightarrow> []
              | Some p \<Rightarrow> [(pathJoin [''tasks'', dir, ''task-list.json''], TaskFile (migrate_plan dir p))]) dirs)))"

section \<open>Changing a row\<close>

lemma change_row_frame [frame, simp]:
  "agents (change_row e pid n f l s) = agents s" "nameIdx (change_row e pid n f l s) = nameIdx s"
  "rooms (change_row e pid n f l s) = rooms s" "channels (change_row e pid n f l s) = channels s"
  "tasks (change_row e pid n f l s) = AList.update pid (touch_task e n f l) (tasks s)"
  "both_inv s \<Longrightarrow> both_inv (change_row e pid n f l s)"
  by (simp_all add: change_row_def Let_def)

lemma change_row_inv:
  assumes "tasks_inv s" "map_of (tasks s) pid = Some l" "\<And>t. t_Slug (f t) = t_Slug t"
    "\<And>t. t_Status (f t) \<in> set known_statuses"
  shows "tasks_inv (change_row e pid n f l s)"
proof -
  have "list_ok pid (touch_task e n f l)"
    using assms by (intro list_ok_touch) (auto simp: tasks_inv_def)
  then show ?thesis using assms(1) by (simp add: tasks_inv_def)
qed

lemma find_row_Inr: "find_row h1 h2 pid n s = Inr (l, t) \<longleftrightarrow> map_of (tasks s) pid = Some l \<and> findTask l n = Some t"
  by (auto simp: find_row_def split: option.splits)

lemma find_row_Inl: "find_row h1 h2 pid n s = Inl r \<Longrightarrow> \<not> OK r"
  by (auto simp: find_row_def no_task_list_def slug_not_found_def split: option.splits)

lemma change_row_rows:
  assumes "map_of (tasks s) pid = Some l" "findTask l n = Some t" "\<And>t. t_Slug (f t) = t_Slug t"
  shows "row_at (change_row e pid n f l s) q x =
    (if q = pid \<and> x = n then Some ((f t)\<lparr>t_UpdatedAt := now e\<rparr>) else row_at s q x)"
  using assms by (auto simp: row_at_def findTask_touch)

lemma known_intros [simp]: "statusOpen \<in> set known_statuses" "statusAssigned \<in> set known_statuses"
  "statusInProgress \<in> set known_statuses"
  by (simp_all add: known_statuses_def)

lemma all_statuses_known: "x \<in> set all_statuses \<Longrightarrow> x \<in> set known_statuses"
  by (auto simp: all_statuses_def workerStatuses_def known_statuses_def)

lemma requireSupervisor_None:
  "requireSupervisor from pid s = None \<longleftrightarrow> (\<exists>a. agentByName s from = Some a \<and> ag_Role a = ''supervisor'')
     \<and> (\<forall>l. map_of (tasks s) pid = Some l \<longrightarrow> tl_Supervisor l = from)"
  by (auto simp: requireSupervisor_def split: option.splits)

lemma requireSupervisor_Some: "requireSupervisor from pid s = Some r \<Longrightarrow> \<not> OK r \<and> Code r = CodeUnauthorized"
  by (auto simp: requireSupervisor_def not_registered_auth_def not_supervisor_def split: option.splits if_splits)

lemma both_inv_drop_member:
  assumes "both_inv s" "map_of (rooms s) n = Some r"
  shows "both_inv (put_room n (drop_member m r) s)"
  using both_invD[OF assms] assms(1)
  by (intro both_inv_put_room) (simp_all add: drop_member_def room_ok_def rbox_ok_def)

lemma hand_room_frame [simp]:
  "agents (hand_room a b n s) = agents s" "nameIdx (hand_room a b n s) = nameIdx s"
  "tasks (hand_room a b n s) = tasks s"
  by (simp_all add: hand_room_def on_room_def Let_def split: option.split)

lemma hand_room_keeps:
  assumes "both_inv s"
  shows "both_inv (hand_room a b n s)"
proof (cases "map_of (rooms s) n")
  case (Some r)
  have "both_inv (put_room n (drop_member b (r\<lparr>r_members := add_member a (r_members r)\<rparr>)) s)"
    using both_invD[OF assms Some] by (intro both_inv_put_room assms) (simp_all add: drop_member_def room_ok_def rbox_ok_def)
  then show ?thesis using Some by (simp add: hand_room_def on_room_def Let_def)
qed (use assms in \<open>simp add: hand_room_def on_room_def\<close>)

lemma hand_room_rooms:
  "map_of (rooms (hand_room a b n s)) x = (if x = n
     then map_option (\<lambda>r. drop_member b (r\<lparr>r_members := add_member a (r_members r)\<rparr>)) (map_of (rooms s) n)
     else map_of (rooms s) x)"
  by (simp add: hand_room_def on_room_def Let_def split: option.split)

lemma on_room_members_keeps [simp]: "both_inv s \<Longrightarrow> both_inv (on_room n persistRoomMembers s)"
  by (auto intro: on_room_cong)

section \<open>The checks\<close>

lemma checks_Inl:
  "unassign_check req s = Inl r \<Longrightarrow> \<not> OK r" "reassign_check req s = Inl r \<Longrightarrow> \<not> OK r"
  "status_check req s = Inl r \<Longrightarrow> \<not> OK r" "claim_check req s = Inl r \<Longrightarrow> \<not> OK r"
  "handoff_check req s = Inl r \<Longrightarrow> \<not> OK r"
  by (auto simp: unassign_check_def reassign_check_def status_check_def claim_check_def handoff_check_def Let_def
      missing_slug_def supervisor_cannot_claim_def no_task_list_def
      dest: requireSupervisor_Some find_row_Inl split: if_splits option.splits sum.splits)

lemma unassign_check_Inr: "unassign_check req s = Inr (l, t) \<Longrightarrow>
    requireSupervisor (strVal (Args req) ''from'') (strVal (Args req) ''project'') s = None
    \<and> map_of (tasks s) (strVal (Args req) ''project'') = Some l \<and> findTask l (strVal (Args req) ''slug'') = Some t"
  by (auto simp: unassign_check_def Let_def find_row_Inr split: if_splits option.splits)

lemma reassign_check_Inr: "reassign_check req s = Inr (l, t) \<Longrightarrow>
    requireSupervisor (strVal (Args req) ''from'') (strVal (Args req) ''project'') s = None
    \<and> agentByName s (strVal (Args req) ''owner'') \<noteq> None
    \<and> map_of (tasks s) (strVal (Args req) ''project'') = Some l \<and> findTask l (strVal (Args req) ''slug'') = Some t"
  by (auto simp: reassign_check_def Let_def find_row_Inr split: if_splits option.splits)

lemma status_check_Inr: "status_check req s = Inr (l, t) \<Longrightarrow>
    map_of (tasks s) (strVal (Args req) ''project'') = Some l \<and> findTask l (strVal (Args req) ''slug'') = Some t
    \<and> (tl_Supervisor l = strVal (Args req) ''from''
       \<or> t_Owner t = strVal (Args req) ''from'' \<and> strVal (Args req) ''status'' \<in> set workerStatuses)
    \<and> strVal (Args req) ''status'' \<in> set all_statuses"
  by (auto simp: status_check_def Let_def find_row_Inr split: if_splits sum.splits)

lemma claim_check_Inr: "claim_check req s = Inr (l, t) \<longleftrightarrow>
    strVal (Args req) ''from'' \<noteq> [] \<and> strVal (Args req) ''slug'' \<noteq> [] \<and> strVal (Args req) ''project'' \<noteq> []
    \<and> (\<forall>a. agentByName s (strVal (Args req) ''from'') = Some a \<longrightarrow> ag_Role a \<noteq> ''supervisor'')
    \<and> map_of (tasks s) (strVal (Args req) ''project'') = Some l \<and> findTask l (strVal (Args req) ''slug'') = Some t
    \<and> t_Status t = statusOpen"
  by (auto simp: claim_check_def Let_def find_row_def split: if_splits sum.splits option.splits)

lemma unpublish_gates_refuse: "unpublish_gates e g n t f w ev s = Some r \<Longrightarrow> \<not> OK r"
  by (auto simp: unpublish_gates_def owner_gate_def Let_def split: if_splits option.splits)

lemma unpublish_check_Inl: "unpublish_check e req s = Inl r \<Longrightarrow> \<not> OK r"
  by (auto simp: unpublish_check_def Let_def missing_slug_def
      dest: requireSupervisor_Some find_row_Inl unpublish_gates_refuse split: if_splits option.splits sum.splits)

lemma unpublish_check_Inr: "unpublish_check e req s = Inr (l, t) \<Longrightarrow>
    requireSupervisor (strVal (Args req) ''from'') (strVal (Args req) ''project'') s = None
    \<and> map_of (tasks s) (strVal (Args req) ''project'') = Some l \<and> findTask l (strVal (Args req) ''slug'') = Some t
    \<and> unpublish_gates e (git e 0) (strVal (Args req) ''slug'') t (boolVal (Args req) ''force'')
        (boolVal (Args req) ''wipe_worktree'') (boolVal (Args req) ''evict_owner'') s = None"
  by (auto simp: unpublish_check_def Let_def find_row_Inr split: if_splits option.splits sum.splits)

lemma handoff_check_Inr: "handoff_check req s = Inr l \<Longrightarrow>
    requireSupervisor (strVal (Args req) ''from'') (strVal (Args req) ''project'') s = None
    \<and> (\<exists>a. agentByName s (strVal (Args req) ''to'') = Some a \<and> ag_Role a = ''supervisor'')
    \<and> map_of (tasks s) (strVal (Args req) ''project'') = Some l"
  by (auto simp: handoff_check_def Let_def split: if_splits option.splits)

section \<open>The handlers keep the invariants\<close>

definition task_inv :: "state \<Rightarrow> bool" where
  "task_inv s \<longleftrightarrow> both_inv s \<and> tasks_inv s"

lemma reassign_rooms_frame [simp]:
  "agents (reassign_rooms e n sv old new s) = agents s" "nameIdx (reassign_rooms e n sv old new s) = nameIdx s"
  "tasks (reassign_rooms e n sv old new s) = tasks s"
  by (auto simp: reassign_rooms_def Let_def on_room_def split: option.split)

lemma reassign_rooms_keeps: "both_inv s \<Longrightarrow> both_inv (reassign_rooms e n sv old new s)"
proof -
  assume inv: "both_inv s"
  have "both_inv (on_room n (\<lambda>r. put_room n (drop_member old r)) s)" if "both_inv s" for s
    using that by (auto intro!: on_room_cong both_inv_drop_member)
  then show ?thesis using inv by (simp add: reassign_rooms_def Let_def ensureRoom_keeps)
qed

lemma drop_row_frame [simp]:
  "agents (drop_row e pid n s) = agents s" "nameIdx (drop_row e pid n s) = nameIdx s"
  "rooms (drop_row e pid n s) = rooms s" "both_inv s \<Longrightarrow> both_inv (drop_row e pid n s)"
  by (simp_all add: drop_row_def Let_def split: option.split)

lemma drop_row_inv: "tasks_inv s \<Longrightarrow> tasks_inv (drop_row e pid n s)"
  by (auto simp: drop_row_def tasks_inv_def list_ok_def Let_def distinct_map_filter split: option.split)

lemma tasks_inv_hand [simp]:
  "tasks_inv (reassign_rooms e n sv old new s) = tasks_inv s"
  "tasks_inv (fold (hand_room a b) ns s) = tasks_inv s"
  by (rule tasks_inv_frame, simp add: fold_same[where g = tasks])+

lemma fold_hand_keeps: "both_inv s \<Longrightarrow> both_inv (fold (hand_room a b) ns s)"
  by (rule fold_keeps) (simp_all add: hand_room_keeps)

lemma opTaskUnassign_keeps: "task_inv s \<Longrightarrow> task_inv (snd (opTaskUnassign e req s))"
proof (cases "unassign_check req s")
  case (Inr lt)
  assume inv: "task_inv s"
  obtain l t where lt: "lt = (l, t)" by fastforce
  then show ?thesis using inv Inr unassign_check_Inr[of req s l t]
    by (auto simp: opTaskUnassign_def Let_def task_inv_def intro: change_row_inv)
qed (simp add: opTaskUnassign_def Let_def)

lemma opTaskReassign_keeps: "task_inv s \<Longrightarrow> task_inv (snd (opTaskReassign e req s))"
proof (cases "reassign_check req s")
  case (Inr lt)
  assume inv: "task_inv s"
  obtain l t where lt: "lt = (l, t)" by fastforce
  then have "map_of (tasks s) (strVal (Args req) ''project'') = Some l" using Inr reassign_check_Inr[of req s l t] by simp
  then show ?thesis using inv Inr lt
    by (auto simp: opTaskReassign_def Let_def task_inv_def intro!: reassign_rooms_keeps intro: change_row_inv)
qed (simp add: opTaskReassign_def Let_def)

lemma opTaskStatus_keeps: "task_inv s \<Longrightarrow> task_inv (snd (opTaskStatus e req s))"
proof (cases "status_check req s")
  case (Inr lt)
  assume inv: "task_inv s"
  obtain l t where lt: "lt = (l, t)" by fastforce
  then show ?thesis using inv Inr status_check_Inr[of req s l t] all_statuses_known
    by (auto simp: opTaskStatus_def Let_def task_inv_def intro: change_row_inv)
qed (simp add: opTaskStatus_def Let_def)

lemma opTaskClaim_keeps: "task_inv s \<Longrightarrow> task_inv (snd (opTaskClaim e req s))"
proof (cases "claim_check req s")
  case (Inr lt)
  assume inv: "task_inv s"
  obtain l t where lt: "lt = (l, t)" by fastforce
  then have "map_of (tasks s) (strVal (Args req) ''project'') = Some l" using Inr claim_check_Inr[of req s l t] by simp
  then show ?thesis using inv Inr lt
    by (auto simp: opTaskClaim_def Let_def task_inv_def ensureRoom_keeps intro: change_row_inv)
qed (simp add: opTaskClaim_def Let_def)

lemma opTaskUnpublish_keeps: "task_inv s \<Longrightarrow> task_inv (snd (opTaskUnpublish e req s))"
  by (auto simp: opTaskUnpublish_def Let_def task_inv_def archiveRoom_keeps drop_row_inv
      split: sum.split prod.split)

lemma opTaskHandoff_keeps: "task_inv s \<Longrightarrow> task_inv (snd (opTaskHandoff e req s))"
proof (cases "handoff_check req s")
  case (Inr l)
  assume inv: "task_inv s"
  have l: "map_of (tasks s) (strVal (Args req) ''project'') = Some l" using handoff_check_Inr[OF Inr] by simp
  then have "list_ok (strVal (Args req) ''project'') l" using inv by (simp add: task_inv_def tasks_inv_def)
  then have "list_ok (strVal (Args req) ''project'') (l\<lparr>tl_Supervisor := x, tl_UpdatedAt := y\<rparr>)" for x y
    by (simp add: list_ok_def)
  then show ?thesis using inv Inr
    by (simp add: opTaskHandoff_def Let_def task_inv_def tasks_inv_put fold_hand_keeps)
qed (simp add: opTaskHandoff_def Let_def)

lemma handlers_agents:
  "agents (snd (opTaskUnassign e req s)) = agents s" "nameIdx (snd (opTaskUnassign e req s)) = nameIdx s"
  "agents (snd (opTaskReassign e req s)) = agents s" "nameIdx (snd (opTaskReassign e req s)) = nameIdx s"
  "agents (snd (opTaskStatus e req s)) = agents s" "nameIdx (snd (opTaskStatus e req s)) = nameIdx s"
  "agents (snd (opTaskClaim e req s)) = agents s" "nameIdx (snd (opTaskClaim e req s)) = nameIdx s"
  "agents (snd (opTaskUnpublish e req s)) = agents s" "nameIdx (snd (opTaskUnpublish e req s)) = nameIdx s"
  "agents (snd (opTaskHandoff e req s)) = agents s" "nameIdx (snd (opTaskHandoff e req s)) = nameIdx s"
  by (auto simp: opTaskUnassign_def opTaskReassign_def opTaskStatus_def opTaskClaim_def opTaskUnpublish_def
      opTaskHandoff_def Let_def fold_same[where g = agents] fold_same[where g = nameIdx]
      split: sum.split prod.split)

section \<open>What the handlers promise\<close>

text \<open>C19: A claim succeeds only on an open row and never for a supervisor; it makes the caller the owner of
  that row, in progress, and a member of its room, changes no other row, and until the status changes
  every further claim of the row is refused without effect.\<close>

theorem claim_exclusive:
  assumes "opTaskClaim e req s = (resp, s')" "OK resp" "strVal (Args req) ''from'' = from"
    "strVal (Args req) ''slug'' = slug" "strVal (Args req) ''project'' = pid"
  shows "(\<exists>t. row_at s pid slug = Some t \<and> t_Status t = statusOpen
      \<and> row_at s' pid slug = Some (t\<lparr>t_Owner := from, t_Status := statusInProgress, t_UpdatedAt := now e\<rparr>))
    \<and> (\<forall>q x. (q, x) \<noteq> (pid, slug) \<longrightarrow> row_at s' q x = row_at s q x)
    \<and> (\<forall>a. agentByName s from = Some a \<longrightarrow> ag_Role a \<noteq> ''supervisor'')
    \<and> (\<exists>r. map_of (rooms s') slug = Some r \<and> from \<in> set (r_members r))
    \<and> (\<forall>e2 req2. strVal (Args req2) ''slug'' = slug \<and> strVal (Args req2) ''project'' = pid \<longrightarrow>
         \<not> OK (fst (opTaskClaim e2 req2 s')) \<and> snd (opTaskClaim e2 req2 s') = s')"
proof (cases "claim_check req s")
  case (Inl r)
  then show ?thesis using assms(1,2) checks_Inl(4)[OF Inl] by (simp add: opTaskClaim_def Let_def)
next
  case (Inr lt)
  obtain l t where lt: "lt = (l, t)" by fastforce
  note c = Inr[unfolded lt, THEN claim_check_Inr[THEN iffD1], unfolded assms(3-5)]
  let ?f = "\<lambda>t. t\<lparr>t_Owner := from, t_Status := statusInProgress\<rparr>"
  let ?s1 = "change_row e pid slug ?f l s"
  let ?s2 = "ensureRoomWithMembers e slug (tl_Supervisor l) [tl_Supervisor l, from] ?s1"
  have s': "s' = on_room slug persistRoomMembers ?s2"
    using assms(1) Inr lt by (auto simp: opTaskClaim_def Let_def assms(3-5))
  have rows: "row_at s' q x = (if q = pid \<and> x = slug then Some ((?f t)\<lparr>t_UpdatedAt := now e\<rparr>) else row_at s q x)" for q x
    using change_row_rows[of s pid l slug t ?f e q x] c row_at_frame[of s' ?s1] by (simp add: s')
  have room: "\<exists>r. map_of (rooms s') slug = Some r \<and> from \<in> set (r_members r)"
    by (simp add: s' ensureRoom_rooms add_members_def)
  have again: "\<not> OK (fst (opTaskClaim e2 req2 s')) \<and> snd (opTaskClaim e2 req2 s') = s'"
    if r2: "strVal (Args req2) ''slug'' = slug" "strVal (Args req2) ''project'' = pid" for e2 req2
  proof (cases "claim_check req2 s'")
    case (Inl r)
    then show ?thesis using checks_Inl(4)[OF Inl] by (simp add: opTaskClaim_def Let_def)
  next
    case (Inr lt2)
    obtain l2 t2 where lt2: "lt2 = (l2, t2)" by fastforce
    from Inr[unfolded lt2, THEN claim_check_Inr[THEN iffD1], unfolded r2]
    have "row_at s' pid slug = Some t2 \<and> t_Status t2 = statusOpen" by (simp add: row_at_def)
    then show ?thesis using rows[of pid slug] by (auto simp: statuses)
  qed
  have "row_at s pid slug = Some t" using c by (simp add: row_at_def)
  then show ?thesis using c rows room again by auto
qed

text \<open>C21: Only the owner of a row or the supervisor of its list changes its status; the owner sets only
  in-progress, ready or blocked, the supervisor any of the six; nothing else of any row changes.\<close>

theorem status_permission:
  assumes "opTaskStatus e req s = (resp, s')" "OK resp" "strVal (Args req) ''from'' = from"
    "strVal (Args req) ''slug'' = slug" "strVal (Args req) ''project'' = pid" "strVal (Args req) ''status'' = st"
  shows "\<exists>l t. map_of (tasks s) pid = Some l \<and> findTask l slug = Some t
    \<and> (tl_Supervisor l = from \<or> t_Owner t = from \<and> st \<in> {statusInProgress, statusReady, statusBlocked})
    \<and> st \<in> set known_statuses \<and> rooms s' = rooms s
    \<and> row_at s' pid slug = Some (t\<lparr>t_Status := st, t_UpdatedAt := now e\<rparr>)
    \<and> (\<forall>q x. (q, x) \<noteq> (pid, slug) \<longrightarrow> row_at s' q x = row_at s q x)"
proof (cases "status_check req s")
  case (Inl r)
  then show ?thesis using assms(1,2) checks_Inl(3)[OF Inl] by (simp add: opTaskStatus_def Let_def)
next
  case (Inr lt)
  obtain l t where lt: "lt = (l, t)" by fastforce
  note c = status_check_Inr[OF Inr[unfolded lt], unfolded assms(3-6)]
  have s': "s' = change_row e pid slug (\<lambda>t. t\<lparr>t_Status := st\<rparr>) l s"
    using assms(1) Inr lt by (auto simp: opTaskStatus_def Let_def assms(3-6))
  have "row_at s' q x = (if q = pid \<and> x = slug then Some (t\<lparr>t_Status := st, t_UpdatedAt := now e\<rparr>) else row_at s q x)" for q x
    using change_row_rows[of s pid l slug t "\<lambda>t. t\<lparr>t_Status := st\<rparr>" e q x] c by (simp add: s')
  then show ?thesis using c all_statuses_known by (intro exI[of _ l] exI[of _ t]) (auto simp: s' workerStatuses_def)
qed

text \<open>C22: Unassigning, reassigning, unpublishing and handing over succeed only for a registered agent with
  the supervisor role that supervises the very list.\<close>

theorem supervisor_only:
  assumes "OK (fst (opTaskUnassign e req s)) \<or> OK (fst (opTaskReassign e req s))
    \<or> OK (fst (opTaskUnpublish e req s)) \<or> OK (fst (opTaskHandoff e req s))"
  shows "\<exists>a l. agentByName s (strVal (Args req) ''from'') = Some a \<and> ag_Role a = ''supervisor''
    \<and> map_of (tasks s) (strVal (Args req) ''project'') = Some l \<and> tl_Supervisor l = strVal (Args req) ''from''"
proof -
  have "\<exists>l. requireSupervisor (strVal (Args req) ''from'') (strVal (Args req) ''project'') s = None
      \<and> map_of (tasks s) (strVal (Args req) ''project'') = Some l"
    using assms
    by (auto simp: opTaskUnassign_def opTaskReassign_def opTaskUnpublish_def opTaskHandoff_def Let_def
        dest: checks_Inl unpublish_check_Inl unassign_check_Inr reassign_check_Inr unpublish_check_Inr handoff_check_Inr
        split: sum.splits prod.splits)
  then show ?thesis unfolding requireSupervisor_None by blast
qed

lemma drop_row_rows:
  assumes "map_of (tasks s) pid = Some l"
  shows "row_at (drop_row e pid n s) q x = (if q = pid \<and> x = n then None else row_at s q x)"
proof -
  have "find (\<lambda>t. t_Slug t = x) (filter (\<lambda>t. t_Slug t \<noteq> n) ts) = (if x = n then None else find (\<lambda>t. t_Slug t = x) ts)" for ts
    by (induction ts) auto
  then show ?thesis using assms by (auto simp: drop_row_def row_at_def findTask_def Let_def)
qed


lemma hand_rooms:
  assumes "a \<noteq> b"
  shows "n \<in> set ns \<Longrightarrow> map_of (rooms s) n = Some r \<Longrightarrow>
      \<exists>r'. map_of (rooms (fold (hand_room a b) ns s)) n = Some r' \<and> a \<in> set (r_members r') \<and> b \<notin> set (r_members r')"
proof (induction ns arbitrary: s r)
  case (Cons m ns)
  have keep: "\<exists>r'. map_of (rooms (fold (hand_room a b) ns t)) n = Some r' \<and> a \<in> set (r_members r') \<and> b \<notin> set (r_members r')"
    if "map_of (rooms t) n = Some q" "a \<in> set (r_members q)" "b \<notin> set (r_members q)" for t q
    using that
  proof (induction ns arbitrary: t q)
    case (Cons m ns)
    have "\<exists>p. map_of (rooms (hand_room a b m t)) n = Some p \<and> a \<in> set (r_members p) \<and> b \<notin> set (r_members p)"
      using Cons.prems assms by (cases "n = m") (simp_all add: hand_room_rooms drop_member_def)
    then show ?case using Cons.IH by auto
  qed simp
  show ?case
  proof (cases "n = m")
    case True
    then show ?thesis using keep[of "hand_room a b m s"] Cons.prems(2) assms
      by (simp add: hand_room_rooms drop_member_def)
  next
    case False
    then show ?thesis using Cons by (simp add: hand_room_rooms)
  qed
qed simp

text \<open>C24: Handing a project over to another supervisor moves all of its authority at once: afterwards the new
  one passes the supervisor check and the old one does not, and in the room of every task that is not
  merged the new one has taken the old one's place.\<close>

theorem handoff_transfers:
  assumes "opTaskHandoff e req s = (resp, s')" "OK resp" "strVal (Args req) ''from'' = from"
    "strVal (Args req) ''to'' = sv" "strVal (Args req) ''project'' = pid" "from \<noteq> sv"
  shows "requireSupervisor sv pid s' = None \<and> requireSupervisor from pid s' \<noteq> None
    \<and> (\<exists>l. map_of (tasks s) pid = Some l \<and> (\<forall>t r. t \<in> set (tl_Tasks l) \<and> t_Status t \<noteq> statusMerged
         \<and> map_of (rooms s) (t_Slug t) = Some r \<longrightarrow>
         (\<exists>r'. map_of (rooms s') (t_Slug t) = Some r' \<and> sv \<in> set (r_members r') \<and> from \<notin> set (r_members r'))))"
proof (cases "handoff_check req s")
  case (Inl r)
  then show ?thesis using assms(1,2) checks_Inl(5)[OF Inl] by (simp add: opTaskHandoff_def Let_def)
next
  case (Inr l)
  note c = handoff_check_Inr[OF Inr, unfolded assms(3-5)]
  let ?l = "l\<lparr>tl_Supervisor := sv, tl_UpdatedAt := now e\<rparr>"
  have s': "s' = fold (hand_room sv from) (active_slugs l) (persistTaskList ?l (put_tasks pid ?l s))"
    using assms(1) Inr by (auto simp: opTaskHandoff_def Let_def assms(3-5))
  have "tasks s' = AList.update pid ?l (tasks s)" "agents s' = agents s" "nameIdx s' = nameIdx s"
    by (simp_all add: s' fold_same[where g = tasks] fold_same[where g = agents] fold_same[where g = nameIdx])
  then have "requireSupervisor sv pid s' = None" "requireSupervisor from pid s' \<noteq> None"
    using c assms(6) agentByName_cong[of s' s] by (auto simp: requireSupervisor_None)
  moreover have "\<exists>r'. map_of (rooms s') (t_Slug t) = Some r' \<and> sv \<in> set (r_members r') \<and> from \<notin> set (r_members r')"
    if "t \<in> set (tl_Tasks l)" "t_Status t \<noteq> statusMerged" "map_of (rooms s) (t_Slug t) = Some r" for t r
    unfolding s' by (rule hand_rooms[where r = r]) (use that assms(6) in \<open>auto simp: active_slugs_def\<close>)
  ultimately show ?thesis using c by blast
qed

text \<open>A supervisor that hands a project over to itself is thrown out of the rooms of the project: its own
  name is added to the members and then deleted.\<close>

theorem handoff_to_self_evicts:
  assumes "opTaskHandoff e req s = (resp, s')" "OK resp" "strVal (Args req) ''from'' = from"
    "strVal (Args req) ''to'' = from" "row_at s (strVal (Args req) ''project'') slug = Some t"
    "t_Status t \<noteq> statusMerged" "map_of (rooms s') slug = Some r"
  shows "from \<notin> set (r_members r)"
proof (cases "handoff_check req s")
  case (Inl r)
  then show ?thesis using assms(1,2) checks_Inl(5)[OF Inl] by (simp add: opTaskHandoff_def Let_def)
next
  case (Inr l)
  note c = handoff_check_Inr[OF Inr]
  have t: "slug \<in> set (active_slugs l)"
    using assms(5,6) c findTask_Some[of l slug t] by (auto simp: row_at_def active_slugs_def)
  have gone: "from \<notin> set (r_members q)"
    if "map_of (rooms (fold (hand_room from from) ns u)) slug = Some q" "slug \<in> set ns \<or> (\<forall>p. map_of (rooms u) slug = Some p \<longrightarrow> from \<notin> set (r_members p))"
    for ns u q
    using that
  proof (induction ns arbitrary: u)
    case (Cons m ns)
    show ?case by (rule Cons.IH[of "hand_room from from m u"]) (use Cons.prems in \<open>auto simp: hand_room_rooms drop_member_def\<close>)
  qed simp
  let ?l = "l\<lparr>tl_Supervisor := from, tl_UpdatedAt := now e\<rparr>"
  have s': "s' = fold (hand_room from from) (active_slugs l)
      (persistTaskList ?l (put_tasks (strVal (Args req) ''project'') ?l s))"
    using assms(1) Inr by (auto simp: opTaskHandoff_def Let_def assms(3,4))
  show ?thesis using gone[OF assms(7)[unfolded s']] t by blast
qed

lemma archived_after:
  "(\<exists>r. map_of (rooms (fold (\<lambda>c s. snd (archiveRoom (fst c) s)) cs s)) n = Some r \<and> r_Archived r) \<longleftrightarrow>
   (\<exists>r. map_of (rooms s) n = Some r \<and> (r_Archived r \<or> n \<in> fst ` set cs))"
proof (induction cs arbitrary: s)
  case (Cons c cs)
  show ?case unfolding fold_Cons comp_def Cons.IH by (auto simp: archiveRoom_rooms)
qed simp

text \<open>\<^verbatim>\<open>rooms gc\<close> by a supervisor archives exactly the rooms named after merged tasks of the
  lists it supervises: afterwards a room is archived if and only if it was before or is one of those.\<close>

theorem rooms_gc_exact:
  assumes "opRoomsGC req s = (resp, s')" "OK resp" "strVal (Args req) ''from'' = from"
  shows "(\<exists>r. map_of (rooms s') n = Some r \<and> r_Archived r) \<longleftrightarrow>
    (\<exists>r. map_of (rooms s) n = Some r \<and> (r_Archived r \<or>
       (\<exists>(pid, l) \<in> set (tasks s). tl_Supervisor l = from \<and>
          (\<exists>t \<in> set (tl_Tasks l). t_Slug t = n \<and> t_Status t = statusMerged))))"
proof -
  have s': "s' = snd (archive_all (gc_candidates from s) s)"
    using assms by (auto simp: opRoomsGC_def Let_def not_registered_auth_def not_supervisor_def
        split: if_splits option.splits prod.splits)
  have "n \<in> fst ` set (gc_candidates from s) \<longleftrightarrow> map_of (rooms s) n \<noteq> None \<and>
      (\<exists>(pid, l) \<in> set (tasks s). tl_Supervisor l = from \<and> (\<exists>t \<in> set (tl_Tasks l). t_Slug t = n \<and> t_Status t = statusMerged))"
  proof -
    have "set (gc_candidates from s) = {(t_Slug t, pid) |t pid l. (pid, l) \<in> set (tasks s) \<and> tl_Supervisor l = from
        \<and> t \<in> set (tl_Tasks l) \<and> t_Status t = statusMerged \<and> map_of (rooms s) (t_Slug t) \<noteq> None}"
      unfolding gc_candidates_def by (auto simp: image_iff) blast+
    note eq = this
    show ?thesis
    proof
      assume "n \<in> fst ` set (gc_candidates from s)"
      then obtain t pid l where "n = t_Slug t" "(pid, l) \<in> set (tasks s)" "tl_Supervisor l = from"
        "t \<in> set (tl_Tasks l)" "t_Status t = statusMerged" "map_of (rooms s) (t_Slug t) \<noteq> None"
        unfolding eq by (elim imageE CollectE exE conjE) simp
      then show "map_of (rooms s) n \<noteq> None \<and> (\<exists>(pid, l) \<in> set (tasks s). tl_Supervisor l = from
          \<and> (\<exists>t \<in> set (tl_Tasks l). t_Slug t = n \<and> t_Status t = statusMerged))"
        by (intro conjI bexI[of _ "(pid, l)"]) auto
    next
      assume "map_of (rooms s) n \<noteq> None \<and> (\<exists>(pid, l) \<in> set (tasks s). tl_Supervisor l = from
          \<and> (\<exists>t \<in> set (tl_Tasks l). t_Slug t = n \<and> t_Status t = statusMerged))"
      then obtain pid l t where "map_of (rooms s) n \<noteq> None" "(pid, l) \<in> set (tasks s)" "tl_Supervisor l = from"
        "t \<in> set (tl_Tasks l)" "t_Slug t = n" "t_Status t = statusMerged" by (elim conjE bexE) auto
      then have "(n, pid) \<in> set (gc_candidates from s)" unfolding eq by blast
      then show "n \<in> fst ` set (gc_candidates from s)" by (rule image_eqI[rotated]) simp
    qed
  qed
  then show ?thesis unfolding s' archive_all_state archived_after by blast
qed

text \<open>The bulletin of a project lists exactly its open tasks, in the order of the list, to any caller.\<close>

theorem bulletin_lists_open:
  assumes "strVal (Args req) ''from'' \<noteq> []" "strVal (Args req) ''project'' = pid" "pid \<noteq> []"
  shows "opTaskBulletin req s = okResponse (JObj [(''project'', JStr pid), (''tasks'', JArr (case map_of (tasks s) pid of
      None \<Rightarrow> [] | Some l \<Rightarrow> map (bulletin_json s) (filter (\<lambda>t. t_Status t = ''open'') (tl_Tasks l))))])"
  using assms by (simp add: opTaskBulletin_def Let_def statusOpen_def split: option.split)

text \<open>Migrating a plan file keeps every assignment: the task list has one task for each, in order, with its
  slug, worktree, owner and status; it is written where the loader of task lists looks for it, and
  nothing is written when \<^verbatim>\<open>tasks/\<close> exists.\<close>

theorem migration_keeps_rows:
  assumes "migratePlansToTasks plans tasksExists = Some written" "plans = Some dirs" "(dir, Some p) \<in> set dirs"
  shows "\<not> tasksExists \<and> (\<exists>l. (pathJoin [''tasks'', dir, ''task-list.json''], TaskFile l) \<in> set written
    \<and> tl_ProjectID l = (if lp_ProjectID p = [] then dir else lp_ProjectID p) \<and> tl_Supervisor l = lp_Supervisor p
    \<and> map (\<lambda>t. (t_Slug t, t_Worktree t, t_Owner t, t_Status t)) (tl_Tasks l)
        = map (\<lambda>a. (la_Slug a, la_Worktree a, la_Owner a, la_Status a)) (lp_Assignments p))"
proof -
  have w: "\<not> tasksExists" "written = concat (map (\<lambda>(dir, p). case p of None \<Rightarrow> []
      | Some p \<Rightarrow> [(pathJoin [''tasks'', dir, ''task-list.json''], TaskFile (migrate_plan dir p))]) dirs)"
    using assms(1,2) by (auto simp: migratePlansToTasks_def split: if_splits)
  have "(pathJoin [''tasks'', dir, ''task-list.json''], TaskFile (migrate_plan dir p)) \<in> set written"
    using assms(3) unfolding w by (auto intro!: bexI[of _ "(dir, Some p)"])
  then show ?thesis using w(1)
    by (intro conjI exI[of _ "migrate_plan dir p"]) (auto simp: migrate_plan_def migrate_assignment_def or_else_def)
qed

end
