(* ===== verification/Messaging.thy ===== *)
theory Messaging
  imports Registry
begin

text \<open>
  The message handlers of \<^verbatim>\<open>state.go\<close>: \<^verbatim>\<open>tell\<close>, \<^verbatim>\<open>read\<close>, \<^verbatim>\<open>peek\<close>,
  \<^verbatim>\<open>read-any\<close>, \<^verbatim>\<open>history\<close> and \<^verbatim>\<open>channels\<close>. They check their arguments, resolve the
  address of the peer, and run the operation of the channel or room.
\<close>

section \<open>Definitions\<close>

definition wrap64 :: "int \<Rightarrow> int" where
  \<comment> \<open>an \<^verbatim>\<open>int64\<close> product\<close>
  "wrap64 i = (i + 2 ^ 63) mod 2 ^ 64 - 2 ^ 63"

definition seconds :: "int \<Rightarrow> int" where
  \<comment> \<open>\<^verbatim>\<open>time.Duration(timeout) * time.Second\<close>\<close>
  "seconds timeout = wrap64 (timeout * second)"

definition missing_target :: response where
  "missing_target = errorResponse CodeError ''missing_target'' ''specify peer or room'' ''peer or room required'' []"

definition ambiguous_target :: "string \<Rightarrow> string \<Rightarrow> response" where
  "ambiguous_target peer room = errorResponse CodeError ''ambiguous_target'' ''specify exactly one of peer or room''
     ''specify peer or room, not both'' [(''peer'', JStr peer), (''room'', JStr room)]"

definition target_error :: "string \<Rightarrow> string \<Rightarrow> string \<Rightarrow> response option" where
  \<comment> \<open>the three checks of \<^verbatim>\<open>read\<close>, \<^verbatim>\<open>peek\<close> and \<^verbatim>\<open>history\<close>\<close>
  "target_error from peer room =
     (if from = [] then Some missing_from
      else if peer = [] \<and> room = [] then Some missing_target
      else if peer \<noteq> [] \<and> room \<noteq> [] then Some (ambiguous_target peer room)
      else None)"

definition peer_not_registered :: "string \<Rightarrow> addrError \<Rightarrow> response" where
  "peer_not_registered peer err = not_found ''peer_not_registered'' ''check `lalia agents` for active peers''
     (addrError_text err) [(''peer'', JStr peer)]"

definition opTell :: "env \<Rightarrow> request \<Rightarrow> state \<Rightarrow> response \<times> state" where
  "opTell e req s =
     (let from = strVal (Args req) ''from''; peer = strVal (Args req) ''peer''; body = strVal (Args req) ''body''
      in if from = [] \<or> peer = [] then
           (missing_params ''provide both from and peer'' ''from and peer required''
              [(''from'', JStr from), (''peer'', JStr peer)], s)
         else if from = peer then
           (errorResponse CodeError ''self_target'' ''choose a different peer'' ''cannot tell self''
              [(''from'', JStr from)], s)
         else case agentByName s from of
           None \<Rightarrow> (not_found ''caller_not_registered'' ''run lalia register before sending''
              (''caller not registered: '' @ from) [(''from'', JStr from)], s)
         | Some _ \<Rightarrow>
             (case resolvePeerName e peer s of
                Inl err \<Rightarrow> (peer_not_registered peer err, s)
              | Inr peerName \<Rightarrow>
                  (case getOrCreateChannel from peerName s of (k, c, s) \<Rightarrow> tell e k c from body s)))"

definition opRead :: "env \<Rightarrow> request \<Rightarrow> state \<Rightarrow> outcome \<times> state" where
  "opRead e req s =
     (let from = strVal (Args req) ''from''; peer = strVal (Args req) ''peer''; room = strVal (Args req) ''room'';
          timeout = numVal (Args req) ''timeout''
      in case target_error from peer room of
           Some err \<Rightarrow> (Done err, s)
         | None \<Rightarrow>
             if peer \<noteq> [] then
               (case resolvePeerName e peer s of
                  Inl err \<Rightarrow> (Done (peer_not_registered peer err), s)
                | Inr peerName \<Rightarrow>
                    (case getOrCreateChannel from peerName s of (k, c, s) \<Rightarrow> chanRead k c from (seconds timeout) s))
             else roomRead e from room (seconds timeout) s)"

definition opPeek :: "env \<Rightarrow> request \<Rightarrow> state \<Rightarrow> response" where
  "opPeek e req s =
     (let from = strVal (Args req) ''from''; peer = strVal (Args req) ''peer''; room = strVal (Args req) ''room''
      in case target_error from peer room of
           Some err \<Rightarrow> err
         | None \<Rightarrow>
             if peer \<noteq> [] then
               (case resolvePeerName e peer s of
                  Inl err \<Rightarrow> peer_not_registered peer err
                | Inr peerName \<Rightarrow>
                    (case map_of (channels s) (channelKey from peerName) of
                       None \<Rightarrow> okResponse (JObj [(''peer'', JStr peerName), (''messages'', JArr [])])
                     | Some c \<Rightarrow> chanPeek c from))
             else roomPeek from room s)"

definition anyResponse :: "string \<Rightarrow> string \<Rightarrow> message \<Rightarrow> response" where
  "anyResponse kind target m = okResponse (JObj
     [(''kind'', JStr kind), (''target'', JStr target), (''seq'', JNum (Seq m)), (''from'', JStr (From m)),
      (''body'', JStr (Body m)), (''ts'', JStr (rfc3339 (TS m)))])"

definition any_channel :: "string \<Rightarrow> state \<Rightarrow> (string \<times> channel) option" where
  \<comment> \<open>the first channel of the caller with something pending\<close>
  "any_channel from s = find (\<lambda>(k, c). is_peer c from \<and> mbox c from \<noteq> []) (channels s)"

definition any_room :: "string \<Rightarrow> state \<Rightarrow> (string \<times> room) option" where
  "any_room from s = find (\<lambda>(n, r). from \<in> set (r_members r) \<and> rbox r from \<noteq> []) (rooms s)"

definition opReadAny :: "request \<Rightarrow> state \<Rightarrow> outcome \<times> state" where
  "opReadAny req s =
     (let from = strVal (Args req) ''from''; timeout = numVal (Args req) ''timeout'';
          timeout = (if timeout \<le> 0 then 300 else timeout)
      in if from = [] then (Done missing_from, s)
         else case any_channel from s of
           Some (k, c) \<Rightarrow>
             let msg = hd (mbox c from); peer = other c from
             in (Done (anyResponse ''peer'' peer msg),
                 with_queue (mailboxDeleteOne from ''peer'' peer (Seq msg))
                   (put_channel k (c\<lparr>c_mailbox := AList.update from (tl (mbox c from)) (c_mailbox c)\<rparr>) s))
         | None \<Rightarrow>
             (case any_room from s of
                Some (n, r) \<Rightarrow>
                  let msg = hd (rbox r from)
                  in (Done (anyResponse ''room'' (r_Name r) (toPeerMsg msg)),
                      with_queue (mailboxDeleteOne from ''room'' (r_Name r) (rm_Seq msg))
                        (put_room n (r\<lparr>r_mailbox := AList.update from (tl (rbox r from)) (r_mailbox r)\<rparr>) s))
              | None \<Rightarrow>
                  (case map_of (anyWaiter s) from of
                     Some _ \<Rightarrow> (Done (errorResponse CodeError ''read_any_already_pending''
                        ''wait for the existing read-any call to finish''
                        (''another read-any is already pending for '' @ from) [(''from'', JStr from)]), s)
                   | None \<Rightarrow>
                       let (ch, s) = block (WaitAny from timeout) s
                       in (Blocks ch, s\<lparr>anyWaiter := AList.update from ch (anyWaiter s)\<rparr>))))"

definition readAny_recv :: "anyMsg \<Rightarrow> response" where
  "readAny_recv am = anyResponse (am_kind am) (am_target am) (am_msg am)"

definition readAny_timeout :: "string \<Rightarrow> int \<Rightarrow> state \<Rightarrow> response \<times> state" where
  "readAny_timeout from timeout s =
     (errorResponse CodeTimeout ''timeout'' ''retry with a longer --timeout'' ''timeout waiting for any channel''
        [(''from'', JStr from), (''timeout_seconds'', JNum timeout)],
      s\<lparr>anyWaiter := AList.delete from (anyWaiter s)\<rparr>)"

definition sliceHistory :: "message list \<Rightarrow> int \<Rightarrow> int \<Rightarrow> json list" where
  "sliceHistory log since limit = last_n limit (map (\<lambda>m.
       JObj [(''seq'', JNum (Seq m)), (''from'', JStr (From m)), (''ts'', JStr (rfc3339 (TS m))),
             (''body'', JStr (Body m))])
     (filter (\<lambda>m. \<not> (since > 0 \<and> Seq m \<le> since)) log))"

definition opHistory :: "request \<Rightarrow> state \<Rightarrow> response" where
  "opHistory req s =
     (let from = strVal (Args req) ''from''; peer = strVal (Args req) ''peer''; room = strVal (Args req) ''room'';
          since = numVal (Args req) ''since''; limit = numVal (Args req) ''limit''
      in case target_error from peer room of
           Some err \<Rightarrow> err
         | None \<Rightarrow>
             if peer \<noteq> [] then
               (case map_of (channels s) (channelKey from peer) of
                  None \<Rightarrow> not_found ''channel_not_found'' ''send a message first to create a channel''
                    (''channel not found: '' @ peer) [(''peer'', JStr peer)]
                | Some c \<Rightarrow>
                    if PeerA c \<noteq> from \<and> PeerB c \<noteq> from then
                      not_found ''channel_not_found'' ''request history only for your own channels''
                        (''channel not found: '' @ peer) [(''from'', JStr from), (''peer'', JStr peer)]
                    else okResponse (JObj [(''peer'', JStr peer),
                           (''messages'', JArr (sliceHistory (c_log c) since limit))]))
             else roomHistory from room since limit s)"

definition opChannels :: "request \<Rightarrow> state \<Rightarrow> response" where
  "opChannels req s =
     (let from = strVal (Args req) ''from''
      in if from = [] then missing_from
         else case agentByName s from of
           None \<Rightarrow> not_registered ''run lalia register before listing channels'' from
         | Some _ \<Rightarrow> okResponse (JArr (map (\<lambda>c. JObj [(''peer'', JStr (other c from)),
               (''pending_for_me'', JNum (int (length (mbox c from)))), (''msg_count'', JNum (c_seq c))])
             (listChannels s from))))"

section \<open>The handlers keep the invariants\<close>

lemma both_inv_chan:
  assumes "both_inv s" "chan_inv s'" "rooms s' = rooms s"
  shows "both_inv s'"
  using assms rooms_inv_frame[of s s'] by (simp add: both_inv_def)

lemma getOrCreate_both:
  assumes "both_inv s" "getOrCreateChannel from peer s = (k, c, s')"
  shows "both_inv s'" "map_of (channels s') k = Some c"
    and "agents s' = agents s" "nameIdx s' = nameIdx s" "rooms s' = rooms s"
proof -
  have r: "rooms s' = rooms s" "agents s' = agents s" "nameIdx s' = nameIdx s" "map_of (channels s') k = Some c"
    using assms(2) by (auto simp: getOrCreateChannel_def Let_def split: option.splits)
  then show "rooms s' = rooms s" "agents s' = agents s" "nameIdx s' = nameIdx s" "map_of (channels s') k = Some c"
    by simp_all
  have "chan_inv s" using assms(1) by (simp add: both_inv_def)
  then show "both_inv s'" using getOrCreate_keeps[OF _ assms(2)] assms(1) r(1) by (auto intro: both_inv_chan)
qed

lemma tell_frame:
  "rooms (snd (tell e k c from body s)) = rooms s" "agents (snd (tell e k c from body s)) = agents s"
  "nameIdx (snd (tell e k c from body s)) = nameIdx s" "tasks (snd (tell e k c from body s)) = tasks s"
  by (auto simp: tell_def Let_def split: option.split prod.split)
    (metis deliverAny_frame snd_conv enqueueWrite_frame)+

lemma chanRead_frame:
  "rooms (snd (chanRead k c from t s)) = rooms s" "agents (snd (chanRead k c from t s)) = agents s"
  "nameIdx (snd (chanRead k c from t s)) = nameIdx s" "tasks (snd (chanRead k c from t s)) = tasks s"
  by (auto simp: chanRead_def Let_def block_def split: option.split list.split)

lemma opTell_keeps:
  assumes inv: "both_inv s"
  shows "both_inv (snd (opTell e req s))"
proof -
  have "both_inv (snd (tell e k c f b s'))" if "getOrCreateChannel f p s = (k, c, s')" for f p b k c s'
  proof (rule both_inv_chan[of s'])
    show "both_inv s'" using getOrCreate_both[OF inv that] by blast
    then show "chan_inv (snd (tell e k c f b s'))"
      using getOrCreate_both(2)[OF inv that] by (intro tell_keeps) (simp_all add: both_inv_def)
  qed (simp add: tell_frame)
  then show ?thesis using inv by (auto simp: opTell_def Let_def split: option.split sum.split prod.split)
qed

lemma chanRead_both:
  "both_inv s \<Longrightarrow> map_of (channels s) k = Some c \<Longrightarrow> both_inv (snd (chanRead k c f t s))"
  by (rule both_inv_chan) (auto simp: chanRead_frame both_inv_def intro: chanRead_keeps)

lemma opRead_keeps:
  assumes inv: "both_inv s"
  shows "both_inv (snd (opRead e req s))"
proof -
  have "both_inv (snd (chanRead k c f t s'))" if "getOrCreateChannel f p s = (k, c, s')" for f p t k c s'
    using getOrCreate_both[OF inv that] by (intro chanRead_both)
  then show ?thesis using inv
    by (auto simp: opRead_def Let_def split: option.split sum.split prod.split intro: roomRead_keeps)
qed

lemma any_channelD:
  assumes "both_inv s" "any_channel from s = Some (k, c)"
  shows "map_of (channels s) k = Some c \<and> is_peer c from \<and> mbox c from \<noteq> []"
proof -
  have "(k, c) \<in> set (channels s) \<and> is_peer c from \<and> mbox c from \<noteq> []"
    using assms(2) by (auto simp: any_channel_def find_Some_iff) (metis nth_mem)
  then show ?thesis using assms(1) by (simp add: both_inv_def chan_inv_def mem_map_of_iff)
qed

lemma any_roomD:
  assumes "both_inv s" "any_room from s = Some (n, r)"
  shows "map_of (rooms s) n = Some r \<and> from \<in> set (r_members r) \<and> rbox r from \<noteq> []"
proof -
  have "(n, r) \<in> set (rooms s) \<and> from \<in> set (r_members r) \<and> rbox r from \<noteq> []"
    using assms(2) by (auto simp: any_room_def find_Some_iff) (metis nth_mem)
  then show ?thesis using assms(1) by (simp add: both_inv_def rooms_inv_def mem_map_of_iff)
qed

lemma any_channel_None: "any_channel from s = None \<longleftrightarrow>
    (\<forall>(k, c) \<in> set (channels s). \<not> (is_peer c from \<and> mbox c from \<noteq> []))"
  by (auto simp: any_channel_def find_None_iff)

lemma any_room_None: "any_room from s = None \<longleftrightarrow>
    (\<forall>(n, r) \<in> set (rooms s). \<not> (from \<in> set (r_members r) \<and> rbox r from \<noteq> []))"
  by (auto simp: any_room_def find_None_iff)

text \<open>Taking one pending message off a channel is what a read of that channel does.\<close>

lemma chanRead_pop:
  assumes "is_peer c from" "mbox c from = m # q"
  shows "chanRead k c from t s = (Done (msgResponse m),
    with_queue (mailboxDeleteOne from ''peer'' (other c from) (Seq m))
      (put_channel k (c\<lparr>c_mailbox := AList.update from q (c_mailbox c)\<rparr>) s))"
proof -
  obtain p where "peerOf c from = Some p" using assms(1) peerOf_iff[of c] by (auto simp: is_peer_def)
  then show ?thesis using assms(2) by (simp add: chanRead_def mbox_def)
qed

lemma room_pop_ok:
  assumes "room_ok n r" "boxes_bounded r" "rbox r x = m # q"
  shows "room_ok n (r\<lparr>r_mailbox := AList.update x q (r_mailbox r)\<rparr>)
    \<and> boxes_bounded (r\<lparr>r_mailbox := AList.update x q (r_mailbox r)\<rparr>)"
proof -
  have "rbox_ok r x" "length (rbox r x) \<le> roomMailboxLimit"
    using assms(1,2) by (simp_all add: room_ok_def boxes_bounded_def)
  then show ?thesis using assms by (auto simp: room_ok_def rbox_ok_def boxes_bounded_def)
qed

lemma opReadAny_idle:
  assumes "strVal (Args req) ''from'' = from" "from \<noteq> []" "any_channel from s = None" "any_room from s = None"
  shows "map_of (anyWaiter s) from = Some w \<Longrightarrow> \<exists>r. opReadAny req s = (Done r, s) \<and> \<not> OK r"
    and "map_of (anyWaiter s) from = None \<Longrightarrow> \<exists>p. opReadAny req s = (Blocks (next_chan s),
           snd (block p s)\<lparr>anyWaiter := AList.update from (next_chan s) (anyWaiter s)\<rparr>)"
  using assms by (auto simp: opReadAny_def Let_def block_def)

lemma opReadAny_keeps:
  assumes inv: "both_inv s"
  shows "both_inv (snd (opReadAny req s))"
proof -
  let ?f = "strVal (Args req) ''from''"
  show ?thesis
  proof (cases "any_channel ?f s")
    case (Some kc)
    obtain k c where kc: "kc = (k, c)" by fastforce
    then have a: "map_of (channels s) k = Some c" "is_peer c ?f" "mbox c ?f \<noteq> []"
      using any_channelD[OF inv] Some by auto
    then obtain m q where mq: "mbox c ?f = m # q" by (cases "mbox c ?f") auto
    show ?thesis using chanRead_both[OF inv a(1), of ?f 0] chanRead_pop[OF a(2) mq, of k 0 s] Some kc mq inv
      by (simp add: opReadAny_def Let_def)
  next
    case nc: None
    show ?thesis
    proof (cases "any_room ?f s")
      case (Some nr)
      obtain n r where nr: "nr = (n, r)" by fastforce
      then have a: "map_of (rooms s) n = Some r" "rbox r ?f \<noteq> []" using any_roomD[OF inv] Some by auto
      then obtain m q where mq: "rbox r ?f = m # q" by (cases "rbox r ?f") auto
      have "both_inv (put_room n (r\<lparr>r_mailbox := AList.update ?f q (r_mailbox r)\<rparr>) s)"
        using room_pop_ok[OF _ _ mq] both_invD[OF inv a(1)] by (intro both_inv_put_room inv) auto
      then show ?thesis using nc Some nr mq inv by (simp add: opReadAny_def Let_def)
    next
      case None
      have b: "both_inv (snd (block p s)\<lparr>anyWaiter := w\<rparr>)" for p w using inv by simp
      show ?thesis
      proof (cases "?f = []")
        case True
        then show ?thesis using inv by (simp add: opReadAny_def)
      next
        case False
        then show ?thesis using opReadAny_idle[OF refl False nc None] b inv
          by (cases "map_of (anyWaiter s) ?f") fastforce+
      qed
    qed
  qed
qed

lemma readAny_timeout_keeps: "both_inv s \<Longrightarrow> both_inv (snd (readAny_timeout f t s))"
  by (simp add: readAny_timeout_def)

section \<open>What the handlers promise\<close>

lemma opReadAny_channel:
  assumes "both_inv s" "strVal (Args req) ''from'' = from" "from \<noteq> []" "opReadAny req s = (out, s')"
    "any_channel from s = Some (k, c)"
  shows "\<exists>m q c'. map_of (channels s) k = Some c \<and> mbox c from = m # q
    \<and> out = Done (anyResponse ''peer'' (other c from) m) \<and> rooms s' = rooms s
    \<and> map_of (channels s') = (map_of (channels s))(k \<mapsto> c') \<and> mbox c' = (mbox c)(from := q)"
proof -
  have a: "map_of (channels s) k = Some c" "mbox c from \<noteq> []" using any_channelD[OF assms(1,5)] by auto
  then obtain m q where mq: "mbox c from = m # q" by (cases "mbox c from") auto
  let ?c = "c\<lparr>c_mailbox := AList.update from q (c_mailbox c)\<rparr>"
  have "out = Done (anyResponse ''peer'' (other c from) m)" "rooms s' = rooms s"
    "map_of (channels s') = (map_of (channels s))(k \<mapsto> ?c)"
    using assms(2-5) mq by (auto simp: opReadAny_def Let_def)
  moreover have "mbox ?c = (mbox c)(from := q)" by (simp add: mbox_def fun_eq_iff)
  ultimately show ?thesis using a mq by blast
qed

lemma opReadAny_room:
  assumes "both_inv s" "strVal (Args req) ''from'' = from" "from \<noteq> []" "opReadAny req s = (out, s')"
    "any_channel from s = None" "any_room from s = Some (n, r)"
  shows "\<exists>m q r'. map_of (rooms s) n = Some r \<and> from \<in> set (r_members r) \<and> rbox r from = m # q
    \<and> out = Done (anyResponse ''room'' n (toPeerMsg m)) \<and> channels s' = channels s
    \<and> map_of (rooms s') = (map_of (rooms s))(n \<mapsto> r') \<and> rbox r' = (rbox r)(from := q)"
proof -
  have a: "map_of (rooms s) n = Some r" "rbox r from \<noteq> []" "from \<in> set (r_members r)"
    using any_roomD[OF assms(1,6)] by auto
  have nm: "r_Name r = n" using both_invD[OF assms(1) a(1)] by (simp add: room_ok_def)
  obtain m q where mq: "rbox r from = m # q" using a(2) by (cases "rbox r from") auto
  let ?r = "r\<lparr>r_mailbox := AList.update from q (r_mailbox r)\<rparr>"
  have "out = Done (anyResponse ''room'' n (toPeerMsg m))" "channels s' = channels s"
    "map_of (rooms s') = (map_of (rooms s))(n \<mapsto> ?r)"
    using assms(2-6) mq nm by (auto simp: opReadAny_def Let_def)
  moreover have "rbox ?r = (rbox r)(from := q)" by (simp add: fun_eq_iff)
  ultimately show ?thesis using a mq by blast
qed

lemma opReadAny_nothing:
  assumes "strVal (Args req) ''from'' = from" "from \<noteq> []" "opReadAny req s = (out, s')"
    "any_channel from s = None" "any_room from s = None"
  shows "case map_of (anyWaiter s) from of
      Some _ \<Rightarrow> s' = s \<and> (\<exists>r. out = Done r \<and> \<not> OK r)
    | None \<Rightarrow> \<exists>ch. out = Blocks ch \<and> map_of (anyWaiter s') from = Some ch"
proof (cases "map_of (anyWaiter s) from")
  case None
  then obtain p where "opReadAny req s = (Blocks (next_chan s),
     snd (block p s)\<lparr>anyWaiter := AList.update from (next_chan s) (anyWaiter s)\<rparr>)"
    using opReadAny_idle(2)[OF assms(1,2,4,5)] by blast
  then show ?thesis using assms(3) None by auto
next
  case (Some w)
  then show ?thesis using opReadAny_idle(1)[OF assms(1,2,4,5) Some] assms(3) by auto
qed

text \<open>C18: A \<^verbatim>\<open>read-any\<close> takes exactly one pending message, the oldest of some peer channel or
  else of some room of the caller, and says where it came from; it blocks only when nothing at all is
  pending for the caller, and never while another one of the same caller is blocked.\<close>

theorem opReadAny_takes_one:
  assumes "both_inv s" "strVal (Args req) ''from'' = from" "from \<noteq> []" "opReadAny req s = (out, s')"
  shows "(\<exists>k c m q. map_of (channels s) k = Some c \<and> mbox c from = m # q
        \<and> out = Done (anyResponse ''peer'' (other c from) m) \<and> rooms s' = rooms s
        \<and> (\<exists>c'. map_of (channels s') = (map_of (channels s))(k \<mapsto> c') \<and> mbox c' = (mbox c)(from := q)))
    \<or> (\<exists>n r m q. map_of (rooms s) n = Some r \<and> from \<in> set (r_members r) \<and> rbox r from = m # q
        \<and> out = Done (anyResponse ''room'' n (toPeerMsg m)) \<and> channels s' = channels s
        \<and> (\<exists>r'. map_of (rooms s') = (map_of (rooms s))(n \<mapsto> r') \<and> rbox r' = (rbox r)(from := q)))
    \<or> ((\<forall>k c. map_of (channels s) k = Some c \<and> is_peer c from \<longrightarrow> mbox c from = [])
       \<and> (\<forall>n r. map_of (rooms s) n = Some r \<and> from \<in> set (r_members r) \<longrightarrow> rbox r from = [])
       \<and> (case map_of (anyWaiter s) from of
            Some _ \<Rightarrow> s' = s \<and> (\<exists>r. out = Done r \<and> \<not> OK r)
          | None \<Rightarrow> \<exists>ch. out = Blocks ch \<and> map_of (anyWaiter s') from = Some ch))"
proof (cases "any_channel from s")
  case (Some kc)
  then obtain k c where "any_channel from s = Some (k, c)" by (metis prod.collapse)
  from opReadAny_channel[OF assms this] show ?thesis by blast
next
  case nc: None
  then have c: "map_of (channels s) k = Some c \<Longrightarrow> is_peer c from \<Longrightarrow> mbox c from = []" for k c
    by (auto simp: any_channel_None dest: map_of_SomeD)
  show ?thesis
  proof (cases "any_room from s")
    case (Some nr)
    then obtain n r where "any_room from s = Some (n, r)" by (metis prod.collapse)
    from opReadAny_room[OF assms nc this] show ?thesis by blast
  next
    case None
    then have "map_of (rooms s) n = Some r \<Longrightarrow> from \<in> set (r_members r) \<Longrightarrow> rbox r from = []" for n r
      by (auto simp: any_room_None dest: map_of_SomeD)
    then show ?thesis using c opReadAny_nothing[OF assms(2-4) nc None] by blast
  qed
qed

definition plain_address :: "env \<Rightarrow> string \<Rightarrow> bool" where
  \<comment> \<open>not a nickname, not an identifier, no separator\<close>
  "plain_address e n \<longleftrightarrow> map_of (nicks e) n = None \<and> \<not> isULID e n \<and> CHR ''@'' \<notin> set n"

lemma plain_resolves:
  assumes "wf_registry s" "plain_address e n" "agentByName s n \<noteq> None"
  shows "resolvePeerName e n s = Inr n"
  using bare_resolves[OF assms(1), of e n n] assms(2,3) by (simp add: plain_address_def)

lemma getOrCreate_idle:
  assumes "getOrCreateChannel a b s = (k, c, t)" "a \<noteq> b"
    "\<And>c. map_of (channels s) (channelKey a b) = Some c \<Longrightarrow> peerOf c a = Some b \<and> map_of (c_waiter c) b = None \<and> mbox c b = []"
  shows "peerOf c a = Some b \<and> map_of (c_waiter c) b = None \<and> mbox c b = []"
proof (cases "map_of (channels s) (channelKey a b)")
  case None
  then have "c = newChannel a b" using assms(1) by (simp add: getOrCreateChannel_def Let_def)
  then show ?thesis using assms(2) by (auto simp: newChannel_def peerOf_def mbox_def)
next
  case (Some d)
  then have "c = d" using assms(1) by (simp add: getOrCreateChannel_def Let_def)
  then show ?thesis using assms(3) Some by simp
qed

text \<open>C7: What an agent tells a registered peer, the peer's next read of that agent returns: same body and
  author, the next number of the conversation, when nobody was waiting for it and nothing was pending.\<close>

theorem tell_then_read:
  assumes "wf_registry s" "agentByName s a \<noteq> None" "agentByName s b \<noteq> None" "a \<noteq> b" "a \<noteq> []" "b \<noteq> []"
    "plain_address e a" "plain_address e b" "map_of (anyWaiter s) b = None"
    "\<And>c. map_of (channels s) (channelKey a b) = Some c \<Longrightarrow>
       peerOf c a = Some b \<and> map_of (c_waiter c) b = None \<and> mbox c b = []"
    "plain_address e' a"
  shows "\<exists>s1 n. opTell e \<lparr>Op = ''tell'', Args = [(''from'', JStr a), (''peer'', JStr b), (''body'', JStr body)]\<rparr> s
      = (okResponse (JObj [(''seq'', JNum n), (''peer'', JStr b)]), s1)
    \<and> fst (opRead e' \<lparr>Op = ''read'', Args = [(''from'', JStr b), (''peer'', JStr a)]\<rparr> s1)
      = Done (msgResponse \<lparr>Seq = n, From = a, TS = now e, Body = body\<rparr>)"
proof -
  obtain k c s0 where g: "getOrCreateChannel a b s = (k, c, s0)" by (metis prod_cases3)
  have k: "k = channelKey a b" "map_of (channels s0) k = Some c" "agents s0 = agents s" "nameIdx s0 = nameIdx s"
    "anyWaiter s0 = anyWaiter s"
    using g by (auto simp: getOrCreateChannel_def Let_def split: option.splits)
  have c: "peerOf c a = Some b \<and> map_of (c_waiter c) b = None \<and> mbox c b = []"
    using getOrCreate_idle[OF g assms(4,10)] .
  note po = peerOf_other[OF c[THEN conjunct1]]
  let ?req = "\<lparr>Op = ''tell'', Args = [(''from'', JStr a), (''peer'', JStr b), (''body'', JStr body)]\<rparr>"
  let ?rq = "\<lparr>Op = ''read'', Args = [(''from'', JStr b), (''peer'', JStr a)]\<rparr>"
  obtain r s1 where t: "tell e k c a body s0 = (r, s1)" by fastforce
  have tell: "opTell e ?req s = (r, s1)"
    using assms(2,4-6) plain_resolves[OF assms(1,8,3)] g t by (auto simp: opTell_def Let_def strVal_def)
  have fr: "agents s1 = agents s" "nameIdx s1 = nameIdx s"
    using tell_frame[of e k c a body s0] t k by simp_all
  obtain c' where c': "map_of (channels s1) k = Some c'" "r = okResponse (JObj [(''seq'', JNum (c_seq c + 1)), (''peer'', JStr b)])"
    "mbox c' b = [told e c a body]" "peerOf c' = peerOf c"
    using t c k(5) assms(9) unfolding tell_eq[OF c[THEN conjunct1]] Let_def
    by (auto simp: mbox_def peerOf_def fun_eq_iff logged_def)
  have ip: "is_peer c' b" using c'(4) po peerOf_iff[of c' b] by (auto simp: is_peer_def)
  have "fst (opRead e' ?rq s1) = Done (msgResponse (told e c a body))"
  proof -
    have wf1: "wf_registry s1" using assms(1) wf_registry_cong[OF fr] by simp
    have "agentByName s1 = agentByName s" using fr by (rule agentByName_cong)
    then have "resolvePeerName e' a s1 = Inr a" using plain_resolves[OF wf1 assms(11)] assms(2) by simp
    moreover have "getOrCreateChannel b a s1 = (k, c', s1)"
      using c'(1) k(1) by (simp add: getOrCreateChannel_def channelKey_sym[of b a])
    ultimately show ?thesis using assms(5,6) chanRead_pop[OF ip c'(3)]
      by (simp add: opRead_def Let_def strVal_def numVal_def target_error_def)
  qed
  moreover have "told e c a body = \<lparr>Seq = c_seq c + 1, From = a, TS = now e, Body = body\<rparr>"
    by (simp add: told_def)
  ultimately show ?thesis using tell c'(2) by auto
qed

end
