(* ===== verification/Examples.thy ===== *)
theory Examples
  imports Task_Handlers Messaging Worktrees Signing
begin

text \<open>
  A small workspace on which the theorems are applied: a supervisor \<^verbatim>\<open>sv\<close> and a
  worker \<^verbatim>\<open>bob\<close>, the rooms of two tasks, one conversation and a project with three
  tasks. Each property with hypotheses is instantiated here; its hypotheses are discharged by
  evaluation or by the preservation lemmas.
\<close>

section \<open>The workspace\<close>

definition demo_git :: gitworld where
  "demo_git = \<lparr>g_list = Inr [], g_canon = (\<lambda>p. p), g_exists = (\<lambda>_. False), g_mkdirErr = None,
     g_branchExists = (\<lambda>_. False), g_add = (\<lambda>_ _ _. None), g_status = (\<lambda>_. Inr []), g_upstream = (\<lambda>_. None),
     g_ahead = (\<lambda>_. Inr ''0''), g_remove = (\<lambda>_. None), g_existsAfter = (\<lambda>_. False)\<rparr>"

definition demo_env :: env where
  "demo_env = \<lparr>now = 1000, newID = ''01C'', genKey = replicate 64 CHR ''k'', pubOf = take 32, saveErr = None,
     nicks = [], isULID = (\<lambda>x. hasPrefix x ''01''), verifySig = (\<lambda>p m sg. sg = CHR ''s'' # p),
     absPath = Inr, isDir = (\<lambda>_. True), git = (\<lambda>_. demo_git)\<rparr>"

definition demo_agent :: "string \<Rightarrow> string \<Rightarrow> string \<Rightarrow> int \<Rightarrow> agent" where
  "demo_agent i n role pid = empty_agent\<lparr>ag_AgentID := i, ag_Name := n, ag_Role := role, ag_PID := pid,
     ag_Pubkey := ''ab'', ag_Harness := ''claude'', ag_CWD := ''/w'', ag_Project := ''p'', ag_Branch := ''m'',
     ag_ExpiresAt := 2000\<rparr>"

definition demo_room :: room where
  "demo_room = \<lparr>r_Name = ''api'', r_Desc = [], r_CreatedBy = ''sv'', r_CreatedAt = 0, r_Archived = False, r_seq = 1,
     r_log = [\<lparr>rm_Seq = 1, rm_Room = ''api'', rm_From = ''sv'', rm_TS = 0, rm_Body = ''do it''\<rparr>],
     r_members = [''sv'', ''bob''], r_mailbox = [], r_dropped = [], r_waiter = []\<rparr>"

definition pending_room :: room where
  "pending_room = demo_room\<lparr>r_Name := ''ui'', r_log := [],
     r_mailbox := [(''bob'', [\<lparr>rm_Seq = 1, rm_Room = ''ui'', rm_From = ''sv'', rm_TS = 0, rm_Body = ''see log''\<rparr>])],
     r_dropped := [(''bob'', 2)]\<rparr>"

definition demo_task :: "string \<Rightarrow> string \<Rightarrow> string \<Rightarrow> task" where
  "demo_task n owner st = \<lparr>t_Slug = n, t_Branch = CHR ''f'' # n, t_Brief = ''do it'', t_OwnedPaths = [], t_Contracts = [],
     t_Worktree = ''/wt/'' @ n, t_Owner = owner, t_Status = st, t_UpdatedAt = 0\<rparr>"

definition demo_list :: taskList where
  "demo_list = \<lparr>tl_ProjectID = ''p'', tl_Supervisor = ''sv'', tl_RepoRoot = ''/main'',
     tl_Tasks = [demo_task ''api'' [] ''open'', demo_task ''db'' ''bob'' ''in-progress'', demo_task ''ui'' ''bob'' ''merged''],
     tl_UpdatedAt = 0\<rparr>"

definition demo :: state where
  "demo = empty_state\<lparr>agents := [(''01A'', demo_agent ''01A'' ''sv'' ''supervisor'' 7),
       (''01B'', demo_agent ''01B'' ''bob'' ''peer'' 8), (''01D'', demo_agent ''01D'' ''eve'' ''supervisor'' 9)],
     nameIdx := [(''sv'', ''01A''), (''bob'', ''01B''), (''eve'', ''01D'')],
     channels := [(channelKey ''bob'' ''sv'', newChannel ''bob'' ''sv'')],
     rooms := [(''api'', demo_room), (''ui'', pending_room)], tasks := [(''p'', demo_list)]\<rparr>"

definition ask :: "string \<Rightarrow> (string \<times> string) list \<Rightarrow> request" where
  "ask op kvs = \<lparr>Op = op, Args = map (\<lambda>(k, v). (k, JStr v)) kvs\<rparr>"

lemmas demo_defs = demo_def demo_list_def demo_task_def demo_room_def pending_room_def demo_agent_def
  empty_agent_def empty_state_def

lemma demo_wf: "wf_registry demo"
  by (auto simp: wf_registry_def agents_ok_def keys_ok_def demo_defs split: if_splits)

lemma demo_rooms: "rooms_inv demo"
  by (auto simp: rooms_inv_def room_ok_def rbox_ok_def rbox_def get_or_def drops_def boxes_bounded_def keys_ok_def
      roomMailboxLimit_def demo_defs split: if_splits)

lemma demo_chan: "chan_inv demo"
  by (auto simp: chan_inv_def chan_mirror_def chan_ok_def log_ok_def box_ok_def mbox_def keys_ok_def get_or_def
      mirror_at_def qbox_def box_def empty_db_def newChannel_def demo_defs split: if_splits)

lemma demo_both: "both_inv demo"
  using demo_rooms demo_chan by (rule both_invI)

lemma demo_tasks: "tasks_inv demo"
  by (auto simp: tasks_inv_def list_ok_def demo_defs known_statuses_def statuses keys_ok_def split: if_splits)

section \<open>Signing and names\<close>

theorem canonicalArgs_covers_witness:
  "canonicalArgs (Some [(''a'', JNum 1), (''sig'', JStr ''x'')]) = canonicalArgs (Some [(''sig'', JStr ''y''), (''a'', JNum 1)])"
  by (subst canonicalArgs_covers) (auto simp: keys_ok_def)

theorem sign_then_verify_witness:
  "verifyRequest demo_env (hexEncode (pubOf demo_env (replicate 64 CHR ''k'')))
     (AList.update ''sig'' (JStr (signRequest (\<lambda>p m. CHR ''s'' # take 32 p) (replicate 64 CHR ''k'') [(''from'', JStr ''bob'')]))
       [(''from'', JStr ''bob'')]) = None"
  by (rule sign_then_verify) (simp_all add: demo_env_def publicKeySize_def)

lemma demo_map: "map_of (agents demo) j = Some b \<longleftrightarrow>
    (j, b) \<in> {(''01A'', demo_agent ''01A'' ''sv'' ''supervisor'' 7), (''01B'', demo_agent ''01B'' ''bob'' ''peer'' 8),
      (''01D'', demo_agent ''01D'' ''eve'' ''supervisor'' 9)}"
  by (auto simp: demo_def empty_state_def split: if_splits)

lemma demo_agents_ok: "agents_ok demo"
  using demo_wf by (simp add: wf_registry_def)

theorem resolve_iff_unique_witness: "ResolveAddress demo_env ''bob@p'' demo = Inr ''01B''"
proof (rule resolve_iff_unique[THEN iffD2])
  show "\<exists>a. map_of (agents demo) ''01B'' = Some a \<and> address_matches ''bob@p'' a \<and>
      (\<forall>j b. map_of (agents demo) j = Some b \<and> address_matches ''bob@p'' b \<longrightarrow> j = ''01B'')"
    unfolding demo_map by (rule exI[of _ "demo_agent ''01B'' ''bob'' ''peer'' 8"]) (auto, code_simp+)
qed (use demo_agents_ok in \<open>auto simp: demo_env_def\<close>)

theorem qualifiedName_resolves_witness:
  "ResolveAddress demo_env (qualifiedName (demo_agent ''01B'' ''bob'' ''peer'' 8)) demo = Inr ''01B''"
proof (rule qualifiedName_resolves)
  show "j = ''01B''" if "map_of (agents demo) j = Some b" "same_identity (demo_agent ''01B'' ''bob'' ''peer'' 8) b" for j b
    using that unfolding demo_map by (auto simp: same_identity_def demo_agent_def)
qed (use demo_agents_ok in \<open>auto simp: demo_map demo_env_def demo_agent_def empty_agent_def qualifiedName_def\<close>)

section \<open>Conversations\<close>

abbreviation demo_key :: string where "demo_key \<equiv> channelKey ''bob'' ''sv''"

theorem tell_delivers_once_witness:
  "fst (tell demo_env demo_key (newChannel ''bob'' ''sv'') ''sv'' ''hi'' demo) = okResponse (JObj [(''seq'', JNum 1), (''peer'', JStr ''bob'')])"
  using tell_delivers_once[of "newChannel ''bob'' ''sv''" "''sv''" "''bob''" demo_env demo_key "''hi''" demo, OF _ surjective_pairing]
  by (simp add: newChannel_def peerOf_def)

theorem tell_read_fifo_witness:
  "read_all demo_key ''bob'' 2 (tell_all demo_env demo_key ''sv'' [''one'', ''two''] demo) =
    [Done (msgResponse \<lparr>Seq = 1, From = ''sv'', TS = 1000, Body = ''one''\<rparr>),
     Done (msgResponse \<lparr>Seq = 2, From = ''sv'', TS = 1000, Body = ''two''\<rparr>)]"
  using tell_read_fifo[of demo demo_key "newChannel ''bob'' ''sv''" "''sv''" "''bob''" "[''one'', ''two'']" demo_env]
  by (simp add: demo_def empty_state_def newChannel_def peerOf_def mbox_def demo_env_def numeral_2_eq_2)

theorem tell_then_read_witness:
  "\<exists>s1 n. opTell demo_env \<lparr>Op = ''tell'', Args = [(''from'', JStr ''sv''), (''peer'', JStr ''bob''), (''body'', JStr ''hi'')]\<rparr> demo
      = (okResponse (JObj [(''seq'', JNum n), (''peer'', JStr ''bob'')]), s1)
    \<and> fst (opRead demo_env \<lparr>Op = ''read'', Args = [(''from'', JStr ''bob''), (''peer'', JStr ''sv'')]\<rparr> s1)
      = Done (msgResponse \<lparr>Seq = n, From = ''sv'', TS = now demo_env, Body = ''hi''\<rparr>)"
proof (rule tell_then_read)
  show "peerOf c ''sv'' = Some ''bob'' \<and> map_of (c_waiter c) ''bob'' = None \<and> mbox c ''bob'' = []"
    if "map_of (channels demo) (channelKey ''sv'' ''bob'') = Some c" for c
    using that by (auto simp: demo_def empty_state_def newChannel_def peerOf_def mbox_def channelKey_def split: if_splits)
qed (use demo_wf in \<open>auto simp: plain_address_def agentByName_def demo_env_def demo_def empty_state_def\<close>)

theorem opReadAny_takes_one_witness:
  "\<exists>m. fst (opReadAny (ask ''read-any'' [(''from'', ''bob'')]) demo) = Done (anyResponse ''room'' ''ui'' (toPeerMsg m))"
  using opReadAny_takes_one[OF demo_both, of "ask ''read-any'' [(''from'', ''bob'')]" "''bob''", OF _ _ surjective_pairing]
  by (auto simp: ask_def strVal_def demo_defs newChannel_def mbox_def rbox_def get_or_def split: if_splits)

section \<open>Rooms\<close>

abbreviation demo_post :: request where
  "demo_post \<equiv> ask ''post'' [(''from'', ''sv''), (''room'', ''api''), (''body'', ''hi'')]"

theorem opPost_fanout_witness:
  "\<exists>r'. map_of (rooms (snd (opPost demo_env demo_post demo))) ''api'' = Some r' \<and> r_seq r' = 2
     \<and> rbox r' ''bob'' = pushed [] (posted demo_env demo_room ''sv'' ''hi'')"
proof -
  have "post_args demo_post ''sv'' ''api'' ''hi''"
    by (simp add: post_args_def ask_def strVal_def)
  moreover have "map_of (rooms demo) ''api'' = Some demo_room" "\<not> r_Archived demo_room" "''sv'' \<in> set (r_members demo_room)"
    by (simp_all add: demo_def empty_state_def demo_room_def)
  ultimately show ?thesis
    using opPost_fanout[OF demo_rooms, of demo_post "''sv''" "''api''" "''hi''" demo_room demo_env, OF _ _ _ _ surjective_pairing]
    by (auto simp: demo_defs reader_of_def rbox_def)
qed

theorem opPost_durable_witness:
  "\<exists>r'. map_of (rooms (snd (opPost demo_env demo_post demo))) ''api'' = Some r'
    \<and> durable_in (snd (opPost demo_env demo_post demo)) r' ''bob''"
proof -
  have "\<forall>n. durable_in demo demo_room n"
    by (auto simp: durable_in_def room_durable_def box_def drop_count_def rbox_def drops_def get_or_def demo_defs empty_db_def)
  then show ?thesis
    using opPost_durable[OF demo_rooms, of "''api''" demo_room demo_post demo_env]
    by (auto simp: demo_def empty_state_def live_store_def ask_def strVal_def)
qed

theorem roomRead_drains_witness:
  "fst (roomRead demo_env ''bob'' ''ui'' 0 demo) = Done (okResponse (JObj [(''room'', JStr ''ui''), (''messages'', JArr
     [notice_json demo_env ''ui'' 2, room_msg_json \<lparr>rm_Seq = 1, rm_Room = ''ui'', rm_From = ''sv'', rm_TS = 0, rm_Body = ''see log''\<rparr>])]))"
  using roomRead_drains[of demo "''ui''" pending_room "''bob''" demo_env 0, OF _ _ _ surjective_pairing]
  by (simp add: demo_defs rbox_def get_or_def drops_def live_store_def)

theorem parse_render_room_witness:
  "parseRoomMsgFile (renderRoomMsg \<lparr>rm_Seq = 3, rm_Room = ''api'', rm_From = ''sv'', rm_TS = 1500000000, rm_Body = ''---'' @ [nl, nl]\<rparr>) =
    Inr \<lparr>rm_Seq = 3, rm_Room = ''api'', rm_From = ''sv'', rm_TS = 1000000000, rm_Body = ''---''\<rparr>"
  by (subst parse_render_room) (simp_all add: int64_max_def second_def trunc_sec_def trimRight_def trimLeft_def)

theorem room_msg_path_order_witness: "room_msg_path ''api'' 9 ''sv'' < room_msg_path ''api'' 10 ''bob''"
  by (rule room_msg_path_order) simp_all

section \<open>The registry\<close>

theorem bare_name_resolves_witness: "resolvePeerName demo_env ''bob'' demo = Inr ''bob''"
  using bare_name_resolves[OF demo_wf, of demo_env "''bob''" "''bob''"]
  by (simp add: demo_env_def agentByName_def demo_def empty_state_def)

abbreviation demo_register :: request where
  "demo_register \<equiv> \<lparr>Op = ''register'', Args = [(''name'', JStr ''amy''), (''pid'', JNum 12)]\<rparr>"

lemma demo_register_ok: "OK (fst (opRegister demo_env demo_register demo))"
  by code_simp

theorem register_binds_witness:
  "\<exists>a. agentByName (snd (opRegister demo_env demo_register demo)) ''amy'' = Some a \<and> ag_ExpiresAt a = 1000 + leaseTTL"
proof -
  have "map_of (agents demo) (newID demo_env) = None" "length (genKey demo_env) = privateKeySize"
    by (simp_all add: demo_env_def demo_def empty_state_def privateKeySize_def)
  from register_binds[OF demo_wf this surjective_pairing demo_register_ok] show ?thesis
    by (auto simp: strVal_def demo_env_def)
qed

theorem register_pid_exclusive_witness:
  "\<exists>b. map_of (agents (snd (opRegister demo_env demo_register demo))) ''01C'' = Some b \<and> ag_PID b = 12 \<and> ag_Name b = ''amy''"
proof -
  have "case map_of (agents (snd (opRegister demo_env demo_register demo))) ''01C'' of
      Some b \<Rightarrow> ag_PID b = 12 \<and> live demo_env b | None \<Rightarrow> False"
    by code_simp
  then obtain b where b: "map_of (agents (snd (opRegister demo_env demo_register demo))) ''01C'' = Some b"
      "ag_PID b = 12" "live demo_env b"
    by (auto split: option.splits)
  from register_pid_exclusive[OF demo_wf surjective_pairing demo_register_ok _ _ this] b show ?thesis
    by (simp add: strVal_def numVal_def)
qed

theorem unregister_refused_while_busy_witness:
  "Code (fst (opUnregister demo_env (ask ''unregister'' [(''from'', ''sv'')]) demo)) = CodeSupervisorBusy"
  using unregister_refused_while_busy[of demo "''sv''" "demo_agent ''01A'' ''sv'' ''supervisor'' 7" "''p''" demo_list
      "demo_task ''api'' [] ''open''" "ask ''unregister'' [(''from'', ''sv'')]" demo_env]
  by (simp add: agentByName_def demo_def empty_state_def demo_list_def demo_task_def statuses ask_def strVal_def)

theorem unregister_forgets_witness:
  "agentByName (snd (opUnregister demo_env (ask ''unregister'' [(''from'', ''bob'')]) demo)) ''bob'' = None"
proof -
  have "keys_ok (rooms demo)" "keys_ok (channels demo)" "busy_with ''bob'' demo = None"
    "agentByName demo ''bob'' = Some (demo_agent ''01B'' ''bob'' ''peer'' 8)"
    by (simp_all add: keys_ok_def busy_with_def agentByName_def demo_def empty_state_def demo_list_def)
  from unregister_forgets[OF demo_wf this(1,2,4,3) _ _ surjective_pairing, of "ask ''unregister'' [(''from'', ''bob'')]" demo_env]
  show ?thesis by (simp add: ask_def strVal_def)
qed

theorem sweep_exact_witness: "map_of (agents (sweep (demo_env\<lparr>now := 2001\<rparr>) demo)) ''01B'' = None"
proof -
  have "keys_ok (rooms demo)" by (simp add: keys_ok_def demo_def empty_state_def)
  from sweep_exact[OF demo_wf this, of "demo_env\<lparr>now := 2001\<rparr>" "''01B''"] show ?thesis
    by (simp add: demo_def empty_state_def demo_agent_def expired_def)
qed

section \<open>Worktrees and tasks\<close>

theorem listWorktrees_reads_back_witness:
  "listWorktrees (demo_git\<lparr>g_list := Inr (unlines (concat (map render_entry
      [\<lparr>we_Path = ''/main'', we_Branch = ''main''\<rparr>, \<lparr>we_Path = ''/wt/api'', we_Branch = ''f/api''\<rparr>])))\<rparr>)
    = Inr [\<lparr>we_Path = ''/main'', we_Branch = ''main''\<rparr>, \<lparr>we_Path = ''/wt/api'', we_Branch = ''f/api''\<rparr>]"
  by (rule listWorktrees_reads_back) auto

lemma demo_git_list: "listWorktrees demo_git = Inr []"
  by code_simp

theorem ensureWorktree_safe_witness: "g_add demo_git ''/wt/api'' ''fapi'' True = None"
proof -
  have "ensureWorktree demo_git ''/wt/api'' ''fapi'' = Inr True" by code_simp
  from ensureWorktree_safe[OF this demo_git_list] show ?thesis by (simp add: demo_git_def)
qed

abbreviation publish_req :: request where
  "publish_req \<equiv> \<lparr>Op = ''task_publish'', Args = [(''from'', JStr ''sv''), (''project'', JStr ''p''), (''repo_root'', JStr ''/main''),
     (''workstreams'', JArr [JObj [(''slug'', JStr ''net''), (''branch'', JStr ''f/net''), (''brief'', JStr ''wire it'')]])]\<rparr>"

lemma publish_ok: "OK (fst (opTaskPublish demo_env publish_req demo))"
  by code_simp

lemma publish_parsed: "parse_workstreams 0 [] (arrVal (Args publish_req) ''workstreams'') =
    Inr [\<lparr>ws_Slug = ''net'', ws_Branch = ''f/net'', ws_Brief = ''wire it'', ws_OwnedPaths = [], ws_Contracts = []\<rparr>]"
  by code_simp

theorem publish_per_slug_witness:
  "\<exists>t. row_at (snd (opTaskPublish demo_env publish_req demo)) ''p'' ''net'' = Some t \<and> t_Branch t = ''f/net'' \<and> t_Brief t = ''wire it''"
proof -
  have "ensureWorktree (git demo_env 0) (pathJoin [pathJoin [pathDir root, ''wt''], ''net'']) ''f/net'' = Inr True" for root
    using demo_git_list by (simp add: ensureWorktree_def Let_def demo_env_def) (simp add: demo_git_def)
  with publish_per_slug[OF demo_both surjective_pairing publish_ok refl] publish_parsed show ?thesis
    by (auto simp: Let_def published_def strVal_def)
qed

theorem publish_authorised_witness: "\<exists>a. agentByName demo ''sv'' = Some a \<and> ag_Role a = ''supervisor''"
  using publish_authorised[OF surjective_pairing publish_ok refl refl] by (auto simp: strVal_def)

theorem republish_is_noop_witness:
  "fst (publish_one demo_env (demo_git\<lparr>g_list := Inr (unlines (render_entry \<lparr>we_Path = ''/wt/api'', we_Branch = ''fapi''\<rparr>))\<rparr>)
      ''sv'' ''p'' ''/main'' ''/wt'' \<lparr>ws_Slug = ''api'', ws_Branch = ''fapi'', ws_Brief = ''do it'', ws_OwnedPaths = [], ws_Contracts = []\<rparr> demo)
    = Inr (JObj [(''slug'', JStr ''api''), (''noop'', JBool True)])"
proof -
  let ?g = "demo_git\<lparr>g_list := Inr (unlines (render_entry \<lparr>we_Path = ''/wt/api'', we_Branch = ''fapi''\<rparr>))\<rparr>"
  let ?ws = "\<lparr>ws_Slug = ''api'', ws_Branch = ''fapi'', ws_Brief = ''do it'', ws_OwnedPaths = [], ws_Contracts = []\<rparr>"
  have "ensureWorktree ?g (pathJoin [''/wt'', ws_Slug ?ws]) (ws_Branch ?ws) = Inr False" by code_simp
  moreover have "row_at demo ''p'' (ws_Slug ?ws) = Some (demo_task ''api'' [] ''open'')"
    by (simp add: row_at_def findTask_def demo_def empty_state_def demo_list_def demo_task_def)
  ultimately show ?thesis
    using republish_is_noop[of demo "''p''" ?ws "demo_task ''api'' [] ''open''" ?g "''/wt''" demo_room "''sv''" demo_env "''/main''",
        OF _ _ _ _ _ _ _ surjective_pairing]
    by (simp add: demo_task_def statuses demo_def empty_state_def demo_room_def)
qed

theorem bundle_post_not_durable_witness:
  "\<exists>r'. map_of (rooms (internalPost demo_env ''api'' ''sv'' ''hi'' demo)) ''api'' = Some r'
    \<and> \<not> durable_in (internalPost demo_env ''api'' ''sv'' ''hi'' demo) r' ''bob''"
  using bundle_post_not_durable[of demo "''api''" demo_room "''bob''" "''sv''" empty_db demo_env "''hi''"]
  by (auto simp: demo_def empty_state_def demo_room_def reader_of_def live_store_def rbox_def roomMailboxLimit_def
      room_durable_def box_def drop_count_def drops_def empty_db_def)

section \<open>Task handlers\<close>

abbreviation claim_req :: request where
  "claim_req \<equiv> ask ''task_claim'' [(''from'', ''bob''), (''slug'', ''api''), (''project'', ''p'')]"

lemma claim_ok: "OK (fst (opTaskClaim demo_env claim_req demo))"
  by code_simp

theorem claim_exclusive_witness:
  "\<exists>t. row_at (snd (opTaskClaim demo_env claim_req demo)) ''p'' ''api'' = Some t \<and> t_Owner t = ''bob'' \<and> t_Status t = ''in-progress''
    \<and> \<not> OK (fst (opTaskClaim demo_env claim_req (snd (opTaskClaim demo_env claim_req demo))))"
  using claim_exclusive[OF surjective_pairing claim_ok refl refl refl] by (auto simp: ask_def strVal_def statuses)

abbreviation status_req :: request where
  "status_req \<equiv> ask ''task_status'' [(''from'', ''bob''), (''slug'', ''db''), (''project'', ''p''), (''status'', ''ready'')]"

lemma status_ok: "OK (fst (opTaskStatus demo_env status_req demo))"
  by code_simp

theorem status_permission_witness:
  "\<exists>t. row_at (snd (opTaskStatus demo_env status_req demo)) ''p'' ''db'' = Some t \<and> t_Status t = ''ready''"
  using status_permission[OF surjective_pairing status_ok refl refl refl refl] by (auto simp: ask_def strVal_def)

abbreviation handoff_req :: "string \<Rightarrow> request" where
  "handoff_req sv \<equiv> ask ''task_handoff'' [(''from'', ''sv''), (''to'', sv), (''project'', ''p'')]"

lemma handoff_ok: "OK (fst (opTaskHandoff demo_env (handoff_req ''eve'') demo))"
    "OK (fst (opTaskHandoff demo_env (handoff_req ''sv'') demo))"
  by code_simp+

theorem supervisor_only_witness: "\<exists>l. map_of (tasks demo) ''p'' = Some l \<and> tl_Supervisor l = ''sv''"
  using supervisor_only[OF disjI2[OF disjI2[OF disjI2[OF handoff_ok(1)]]]] by (auto simp: ask_def strVal_def)

theorem handoff_transfers_witness:
  "requireSupervisor ''eve'' ''p'' (snd (opTaskHandoff demo_env (handoff_req ''eve'') demo)) = None
    \<and> requireSupervisor ''sv'' ''p'' (snd (opTaskHandoff demo_env (handoff_req ''eve'') demo)) \<noteq> None"
  using handoff_transfers[OF surjective_pairing handoff_ok(1), of "''sv''" "''eve''" "''p''"] by (simp add: ask_def strVal_def)

theorem handoff_to_self_evicts_witness:
  "\<exists>r. map_of (rooms (snd (opTaskHandoff demo_env (handoff_req ''sv'') demo))) ''api'' = Some r \<and> ''sv'' \<notin> set (r_members r)"
proof -
  have "map_of (rooms (snd (opTaskHandoff demo_env (handoff_req ''sv'') demo))) ''api'' \<noteq> None" by code_simp
  then obtain r where "map_of (rooms (snd (opTaskHandoff demo_env (handoff_req ''sv'') demo))) ''api'' = Some r" by auto
  then show ?thesis
    using handoff_to_self_evicts[OF surjective_pairing handoff_ok(2), of "''sv''" "''api''" "demo_task ''api'' [] ''open''" r]
    by (simp add: ask_def strVal_def row_at_def findTask_def demo_def empty_state_def demo_list_def demo_task_def statuses)
qed


theorem rooms_gc_exact_witness:
  "\<exists>r. map_of (rooms (snd (opRoomsGC (ask ''rooms_gc'' [(''from'', ''sv'')]) demo))) ''ui'' = Some r \<and> r_Archived r"
proof -
  have ok: "OK (fst (opRoomsGC (ask ''rooms_gc'' [(''from'', ''sv'')]) demo))" by code_simp
  show ?thesis
    by (rule rooms_gc_exact[OF surjective_pairing ok refl, THEN iffD2])
      (auto simp: ask_def strVal_def demo_def empty_state_def demo_list_def demo_task_def statuses)
qed

end
