(* ===== verification/Writer.thy ===== *)
theory Writer
  imports State_Model Go_Paths
begin

text \<open>
  The writer (\<^verbatim>\<open>writer.go\<close>): one goroutine that takes write operations from the
  channel, writes the file, commits it with git and deletes the row of the durable queue.
  Whether a system call or git fails comes from outside, as an \<open>ioResult\<close> for each operation;
  whether a statement on the queue errs, from \<open>faults\<close>. Files are keyed by the cleaned path
  below the workspace. Of git the writer sees an index and a history: \<^verbatim>\<open>git add\<close> puts the
  file into the index, where it counts only when it differs from the last commit, and
  \<^verbatim>\<open>git commit\<close> takes the whole index and fails when nothing in it differs.
\<close>

section \<open>Operations\<close>

datatype ioResult =
    IOok
  | MkdirFail
  | WriteFail "content option"  \<comment> \<open>what a failed write leaves in the file, if it touched it\<close>
  | AddFail
  | CommitFail  \<comment> \<open>for another reason than an index that is as the last commit\<close>

definition fail_write :: "writeOp \<Rightarrow> state \<Rightarrow> state" where
  \<comment> \<open>the closure \<^verbatim>\<open>fail\<close>: it returns when \<^verbatim>\<open>bumpAttempts\<close> errs; when
    \<^verbatim>\<open>deadLetter\<close> errs the row stays, with the attempt counted\<close>
  "fail_write op s =
     (if queue s = None \<or> wo_queueID op \<le> 0 then s
      else let err = q_fault s; s = q_exec (bumpAttempts (wo_queueID op)) s
           in if err then s
              else let n = wo_attempts op + 1
                   in if maxAttempts \<le> n
                      then q_exec (deadLetter \<lparr>q_id = wo_queueID op, q_relPath = wo_relPath op,
                             q_content = wo_content op, q_commitMsg = wo_commitMsg op, q_attempts = n\<rparr>) s
                      else s)"

definition put_file :: "string \<Rightarrow> content \<Rightarrow> state \<Rightarrow> state" where
  "put_file p c s = s\<lparr>files := AList.update (clean p) c (files s)\<rparr>"

definition head_of :: "state \<Rightarrow> string \<Rightarrow> content option" where
  \<comment> \<open>the file as the last commit has it\<close>
  "head_of s p = map_of (rev (commits s)) p"

definition git_add :: "string \<Rightarrow> content \<Rightarrow> state \<Rightarrow> state" where
  "git_add p c s = s\<lparr>staged := (if head_of s (clean p) = Some c then AList.delete (clean p) (staged s)
                                else AList.update (clean p) c (staged s))\<rparr>"

definition git_commit :: "state \<Rightarrow> state option" where
  \<comment> \<open>\<^verbatim>\<open>None\<close>: nothing to commit\<close>
  "git_commit s = (if staged s = [] then None else Some (s\<lparr>commits := commits s @ staged s, staged := []\<rparr>))"

definition commitWrite :: "ioResult \<Rightarrow> writeOp \<Rightarrow> state \<Rightarrow> state" where
  "commitWrite io op s =
     (let updated = put_file (wo_relPath op) (wo_content op) s;
          added = git_add (wo_relPath op) (wo_content op) updated
      in case io of
        MkdirFail \<Rightarrow> fail_write op s
      | WriteFail left \<Rightarrow> fail_write op (case left of None \<Rightarrow> s | Some c \<Rightarrow> put_file (wo_relPath op) c s)
      | AddFail \<Rightarrow> fail_write op updated
      | CommitFail \<Rightarrow> fail_write op added
      | IOok \<Rightarrow>
          (case git_commit added of
             None \<Rightarrow> fail_write op added
           | Some s \<Rightarrow> if queue s \<noteq> None \<and> 0 < wo_queueID op then q_exec (q_delete (wo_queueID op)) s else s))"

definition runWriter :: "ioResult \<Rightarrow> state \<Rightarrow> state" where
  \<comment> \<open>one turn of the loop; when the channel is closed and empty the database is closed\<close>
  "runWriter io s =
     (if panicked s then s
      else case writes s of
        [] \<Rightarrow> if writes_closed s then s\<lparr>db_closed := True\<rparr> else s
      | op # ops \<Rightarrow> commitWrite io op (s\<lparr>writes := ops\<rparr>))"

primrec drain :: "(nat \<Rightarrow> ioResult) \<Rightarrow> nat \<Rightarrow> state \<Rightarrow> state" where
  \<comment> \<open>turns of the writer\<close>
  "drain io 0 s = s"
| "drain io (Suc n) s = drain (\<lambda>k. io (Suc k)) n (runWriter (io 0) s)"

definition row_op :: "queueRow \<Rightarrow> writeOp" where
  "row_op r = \<lparr>wo_queueID = q_id r, wo_attempts = q_attempts r, wo_relPath = q_relPath r,
     wo_content = q_content r, wo_commitMsg = q_commitMsg r\<rparr>"

fun flush_rows :: "(nat \<Rightarrow> ioResult) \<Rightarrow> nat \<Rightarrow> queueRow list \<Rightarrow> state \<Rightarrow> state" where
  "flush_rows io k [] s = s"
| "flush_rows io k (r # rs) s = flush_rows io (Suc k) rs (commitWrite (io k) (row_op r) s)"

definition flushPendingWrites :: "(nat \<Rightarrow> ioResult) \<Rightarrow> state \<Rightarrow> state" where
  \<comment> \<open>when the rows cannot be read nothing is flushed\<close>
  "flushPendingWrites io s =
     (case queue s of
        None \<Rightarrow> s
      | Some d \<Rightarrow> if q_fault s then q_exec id s else flush_rows io 0 (q_pending d) (q_exec id s))"

definition after_crash :: "state \<Rightarrow> state" where
  \<comment> \<open>what a new process finds: the disk, the database, the keys; memory is fresh\<close>
  "after_crash s = empty_state\<lparr>queue := queue s, files := files s, commits := commits s, staged := staged s,
     faults := faults s, keys := keys s\<rparr>"

section \<open>The pipeline as a transition system\<close>

text \<open>
  A handler enqueues a write, the writer takes a turn, the channel is closed on stop, and at
  any moment the process may die; the next one first flushes what is pending. At any moment too the
  table of the queue may stop taking statements, and take them again.
\<close>

inductive pipe_step :: "state \<Rightarrow> state \<Rightarrow> bool" where
  enqueue: "pipe_step s (enqueueWrite p c m s)"
| turn: "pipe_step s (runWriter io s)"
| close: "pipe_step s (s\<lparr>writes_closed := True\<rparr>)"
| crash: "pipe_step s (flushPendingWrites io (after_crash s))"
| faulty: "pipe_step s (s\<lparr>faults := fs\<rparr>)"

inductive_cases pipe_stepE [elim]: "pipe_step s t"

section \<open>The invariant\<close>

definition op_row :: "writeOp \<Rightarrow> queueRow" where
  "op_row w = \<lparr>q_id = wo_queueID w, q_relPath = wo_relPath w, q_content = wo_content w,
     q_commitMsg = wo_commitMsg w, q_attempts = wo_attempts w\<rparr>"

definition queue_ok :: "db \<Rightarrow> bool" where
  \<comment> \<open>fresh, increasing identifiers; a row that was set aside has used up its attempts and is queued no more\<close>
  "queue_ok d \<longleftrightarrow> sorted_wrt (<) (map q_id (d_queue d)) \<and> 0 < d_nextID d
     \<and> (\<forall>r \<in> set (d_queue d). 0 < q_id r \<and> q_id r < d_nextID d \<and> 0 \<le> q_attempts r)
     \<and> (\<forall>r \<in> set (d_dead d). q_id r < d_nextID d \<and> maxAttempts \<le> q_attempts r)
     \<and> q_id ` set (d_queue d) \<inter> q_id ` set (d_dead d) = {}"

definition in_limit :: "db \<Rightarrow> bool" where
  \<comment> \<open>a row is set aside exactly when its attempts are used up\<close>
  "in_limit d \<longleftrightarrow> (\<forall>r \<in> set (d_queue d). q_attempts r < maxAttempts) \<and> (\<forall>r \<in> set (d_dead d). q_attempts r = maxAttempts)"

definition ops_ok :: "db \<Rightarrow> writeOp list \<Rightarrow> bool" where
  \<comment> \<open>an operation on the channel has not been tried; one that has a row still has it, and no two share one\<close>
  "ops_ok d ws \<longleftrightarrow> (\<forall>w \<in> set ws. 0 \<le> wo_queueID w \<and> wo_attempts w = 0
        \<and> (0 < wo_queueID w \<longrightarrow> op_row w \<in> set (d_queue d)))
     \<and> distinct (filter (\<lambda>i. 0 < i) (map wo_queueID ws))"

definition pipe_inv :: "state \<Rightarrow> bool" where
  "pipe_inv s \<longleftrightarrow> (\<forall>d. queue s = Some d \<longrightarrow> queue_ok d \<and> ops_ok d (writes s))"

definition secured :: "state \<Rightarrow> (string \<times> content) set" where
  \<comment> \<open>the writes that are committed, queued on disk, or set aside on disk\<close>
  "secured s = set (commits s) \<union> (case queue s of None \<Rightarrow> {}
     | Some d \<Rightarrow> (\<lambda>r. (clean (q_relPath r), q_content r)) ` (set (d_queue d) \<union> set (d_dead d)))"

lemma op_row_inverse [simp]: "row_op (op_row w) = w" "op_row (row_op r) = r"
  by (simp_all add: op_row_def row_op_def)

lemma row_op_id [simp]: "wo_queueID (row_op r) = q_id r" "q_id (op_row w) = wo_queueID w"
  by (simp_all add: op_row_def row_op_def)

lemma row_same_id:
  assumes "queue_ok d" "r \<in> set (d_queue d)" "r' \<in> set (d_queue d)" "q_id r = q_id r'"
  shows "r = r'"
proof -
  have "distinct (map q_id (d_queue d))"
    using assms(1) by (simp add: queue_ok_def strict_sorted_iff)
  then show ?thesis
    using assms(2-4) by (auto simp: distinct_map inj_on_def)
qed

lemma q_pending_ok: "queue_ok d \<Longrightarrow> q_pending d = d_queue d"
  by (simp add: q_pending_def queue_ok_def sort_key_id_if_sorted strict_sorted_imp_sorted)

definition pairs :: "db \<Rightarrow> (string \<times> content) set" where
  "pairs d = (\<lambda>r. (clean (q_relPath r), q_content r)) ` (set (d_queue d) \<union> set (d_dead d))"

definition settle :: "bool \<Rightarrow> bool \<Rightarrow> bool \<Rightarrow> writeOp \<Rightarrow> db \<Rightarrow> db" where
  \<comment> \<open>what a turn does to the tables: whether git committed, whether the first and the second statement erred\<close>
  "settle ok e1 e2 w d =
     (if wo_queueID w \<le> 0 \<or> e1 then d
      else if ok then q_delete (wo_queueID w) d
      else if maxAttempts \<le> wo_attempts w + 1 \<and> \<not> e2
      then deadLetter ((op_row w)\<lparr>q_attempts := wo_attempts w + 1\<rparr>) (bumpAttempts (wo_queueID w) d)
      else bumpAttempts (wo_queueID w) d)"

lemma put_file_frame [frame, simp]:
  "queue (put_file p c s) = queue s" "writes (put_file p c s) = writes s" "commits (put_file p c s) = commits s"
  "panicked (put_file p c s) = panicked s" "db_closed (put_file p c s) = db_closed s"
  "writes_closed (put_file p c s) = writes_closed s" "staged (put_file p c s) = staged s"
  "faults (put_file p c s) = faults s" "q_fault (put_file p c s) = q_fault s" "head_of (put_file p c s) = head_of s"
  by (simp_all add: put_file_def q_fault_def head_of_def fun_eq_iff)

lemma git_add_frame [frame, simp]:
  "queue (git_add p c s) = queue s" "writes (git_add p c s) = writes s" "commits (git_add p c s) = commits s"
  "panicked (git_add p c s) = panicked s" "db_closed (git_add p c s) = db_closed s"
  "writes_closed (git_add p c s) = writes_closed s" "files (git_add p c s) = files s"
  "faults (git_add p c s) = faults s" "q_fault (git_add p c s) = q_fault s"
  by (simp_all add: git_add_def q_fault_def)

lemma fail_write_frame [frame, simp]:
  "writes (fail_write w s) = writes s" "commits (fail_write w s) = commits s" "panicked (fail_write w s) = panicked s"
  "db_closed (fail_write w s) = db_closed s" "writes_closed (fail_write w s) = writes_closed s" "files (fail_write w s) = files s"
  "staged (fail_write w s) = staged s"
  by (simp_all add: fail_write_def Let_def)

lemma git_commit_frame:
  assumes "git_commit s = Some t"
  shows "t = s\<lparr>commits := commits s @ staged s, staged := []\<rparr>" "staged s \<noteq> []"
  using assms by (auto simp: git_commit_def split: if_splits)

text \<open>What an operation adds to the index, the next commit holds.\<close>

lemma added_committed:
  assumes "git_commit (git_add p c s) = Some t"
  shows "(clean p, c) \<in> set (commits t)" "set (commits s) \<subseteq> set (commits t)"
proof -
  have t: "commits t = commits s @ staged (git_add p c s)" using git_commit_frame[OF assms] by simp
  then show "set (commits s) \<subseteq> set (commits t)" by simp
  show "(clean p, c) \<in> set (commits t)"
  proof (cases "head_of s (clean p) = Some c")
    case True
    then have "(clean p, c) \<in> set (commits s)" by (auto simp: head_of_def dest: map_of_SomeD)
    then show ?thesis by (simp add: t)
  next
    case False
    then have "map_of (staged (git_add p c s)) (clean p) = Some c" by (simp add: git_add_def)
    then show ?thesis by (auto simp: t dest: map_of_SomeD)
  qed
qed

lemma commitWrite_frame [frame, simp]:
  "writes (commitWrite io w s) = writes s" "panicked (commitWrite io w s) = panicked s"
  "db_closed (commitWrite io w s) = db_closed s" "writes_closed (commitWrite io w s) = writes_closed s"
  by (simp_all add: commitWrite_def git_commit_def Let_def split: ioResult.split option.split)

lemma settle_unqueued: "wo_queueID w \<le> 0 \<Longrightarrow> settle ok e1 e2 w = id"
  by (simp add: settle_def fun_eq_iff)

lemma q_exec_tables:
  assumes "\<not> panicked s"
  shows "queue (q_exec f s) = (if q_fault s then queue s else map_option f (queue s))"
    "faults (q_exec f s) = tl (faults s)" "q_fault (q_exec f s) \<longleftrightarrow> db_closed s \<or> (tl (faults s) \<noteq> [] \<and> hd (tl (faults s)))"
  using assms by (auto simp: q_exec_def q_fault_def)

definition in_order :: "state \<Rightarrow> bool" where
  \<comment> \<open>no statement on the queue errs\<close>
  "in_order s \<longleftrightarrow> \<not> db_closed s \<and> faults s = []"

lemma fail_write_tables:
  assumes "\<not> panicked s"
  shows "\<exists>e1 e2. queue (fail_write w s) = map_option (settle False e1 e2 w) (queue s)
    \<and> (in_order s \<longrightarrow> \<not> e1 \<and> \<not> e2 \<and> faults (fail_write w s) = [])"
proof (cases "queue s = None \<or> wo_queueID w \<le> 0")
  case True
  then show ?thesis
    by (intro exI[of _ False]) (auto simp: fail_write_def in_order_def settle_unqueued option.map_id)
next
  case False
  let ?s = "q_exec (bumpAttempts (wo_queueID w)) s"
  have "queue (fail_write w s) = map_option (settle False (q_fault s) (q_fault ?s) w) (queue s)"
    using False assms by (auto simp: fail_write_def settle_def Let_def q_exec_tables op_row_def)
  moreover have "in_order s \<longrightarrow> \<not> q_fault s \<and> \<not> q_fault ?s \<and> faults (fail_write w s) = []"
    using assms by (auto simp: in_order_def fail_write_def Let_def q_exec_tables) (auto simp: q_fault_def)
  ultimately show ?thesis by blast
qed

lemma commitWrite_tables:
  assumes "\<not> panicked s"
  shows "\<exists>ok e1 e2. queue (commitWrite io w s) = map_option (settle ok e1 e2 w) (queue s)
    \<and> (ok \<longrightarrow> (clean (wo_relPath w), wo_content w) \<in> set (commits (commitWrite io w s)))
    \<and> set (commits s) \<subseteq> set (commits (commitWrite io w s))
    \<and> (in_order s \<longrightarrow> \<not> e1 \<and> \<not> e2 \<and> faults (commitWrite io w s) = [])"
proof -
  let ?a = "git_add (wo_relPath w) (wo_content w) (put_file (wo_relPath w) (wo_content w) s)"
  have failed: ?thesis if t: "commitWrite io w s = fail_write w u" "queue u = queue s" "\<not> panicked u"
      "commits u = commits s" "in_order u = in_order s" for u
    using fail_write_tables[OF t(3), of w] t by auto
  show ?thesis
  proof (cases "io = IOok \<and> git_commit ?a \<noteq> None")
    case True
    then obtain u where u: "git_commit ?a = Some u" by blast
    have q: "queue u = queue s" "faults u = faults s" "db_closed u = db_closed s" "panicked u = panicked s" "q_fault u = q_fault s"
      using git_commit_frame(1)[OF u] by (simp_all add: q_fault_def)
    have t: "commitWrite io w s = (if queue u \<noteq> None \<and> 0 < wo_queueID w then q_exec (q_delete (wo_queueID w)) u else u)"
      using True u by (simp add: commitWrite_def)
    then have c: "commits (commitWrite io w s) = commits u" by simp
    have "queue (commitWrite io w s) = map_option (settle True (q_fault s) False w) (queue s)"
      using assms q t by (cases "queue s") (auto simp: settle_def q_exec_tables)
    moreover have "in_order s \<longrightarrow> \<not> q_fault s \<and> faults (commitWrite io w s) = []"
      using assms q t by (simp add: in_order_def q_exec_tables) (simp add: q_fault_def)
    moreover have "(clean (wo_relPath w), wo_content w) \<in> set (commits u)" "set (commits s) \<subseteq> set (commits u)"
      using added_committed[OF u] by simp_all
    ultimately show ?thesis unfolding c by blast
  next
    case False
    let ?w = "put_file (wo_relPath w) (wo_content w) s"
    have "\<exists>u. commitWrite io w s = fail_write w u
        \<and> (u = ?a \<or> u = ?w \<or> u = s \<or> (\<exists>c. u = put_file (wo_relPath w) c s))"
      using False by (cases io) (auto simp: commitWrite_def Let_def split: option.split)
    moreover have "queue u = queue s" "\<not> panicked u" "commits u = commits s" "in_order u = in_order s"
      if "u = ?a \<or> u = ?w \<or> u = s \<or> (\<exists>c. u = put_file (wo_relPath w) c s)" for u
      using that assms by (auto simp: in_order_def)
    ultimately show ?thesis using failed by metis
  qed
qed

lemma commitWrite_closed: "db_closed s \<Longrightarrow> queue (commitWrite io w s) = queue s"
proof -
  have "queue (q_exec f u) = queue u" if "db_closed u" for f u using that by (simp add: q_exec_def q_fault_def)
  then have "queue (fail_write w u) = queue u" if "db_closed u" for u
    using that by (simp add: fail_write_def Let_def)
  then show "db_closed s \<Longrightarrow> queue (commitWrite io w s) = queue s"
    using \<open>\<And>u f. db_closed u \<Longrightarrow> queue (q_exec f u) = queue u\<close>
    by (simp add: commitWrite_def git_commit_def Let_def split: ioResult.split option.split)
qed

lemma pairs_bump: "pairs (bumpAttempts i d) = pairs d"
  unfolding pairs_def bumpAttempts_def by (simp add: image_Un image_image if_distrib cong: if_cong) blast

lemma bump_rows:
  assumes "queue_ok d" "op_row w \<in> set (d_queue d)" "r \<in> set (d_queue (bumpAttempts (wo_queueID w) d))"
  shows "r = (op_row w)\<lparr>q_attempts := wo_attempts w + 1\<rparr> \<or> (r \<in> set (d_queue d) \<and> q_id r \<noteq> wo_queueID w)"
proof -
  obtain r0 where r0: "r0 \<in> set (d_queue d)" "r = (if q_id r0 = wo_queueID w then r0\<lparr>q_attempts := q_attempts r0 + 1\<rparr> else r0)"
    using assms(3) by (auto simp: bumpAttempts_def)
  then show ?thesis using row_same_id[OF assms(1) r0(1) assms(2)] by (auto simp: op_row_def)
qed

lemma bump_ok:
  assumes "queue_ok d" "op_row w \<in> set (d_queue d)"
  shows "queue_ok (bumpAttempts (wo_queueID w) d)"
proof -
  let ?d = "bumpAttempts (wo_queueID w) d"
  have op_ids: "map q_id (d_queue ?d) = map q_id (d_queue d)"
    by (simp add: bumpAttempts_def comp_def if_distrib cong: if_cong)
  moreover have "d_dead ?d = d_dead d" "d_nextID ?d = d_nextID d" by (simp_all add: bumpAttempts_def)
  moreover have "q_id ` set (d_queue ?d) = q_id ` set (d_queue d)"
    using arg_cong[OF op_ids, of set] by simp
  moreover have "0 < q_id r \<and> q_id r < d_nextID d \<and> 0 \<le> q_attempts r" if "r \<in> set (d_queue ?d)" for r
    using bump_rows[OF assms that] assms by (fastforce simp: queue_ok_def op_row_def)
  ultimately show ?thesis using assms(1) by (simp add: queue_ok_def)
qed

lemma dead_after_bump:
  assumes "queue_ok d" "op_row w \<in> set (d_queue d)"
  shows "deadLetter ((op_row w)\<lparr>q_attempts := n\<rparr>) (bumpAttempts (wo_queueID w) d) =
      (q_delete (wo_queueID w) d)\<lparr>d_dead := d_dead d @ [(op_row w)\<lparr>q_attempts := n\<rparr>]\<rparr>"
proof -
  have "wo_queueID w \<notin> q_id ` set (d_dead d)" using assms by (force simp: queue_ok_def op_row_def)
  moreover have "map (\<lambda>r. if q_id r = wo_queueID w then r\<lparr>q_attempts := q_attempts r + 1\<rparr> else r)
      (filter (\<lambda>x. q_id x \<noteq> wo_queueID w) (d_queue d)) = filter (\<lambda>x. q_id x \<noteq> wo_queueID w) (d_queue d)"
    by (rule map_idI) simp
  ultimately show ?thesis
    by (simp add: deadLetter_def bumpAttempts_def q_delete_def filter_map comp_def op_row_def if_distrib cong: if_cong)
qed

lemma delete_ok: "queue_ok d \<Longrightarrow> queue_ok (q_delete i d)"
  by (auto simp: queue_ok_def q_delete_def sorted_wrt_map sorted_wrt_filter)

text \<open>Settling an operation whose row is queued.\<close>

lemma settle_ok:
  assumes "queue_ok d" "op_row w \<in> set (d_queue d)"
  shows "queue_ok (settle ok e1 e2 w d)"
    "pairs d \<subseteq> pairs (settle ok e1 e2 w d) \<union> (if ok then {(clean (wo_relPath w), wo_content w)} else {})"
    "r \<in> set (d_queue d) \<Longrightarrow> q_id r \<noteq> wo_queueID w \<Longrightarrow> r \<in> set (d_queue (settle ok e1 e2 w d))"
    "in_limit d \<Longrightarrow> \<not> e2 \<Longrightarrow> in_limit (settle ok e1 e2 w d)"
proof -
  note dead = dead_after_bump[OF assms]
  have id: "q_id (op_row w) = wo_queueID w" "q_attempts (op_row w) = wo_attempts w"
    "q_relPath (op_row w) = wo_relPath w" "q_content (op_row w) = wo_content w"
    by (simp_all add: op_row_def)
  have pos: "0 < wo_queueID w" "0 \<le> wo_attempts w" "wo_queueID w < d_nextID d"
    using assms id unfolding queue_ok_def by force+
  have uniq: "r = op_row w" if "r \<in> set (d_queue d)" "q_id r = wo_queueID w" for r
    using row_same_id[OF assms(1) that(1) assms(2)] that id by simp
  have gone: "queue_ok ((q_delete (wo_queueID w) d)\<lparr>d_dead := d_dead d @ [(op_row w)\<lparr>q_attempts := n\<rparr>]\<rparr>)" if "maxAttempts \<le> n" for n
    using delete_ok[OF assms(1), of "wo_queueID w"] pos id that by (auto simp: queue_ok_def q_delete_def)
  show "queue_ok (settle ok e1 e2 w d)"
    using assms(1) delete_ok[OF assms(1)] bump_ok[OF assms] gone by (simp add: settle_def dead)
  show "pairs d \<subseteq> pairs (settle ok e1 e2 w d) \<union> (if ok then {(clean (wo_relPath w), wo_content w)} else {})"
    using pos uniq id by (auto simp: settle_def dead pairs_bump) (auto simp: pairs_def q_delete_def image_iff)
  show "r \<in> set (d_queue d) \<Longrightarrow> q_id r \<noteq> wo_queueID w \<Longrightarrow> r \<in> set (d_queue (settle ok e1 e2 w d))"
    by (auto simp: settle_def dead) (auto simp: q_delete_def bumpAttempts_def intro: rev_image_eqI)
  assume lim: "in_limit d" "\<not> e2"
  have "wo_attempts w < maxAttempts" using lim(1) assms(2) id by (force simp: in_limit_def)
  moreover have "in_limit (bumpAttempts (wo_queueID w) d)" if "wo_attempts w + 1 < maxAttempts"
    using that bump_rows[OF assms] lim(1) by (fastforce simp: in_limit_def bumpAttempts_def)
  moreover have "in_limit (q_delete (wo_queueID w) d)" using lim(1) by (simp add: in_limit_def q_delete_def)
  ultimately show "in_limit (settle ok e1 e2 w d)"
    using lim by (auto simp: settle_def dead not_le) (simp_all add: in_limit_def q_delete_def)
qed

lemma commits_secured: "set (commits s) \<subseteq> secured s"
  by (auto simp: secured_def)

lemma secured_queue: "queue s = Some d \<Longrightarrow> secured s = set (commits s) \<union> pairs d"
  by (simp add: secured_def pairs_def)

lemma secured_unqueued: "queue s = None \<Longrightarrow> secured s = set (commits s)"
  by (simp add: secured_def)

text \<open>A turn on an operation whose row is queued.\<close>

lemma commitWrite_row:
  assumes "\<not> panicked s" "queue s = Some d" "queue_ok d" "op_row w \<in> set (d_queue d)"
  shows "\<exists>d'. queue (commitWrite io w s) = Some d' \<and> queue_ok d' \<and> secured s \<subseteq> secured (commitWrite io w s)
    \<and> (\<forall>r \<in> set (d_queue d). q_id r \<noteq> wo_queueID w \<longrightarrow> r \<in> set (d_queue d'))
    \<and> (in_order s \<and> in_limit d \<longrightarrow> in_limit d' \<and> faults (commitWrite io w s) = [])"
proof -
  obtain ok e1 e2 where t: "queue (commitWrite io w s) = map_option (settle ok e1 e2 w) (queue s)"
    "ok \<longrightarrow> (clean (wo_relPath w), wo_content w) \<in> set (commits (commitWrite io w s))"
    "set (commits s) \<subseteq> set (commits (commitWrite io w s))"
    "in_order s \<longrightarrow> \<not> e1 \<and> \<not> e2 \<and> faults (commitWrite io w s) = []"
    using commitWrite_tables[OF assms(1), of io w] by blast
  let ?d = "settle ok e1 e2 w d"
  have q: "queue (commitWrite io w s) = Some ?d" using t(1) assms(2) by simp
  note settled = settle_ok[OF assms(3,4), where ok = ok and ?e1.0 = e1 and ?e2.0 = e2]
  have "secured s \<subseteq> secured (commitWrite io w s)"
    using settled(2) t(2,3) assms(2) q by (auto simp: secured_queue split: if_splits)
  with q settled(1,3,4) t(4) show ?thesis by blast
qed

lemma flush_rows_keeps:
  assumes "\<not> panicked s" "queue s = Some d" "queue_ok d" "set rs \<subseteq> set (d_queue d)" "distinct (map q_id rs)"
  shows "\<exists>d'. queue (flush_rows io k rs s) = Some d' \<and> queue_ok d' \<and> secured s \<subseteq> secured (flush_rows io k rs s)
    \<and> writes (flush_rows io k rs s) = writes s \<and> (in_order s \<and> in_limit d \<longrightarrow> in_limit d')"
  using assms
proof (induction rs arbitrary: k s d)
  case Nil
  then show ?case by auto
next
  case (Cons r rs)
  let ?s = "commitWrite (io k) (row_op r) s"
  have q: "op_row (row_op r) \<in> set (d_queue d)" using Cons.prems by simp
  obtain d1 where d1: "queue ?s = Some d1" "queue_ok d1" "secured s \<subseteq> secured ?s"
    "\<forall>r' \<in> set (d_queue d). q_id r' \<noteq> wo_queueID (row_op r) \<longrightarrow> r' \<in> set (d_queue d1)"
    "in_order s \<and> in_limit d \<longrightarrow> in_limit d1 \<and> faults ?s = []"
    using commitWrite_row[OF Cons.prems(1-3) q, of "io k"] by (elim exE conjE) (rule that)
  have "set rs \<subseteq> set (d_queue d1)"
  proof
    fix x assume "x \<in> set rs"
    moreover from this have "x \<in> set (d_queue d)" "q_id x \<noteq> wo_queueID (row_op r)"
      using Cons.prems(4,5) by (auto simp: image_iff)
    ultimately show "x \<in> set (d_queue d1)" using d1(4) by blast
  qed
  then obtain d' where "queue (flush_rows io (Suc k) rs ?s) = Some d'" "queue_ok d'"
      "secured ?s \<subseteq> secured (flush_rows io (Suc k) rs ?s)" "writes (flush_rows io (Suc k) rs ?s) = writes s"
      "in_order ?s \<and> in_limit d1 \<longrightarrow> in_limit d'"
    using Cons.IH[of ?s d1 "Suc k"] Cons.prems d1(1,2) by auto
  moreover have "in_order s \<and> in_limit d \<longrightarrow> in_order ?s" using d1(5) by (simp add: in_order_def)
  ultimately show ?case using d1(3,5) by auto
qed

lemma after_crash_frame [simp]:
  "queue (after_crash s) = queue s" "commits (after_crash s) = commits s" "files (after_crash s) = files s"
  "writes (after_crash s) = []" "\<not> panicked (after_crash s)" "\<not> db_closed (after_crash s)" "\<not> writes_closed (after_crash s)"
  "keys (after_crash s) = keys s" "staged (after_crash s) = staged s" "faults (after_crash s) = faults s"
  "secured (after_crash s) = secured s"
  by (simp_all add: after_crash_def empty_state_def secured_def)

definition within_limit :: "state \<Rightarrow> bool" where
  "within_limit s \<longleftrightarrow> (\<forall>d. queue s = Some d \<longrightarrow> in_limit d)"

lemma crash_keeps:
  assumes "pipe_inv s"
  shows "pipe_inv (flushPendingWrites io (after_crash s))
    \<and> secured s \<subseteq> secured (flushPendingWrites io (after_crash s))
    \<and> (faults s = [] \<and> within_limit s \<longrightarrow> within_limit (flushPendingWrites io (after_crash s)))"
proof (cases "queue s")
  case None
  then show ?thesis by (simp add: flushPendingWrites_def pipe_inv_def within_limit_def)
next
  case (Some d)
  let ?u = "q_exec id (after_crash s)"
  have ok: "queue_ok d" using assms Some by (simp add: pipe_inv_def)
  have u: "queue ?u = Some d" "\<not> panicked ?u" "writes ?u = []" "secured ?u = secured s" "in_order ?u \<longleftrightarrow> tl (faults s) = []"
    using Some by (simp_all add: q_exec_tables option.map_id secured_queue in_order_def)
  show ?thesis
  proof (cases "q_fault (after_crash s)")
    case True
    then have "flushPendingWrites io (after_crash s) = ?u" using Some by (simp add: flushPendingWrites_def)
    then show ?thesis using u ok Some by (simp add: pipe_inv_def ops_ok_def within_limit_def)
  next
    case False
    have "distinct (map q_id (d_queue d))" using ok by (simp add: queue_ok_def strict_sorted_iff)
    then obtain d' where "queue (flush_rows io 0 (d_queue d) ?u) = Some d'" "queue_ok d'"
        "secured s \<subseteq> secured (flush_rows io 0 (d_queue d) ?u)" "writes (flush_rows io 0 (d_queue d) ?u) = []"
        "in_order ?u \<and> in_limit d \<longrightarrow> in_limit d'"
      using flush_rows_keeps[of ?u d "d_queue d" io 0] u ok by auto
    then show ?thesis
      using Some ok u False by (simp add: flushPendingWrites_def q_pending_ok pipe_inv_def ops_ok_def within_limit_def)
  qed
qed

lemma runWriter_keeps:
  assumes "pipe_inv s"
  shows "pipe_inv (runWriter io s) \<and> secured s \<subseteq> secured (runWriter io s)
    \<and> (faults s = [] \<and> within_limit s \<longrightarrow> within_limit (runWriter io s))"
proof (cases "panicked s \<or> writes s = []")
  case True
  then show ?thesis using assms
    by (auto simp: runWriter_def pipe_inv_def secured_def within_limit_def split: list.splits)
next
  case False
  then obtain w ws where ws: "writes s = w # ws" "\<not> panicked s" by (cases "writes s") auto
  let ?s0 = "s\<lparr>writes := ws\<rparr>"
  have run: "runWriter io s = commitWrite io w ?s0" using ws by (simp add: runWriter_def)
  have sec0: "secured ?s0 = secured s" by (simp add: secured_def)
  obtain ok e1 e2 where t: "queue (commitWrite io w ?s0) = map_option (settle ok e1 e2 w) (queue s)"
    "set (commits s) \<subseteq> set (commits (commitWrite io w ?s0))"
    using commitWrite_tables[of ?s0 io w] ws by auto
  show ?thesis
  proof (cases "queue s")
    case None
    then show ?thesis using t by (simp add: run pipe_inv_def secured_unqueued within_limit_def)
  next
    case (Some d)
    have ok: "queue_ok d" "ops_ok d (w # ws)" using assms Some ws by (auto simp: pipe_inv_def)
    have tail: "ops_ok d ws" using ok(2) by (auto simp: ops_ok_def split: if_splits)
    show ?thesis
    proof (cases "db_closed s \<or> wo_queueID w \<le> 0")
      case True
      then have "queue (commitWrite io w ?s0) = Some d"
        using t(1) Some commitWrite_closed[of ?s0 io w] by (auto simp: settle_unqueued)
      then show ?thesis using Some ok tail t(2) by (auto simp: run pipe_inv_def secured_queue within_limit_def)
    next
      case False
      then have q: "op_row w \<in> set (d_queue d)" using ok(2) by (auto simp: ops_ok_def)
      obtain d' where d': "queue (commitWrite io w ?s0) = Some d'" "queue_ok d'" "secured ?s0 \<subseteq> secured (commitWrite io w ?s0)"
        "\<forall>r \<in> set (d_queue d). q_id r \<noteq> wo_queueID w \<longrightarrow> r \<in> set (d_queue d')"
        "in_order ?s0 \<and> in_limit d \<longrightarrow> in_limit d' \<and> faults (commitWrite io w ?s0) = []"
        using commitWrite_row[OF _ _ ok(1) q, of ?s0 io] ws Some by auto
      have "op_row v \<in> set (d_queue d')" if "v \<in> set ws" "0 < wo_queueID v" for v
      proof (rule d'(4)[rule_format])
        show "op_row v \<in> set (d_queue d)" using that ok(2) by (auto simp: ops_ok_def)
        show "q_id (op_row v) \<noteq> wo_queueID w" using that ok(2) False by (auto simp: ops_ok_def image_iff)
      qed
      then have "ops_ok d' ws" using tail by (simp add: ops_ok_def)
      then show ?thesis
        using d' Some sec0 False by (auto simp: run pipe_inv_def within_limit_def in_order_def)
    qed
  qed
qed

lemma insert_keeps:
  assumes "queue_ok d" "ops_ok d ws"
  shows "queue_ok (snd (q_insert p c m d))"
    "ops_ok (snd (q_insert p c m d)) (ws @ [\<lparr>wo_queueID = d_nextID d, wo_attempts = 0, wo_relPath = p,
       wo_content = c, wo_commitMsg = m\<rparr>])"
    "ops_ok (snd (q_insert p c m d)) ws" "pairs (snd (q_insert p c m d)) = insert (clean p, c) (pairs d)"
    "in_limit d \<Longrightarrow> in_limit (snd (q_insert p c m d))"
proof -
  show "queue_ok (snd (q_insert p c m d))"
  proof -
    let ?r = "\<lparr>q_id = d_nextID d, q_relPath = p, q_content = c, q_commitMsg = m, q_attempts = 0\<rparr>"
    have "sorted_wrt (<) (map q_id (d_queue d @ [?r]))"
      using assms(1) by (simp add: queue_ok_def sorted_wrt_append)
    moreover have "d_nextID d \<notin> q_id ` set (d_dead d)" using assms(1) by (force simp: queue_ok_def)
    moreover have "0 < q_id r \<and> q_id r < d_nextID d + 1 \<and> 0 \<le> q_attempts r"
      if "r = ?r \<or> r \<in> set (d_queue d)" for r
    proof (cases "r = ?r")
      case True
      then show ?thesis using assms(1) by (simp add: queue_ok_def)
    next
      case False
      then have "r \<in> set (d_queue d)" using that by simp
      then have "0 < q_id r \<and> q_id r < d_nextID d \<and> 0 \<le> q_attempts r"
        using assms(1) unfolding queue_ok_def by blast
      then show ?thesis by simp
    qed
    moreover have "q_id r < d_nextID d + 1 \<and> maxAttempts \<le> q_attempts r" if "r \<in> set (d_dead d)" for r
    proof -
      have "q_id r < d_nextID d \<and> maxAttempts \<le> q_attempts r" using assms(1) that unfolding queue_ok_def by blast
      then show ?thesis by simp
    qed
    moreover have "q_id ` set (d_queue d) \<inter> q_id ` set (d_dead d) = {}" "0 < d_nextID d"
      using assms(1) unfolding queue_ok_def by blast+
    ultimately show ?thesis
      unfolding queue_ok_def q_insert_def by simp
  qed
  show ops: "ops_ok (snd (q_insert p c m d)) ws" using assms(2) by (simp add: ops_ok_def q_insert_def)
  have fresh: "wo_queueID w < d_nextID d" if "w \<in> set ws" "0 < wo_queueID w" for w
    using that assms by (force simp: ops_ok_def queue_ok_def)
  then show "ops_ok (snd (q_insert p c m d)) (ws @ [\<lparr>wo_queueID = d_nextID d, wo_attempts = 0, wo_relPath = p,
       wo_content = c, wo_commitMsg = m\<rparr>])"
  proof -
    have "d_nextID d \<notin> set (filter (\<lambda>i. 0 < i) (map wo_queueID ws))" using fresh by fastforce
    moreover have "0 < d_nextID d" using assms(1) unfolding queue_ok_def by blast
    ultimately show ?thesis
      using ops by (auto simp: ops_ok_def q_insert_def op_row_def)
  qed
  show "pairs (snd (q_insert p c m d)) = insert (clean p, c) (pairs d)"
    by (auto simp: pairs_def q_insert_def)
  show "in_limit d \<Longrightarrow> in_limit (snd (q_insert p c m d))"
    by (simp add: in_limit_def q_insert_def maxAttempts_def)
qed

lemma enqueue_keeps:
  assumes "pipe_inv s"
  shows "pipe_inv (enqueueWrite p c m s) \<and> secured s \<subseteq> secured (enqueueWrite p c m s)
    \<and> (within_limit s \<longrightarrow> within_limit (enqueueWrite p c m s))"
proof (cases "panicked s \<or> queue s = None \<or> q_fault s")
  case True
  have "ops_ok d (ws @ [\<lparr>wo_queueID = 0, wo_attempts = 0, wo_relPath = p, wo_content = c, wo_commitMsg = m\<rparr>]) = ops_ok d ws" for d ws
    by (auto simp: ops_ok_def)
  then show ?thesis
    using True assms
    by (auto simp: enqueueWrite_def pipe_inv_def secured_def within_limit_def q_exec_def Let_def split: option.splits)
next
  case False
  then obtain d where d: "queue s = Some d" by auto
  then have ok: "queue_ok d" "ops_ok d (writes s)" using assms by (auto simp: pipe_inv_def)
  have q: "queue (enqueueWrite p c m s) = Some (snd (q_insert p c m d))"
    using False d by (simp add: enqueueWrite_queue)
  have "writes (enqueueWrite p c m s) = (if writes_closed s then writes s else writes s @ [\<lparr>wo_queueID = d_nextID d,
      wo_attempts = 0, wo_relPath = p, wo_content = c, wo_commitMsg = m\<rparr>])"
    using False d by (simp add: enqueueWrite_def q_insert_def Let_def)
  then show ?thesis
    using d q insert_keeps[OF ok, of p c m] by (auto simp: pipe_inv_def within_limit_def secured_queue)
qed

lemma pipe_step_keeps:
  assumes "pipe_step s t" "pipe_inv s"
  shows "pipe_inv t \<and> secured s \<subseteq> secured t \<and> (faults s = [] \<and> within_limit s \<longrightarrow> within_limit t)"
  using assms(1)
proof cases
  case (enqueue p c m)
  then show ?thesis using enqueue_keeps[OF assms(2)] by simp
next
  case (turn io)
  then show ?thesis using runWriter_keeps[OF assms(2)] by simp
next
  case close
  then show ?thesis using assms(2) by (simp add: pipe_inv_def secured_def within_limit_def)
next
  case (crash io)
  then show ?thesis using crash_keeps[OF assms(2)] by simp
next
  case (faulty fs)
  then show ?thesis using assms(2) by (simp add: pipe_inv_def secured_def within_limit_def)
qed

lemma pipe_reach_keeps:
  assumes "pipe_step\<^sup>*\<^sup>* s t" "pipe_inv s"
  shows "pipe_inv t \<and> secured s \<subseteq> secured t"
  using assms by (induction rule: rtranclp_induct) (auto dest: pipe_step_keeps)

definition calm_step :: "state \<Rightarrow> state \<Rightarrow> bool" where
  \<comment> \<open>a step with which no statement errs, nor will at the next\<close>
  "calm_step s t \<longleftrightarrow> pipe_step s t \<and> faults s = [] \<and> faults t = []"

lemma calm_reach_keeps:
  assumes "calm_step\<^sup>*\<^sup>* s t" "pipe_inv s" "within_limit s"
  shows "pipe_inv t \<and> within_limit t"
  using assms by (induction rule: rtranclp_induct) (auto simp: calm_step_def dest: pipe_step_keeps)

text \<open>A row in the channel is a row on disk.\<close>

lemma op_secured:
  assumes "pipe_inv s" "queue s = Some d" "w \<in> set (writes s)" "0 < wo_queueID w"
  shows "(clean (wo_relPath w), wo_content w) \<in> secured s"
proof -
  have "op_row w \<in> set (d_queue d)" using assms by (auto simp: pipe_inv_def ops_ok_def)
  then show ?thesis using assms(2) by (force simp: secured_def op_row_def)
qed

section \<open>Properties\<close>



text \<open>What an error of \<^verbatim>\<open>deadLetter\<close> leaves: the row, queued, with all its attempts used; the next
  start tries it again.\<close>

lemma deadLetter_error:
  assumes "\<not> panicked s" "\<not> db_closed s" "queue s = Some d" "queue_ok d" "op_row w \<in> set (d_queue d)"
    "wo_attempts w = maxAttempts - 1" "faults s = False # True # fs"
  shows "\<exists>d'. queue (commitWrite MkdirFail w s) = Some d' \<and> d_dead d' = d_dead d
    \<and> (op_row w)\<lparr>q_attempts := maxAttempts\<rparr> \<in> set (d_queue d')"
proof -
  have "0 < wo_queueID w" using assms(4,5) by (force simp: queue_ok_def op_row_def)
  then have "queue (commitWrite MkdirFail w s) = Some (bumpAttempts (wo_queueID w) d)"
    using assms(1-3,7) by (simp add: commitWrite_def fail_write_def Let_def q_exec_tables q_fault_def)
  moreover have "(op_row w)\<lparr>q_attempts := maxAttempts\<rparr> \<in> set (d_queue (bumpAttempts (wo_queueID w) d))"
    using assms(5,6) by (auto simp: bumpAttempts_def op_row_def image_iff intro!: bexI[of _ "op_row w"])
  ultimately show ?thesis by (simp add: bumpAttempts_def)
qed

section \<open>Draining\<close>

lemma runWriter_flags [simp]: "panicked (runWriter io s) = panicked s" "writes_closed (runWriter io s) = writes_closed s"
  by (simp_all add: runWriter_def split: list.split)

lemma runWriter_pops: "\<not> panicked s \<Longrightarrow> writes (runWriter io s) = tl (writes s)"
  by (simp add: runWriter_def split: list.split)

lemma drain_flags [simp]: "panicked (drain io n s) = panicked s" "writes_closed (drain io n s) = writes_closed s"
  by (induction n arbitrary: io s) simp_all

lemma drain_pops: "\<not> panicked s \<Longrightarrow> writes (drain io n s) = drop n (writes s)"
  by (induction n arbitrary: io s) (simp_all add: runWriter_pops drop_Suc)

lemma drain_keeps: "pipe_inv s \<Longrightarrow> pipe_inv (drain io n s) \<and> secured s \<subseteq> secured (drain io n s)"
proof (induction n arbitrary: io s)
  case (Suc n)
  then show ?case using runWriter_keeps[OF Suc.prems, of "io 0"] Suc.IH[of "runWriter (io 0) s" "\<lambda>k. io (Suc k)"] by auto
qed simp

text \<open>The operations that change something with respect to the last commit, and those that do not.\<close>

fun changing :: "(string \<Rightarrow> content option) \<Rightarrow> writeOp list \<Rightarrow> writeOp list" where
  "changing h [] = []"
| "changing h (w # ws) = (if h (clean (wo_relPath w)) = Some (wo_content w) then changing h ws
     else w # changing (h(clean (wo_relPath w) \<mapsto> wo_content w)) ws)"

fun repeating :: "(string \<Rightarrow> content option) \<Rightarrow> writeOp list \<Rightarrow> writeOp list" where
  "repeating h [] = []"
| "repeating h (w # ws) = (if h (clean (wo_relPath w)) = Some (wo_content w) then w # repeating h ws
     else repeating (h(clean (wo_relPath w) \<mapsto> wo_content w)) ws)"

definition op_write :: "writeOp \<Rightarrow> string \<times> content" where
  "op_write w = (clean (wo_relPath w), wo_content w)"

definition op_ids :: "writeOp list \<Rightarrow> int set" where
  "op_ids ws = wo_queueID ` set ws"

definition tried_row :: "queueRow \<Rightarrow> queueRow" where
  "tried_row r = r\<lparr>q_attempts := q_attempts r + 1\<rparr>"

definition smooth :: "state \<Rightarrow> bool" where
  \<comment> \<open>a daemon whose queue takes statements and whose index holds nothing uncommitted\<close>
  "smooth s \<longleftrightarrow> \<not> panicked s \<and> in_order s \<and> staged s = []"

lemma head_of_commit: "head_of (s\<lparr>commits := commits s @ [(p, c)], staged := x\<rparr>) = (head_of s)(p \<mapsto> c)"
  by (simp add: head_of_def fun_eq_iff)

lemma op_ids_sub: "op_ids (changing h ws) \<subseteq> op_ids ws" "op_ids (repeating h ws) \<subseteq> op_ids ws"
proof -
  have "set (changing h ws) \<subseteq> set ws" by (induction h ws rule: changing.induct) (auto simp del: fun_upd_apply)
  moreover have "set (repeating h ws) \<subseteq> set ws" by (induction h ws rule: repeating.induct) (auto simp del: fun_upd_apply)
  ultimately show "op_ids (changing h ws) \<subseteq> op_ids ws" "op_ids (repeating h ws) \<subseteq> op_ids ws" by (auto simp: op_ids_def)
qed

lemma op_ids_Cons: "op_ids (w # ws) = insert (wo_queueID w) (op_ids ws)"
  by (simp add: op_ids_def)

text \<open>One turn with everything in order.\<close>

lemma smooth_turn:
  assumes "smooth s" "writes s = w # ws" "queue s = Some d" "wo_attempts w + 1 < maxAttempts"
    "p = clean (wo_relPath w)" "c = wo_content w" "t = runWriter IOok s"
  shows "smooth t" "map_of (files t) = (map_of (files s))(p \<mapsto> c)"
    "commits t = commits s @ (if head_of s p = Some c then [] else [(p, c)])" "head_of t = (head_of s)(p \<mapsto> c)"
    "queue t = Some (if wo_queueID w \<le> 0 then d else if head_of s p = Some c then bumpAttempts (wo_queueID w) d
       else q_delete (wo_queueID w) d)"
proof -
  let ?s = "s\<lparr>writes := ws\<rparr>"
  let ?a = "git_add (wo_relPath w) c (put_file (wo_relPath w) c ?s)"
  have s: "\<not> panicked s" "\<not> db_closed s" "faults s = []" "staged s = []" using assms(1) by (auto simp: smooth_def in_order_def)
  have hd: "head_of ?s = head_of s" by (simp add: head_of_def fun_eq_iff)
  have t: "t = commitWrite IOok w ?s" using s assms(2) by (simp add: assms(7) runWriter_def)
  have *: "smooth t \<and> map_of (files t) = (map_of (files s))(p \<mapsto> c)
    \<and> commits t = commits s @ (if head_of s p = Some c then [] else [(p, c)]) \<and> head_of t = (head_of s)(p \<mapsto> c)
    \<and> queue t = Some (if wo_queueID w \<le> 0 then d else if head_of s p = Some c then bumpAttempts (wo_queueID w) d
       else q_delete (wo_queueID w) d)"
  proof (cases "head_of s p = Some c")
    case True
    then have a: "staged ?a = []" using s(4) hd by (simp add: git_add_def assms(5))
    then have "t = fail_write w ?a" by (simp add: t commitWrite_def git_commit_def assms(6))
    then show ?thesis using True s a assms(3,4)
      by (auto simp: smooth_def in_order_def fail_write_def Let_def q_exec_tables q_fault_def put_file_def
          head_of_def assms(5) fun_eq_iff)
  next
    case False
    then have a: "staged ?a = [(p, c)]" using s(4) hd by (simp add: git_add_def assms(5))
    let ?u = "?a\<lparr>commits := commits s @ [(p, c)], staged := []\<rparr>"
    have "t = (if 0 < wo_queueID w then q_exec (q_delete (wo_queueID w)) ?u else ?u)"
      using a assms(3) by (simp add: t commitWrite_def git_commit_def assms(6))
    then show ?thesis using False s assms(3)
      by (auto simp: smooth_def in_order_def q_exec_tables q_fault_def put_file_def head_of_def assms(5) fun_eq_iff)
  qed
  then show "smooth t" "map_of (files t) = (map_of (files s))(p \<mapsto> c)"
    "commits t = commits s @ (if head_of s p = Some c then [] else [(p, c)])" "head_of t = (head_of s)(p \<mapsto> c)"
    "queue t = Some (if wo_queueID w \<le> 0 then d else if head_of s p = Some c then bumpAttempts (wo_queueID w) d
       else q_delete (wo_queueID w) d)" by blast+
qed

definition drained :: "writeOp list \<Rightarrow> db \<Rightarrow> state \<Rightarrow> state \<Rightarrow> bool" where
  \<comment> \<open>\<open>t\<close> is \<open>s\<close>, whose tables are \<open>d\<close>, with the operations done\<close>
  "drained ws d s t \<longleftrightarrow>
     commits t = commits s @ map op_write (changing (head_of s) ws)
   \<and> head_of t = fold (\<lambda>w h. h(clean (wo_relPath w) \<mapsto> wo_content w)) ws (head_of s)
   \<and> map_of (files t) = fold (\<lambda>w m. m(clean (wo_relPath w) \<mapsto> wo_content w)) ws (map_of (files s))
   \<and> (\<exists>d'. queue t = Some d' \<and> d_dead d' = d_dead d
        \<and> d_queue d' = map (\<lambda>r. if q_id r \<in> op_ids (repeating (head_of s) ws) then tried_row r else r)
            (filter (\<lambda>r. q_id r \<notin> op_ids (changing (head_of s) ws)) (d_queue d)))"

lemma turns_drain:
  assumes "pipe_inv s" "smooth s" "queue s = Some d" "writes s = ws"
  shows "drained ws d s (drain (\<lambda>_. IOok) (length ws) s) \<and> smooth (drain (\<lambda>_. IOok) (length ws) s)"
  using assms
proof (induction ws arbitrary: s d)
  case Nil
  then show ?case by (simp add: drained_def op_ids_def)
next
  case (Cons w ws)
  let ?s = "runWriter IOok s" and ?i = "wo_queueID w" and ?h = "head_of s"
  let ?same = "?h (clean (wo_relPath w)) = Some (wo_content w)"
  let ?d = "if ?i \<le> 0 then d else if ?same then bumpAttempts ?i d else q_delete ?i d"
  have ok: "queue_ok d" "ops_ok d (w # ws)" using Cons.prems by (auto simp: pipe_inv_def)
  then have w: "0 \<le> ?i" "wo_attempts w + 1 < maxAttempts" by (auto simp: ops_ok_def maxAttempts_def)
  have pos: "0 < q_id r" if "r \<in> set (d_queue d)" for r using that ok(1) unfolding queue_ok_def by blast
  have new: "0 < ?i \<Longrightarrow> ?i \<notin> op_ids ws" using ok(2) by (auto simp: ops_ok_def op_ids_def)
  note turn = smooth_turn[OF Cons.prems(2,4,3) w(2) refl refl refl]
  have "writes ?s = ws" using Cons.prems(2,4) by (simp add: smooth_def runWriter_pops)
  moreover have "pipe_inv ?s" using runWriter_keeps[OF Cons.prems(1)] by simp
  ultimately have IH: "drained ws ?d ?s (drain (\<lambda>_. IOok) (length ws) ?s) \<and> smooth (drain (\<lambda>_. IOok) (length ws) ?s)"
    using Cons.IH turn(1,5) by blast
  have step: "drain (\<lambda>_. IOok) (length (w # ws)) s = drain (\<lambda>_. IOok) (length ws) ?s" by simp
  have h: "head_of ?s = ?h(clean (wo_relPath w) \<mapsto> wo_content w)" by (rule turn(4))
  have rows: "map (\<lambda>r. if q_id r \<in> op_ids (repeating (head_of ?s) ws) then tried_row r else r)
        (filter (\<lambda>r. q_id r \<notin> op_ids (changing (head_of ?s) ws)) (d_queue ?d)) =
      map (\<lambda>r. if q_id r \<in> op_ids (repeating ?h (w # ws)) then tried_row r else r)
        (filter (\<lambda>r. q_id r \<notin> op_ids (changing ?h (w # ws))) (d_queue d))" (is "?L = ?R")
  proof (cases ?same)
    case True
    then have hs: "head_of ?s = ?h" by (simp add: h fun_upd_idem)
    have "?i \<notin> op_ids (repeating ?h ws)" "?i \<notin> op_ids (changing ?h ws)" if "0 < ?i" using new[OF that] op_ids_sub by blast+
    then show ?thesis using True w(1)
      by (auto simp: hs op_ids_Cons bumpAttempts_def tried_row_def[abs_def] filter_map comp_def dest: pos intro!: map_cong filter_cong)
  next
    case False
    then show ?thesis using w(1)
      by (auto simp: h op_ids_Cons q_delete_def dest: pos intro!: map_cong filter_cong)
  qed
  have dead: "d_dead ?d = d_dead d" by (simp add: bumpAttempts_def q_delete_def)
  show ?case unfolding step
  proof (intro conjI)
    show "smooth (drain (\<lambda>_. IOok) (length ws) ?s)" using IH by simp
    show "drained (w # ws) d s (drain (\<lambda>_. IOok) (length ws) ?s)"
      using IH[unfolded drained_def rows dead] turn(2,3) h
      unfolding drained_def by (auto simp: op_write_def fun_upd_idem)
  qed
qed

text \<open>What is repeated is in the history already.\<close>

lemma all_written:
  assumes "\<And>p c. h p = Some c \<Longrightarrow> (p, c) \<in> C" "w \<in> set ws"
  shows "op_write w \<in> C \<union> op_write ` set (changing h ws)"
  using assms
proof (induction ws arbitrary: h C)
  case (Cons v ws)
  let ?p = "clean (wo_relPath v)" and ?c = "wo_content v"
  show ?case
  proof (cases "h ?p = Some ?c")
    case True
    then show ?thesis using Cons.IH[of h C] Cons.prems by (auto simp: op_write_def)
  next
    case False
    have "op_write w \<in> insert (?p, ?c) C \<union> op_write ` set (changing (h(?p \<mapsto> ?c)) ws)" if "w \<in> set ws"
      using that Cons.prems(1) by (intro Cons.IH) (auto split: if_splits)
    then show ?thesis using False Cons.prems(2) by (auto simp: op_write_def)
  qed
qed simp

lemma head_in_commits: "head_of s p = Some c \<Longrightarrow> (p, c) \<in> set (commits s)"
  by (auto simp: head_of_def dest: map_of_SomeD)


text \<open>Replay can take a file back in time: when the first of two writes to a file fails to commit and
  the second succeeds, the file holds the newer content until the next start, which flushes the row of
  the older one over it, in the last commit too.\<close>

theorem replay_regresses:
  assumes "alive s" "smooth s" "queue s = Some d" "d_queue d = []" "writes s = []" "0 < d_nextID d"
    "head_of s (clean p) \<noteq> Some new" "old \<noteq> new"
    "t = runWriter IOok (runWriter CommitFail (enqueueWrite p new m' (enqueueWrite p old m s)))"
    "u = flushPendingWrites (\<lambda>_. IOok) (after_crash t)"
  shows "map_of (files t) (clean p) = Some new \<and> head_of t (clean p) = Some new
    \<and> map_of (files u) (clean p) = Some old \<and> head_of u (clean p) = Some old"
proof -
  let ?s1 = "runWriter CommitFail (enqueueWrite p new m' (enqueueWrite p old m s))"
  let ?r = "\<lparr>q_id = d_nextID d, q_relPath = p, q_content = old, q_commitMsg = m, q_attempts = 1\<rparr>"
  let ?w = "\<lparr>wo_queueID = d_nextID d + 1, wo_attempts = 0, wo_relPath = p, wo_content = new, wo_commitMsg = m'\<rparr>"
  have s: "\<not> panicked s" "\<not> db_closed s" "faults s = []" "staged s = []"
    using assms(1,2) by (simp_all add: alive_def smooth_def in_order_def)
  have two: "enqueueWrite p new m' (enqueueWrite p old m s) = s\<lparr>queue := Some (snd (q_insert p new m' (snd (q_insert p old m d)))),
      writes := [\<lparr>wo_queueID = d_nextID d, wo_attempts = 0, wo_relPath = p, wo_content = old, wo_commitMsg = m\<rparr>, ?w]\<rparr>"
  proof -
    have 1: "enqueueWrite p old m s = s\<lparr>queue := Some (snd (q_insert p old m d)), writes := [\<lparr>wo_queueID = d_nextID d,
        wo_attempts = 0, wo_relPath = p, wo_content = old, wo_commitMsg = m\<rparr>]\<rparr>" (is "_ = ?a")
      using assms(1,3,5) s(3) by (simp add: enqueueWrite_alive)
    moreover have "alive ?a" "faults ?a = []" using assms(1) s(3) by (simp_all add: alive_def)
    ultimately show ?thesis using enqueueWrite_alive[of ?a "snd (q_insert p old m d)" p new m'] by (simp add: q_insert_def)
  qed
  have s1: "writes ?s1 = [?w]" "faults ?s1 = []" "\<not> panicked ?s1" "\<not> db_closed ?s1" "commits ?s1 = commits s"
    "\<exists>d1. queue ?s1 = Some d1 \<and> d_queue d1 = [?r, \<lparr>q_id = d_nextID d + 1, q_relPath = p, q_content = new, q_commitMsg = m', q_attempts = 0\<rparr>]"
    "staged ?s1 = (if head_of s (clean p) = Some old then [] else [(clean p, old)])"
    using assms(4,6) s by (auto simp: two runWriter_def commitWrite_def fail_write_def Let_def q_exec_tables q_fault_def
        q_insert_def bumpAttempts_def maxAttempts_def head_of_def git_add_def)
  have t: "t = commitWrite IOok ?w (?s1\<lparr>writes := []\<rparr>)" using s1(1,3) by (simp add: assms(9) runWriter_def)
  let ?a = "git_add p new (put_file p new (?s1\<lparr>writes := []\<rparr>))"
  have "staged ?a = [(clean p, new)]"
    using assms(7) s1(5,7) by (simp add: git_add_def head_of_def)
  then have "t = q_exec (q_delete (d_nextID d + 1)) (?a\<lparr>commits := commits s @ [(clean p, new)], staged := []\<rparr>)"
    using s1(5,6) assms(6) by (auto simp: t commitWrite_def git_commit_def)
  then have tt: "map_of (files t) (clean p) = Some new" "commits t = commits s @ [(clean p, new)]" "faults t = []"
      "staged t = []" "\<exists>d2. queue t = Some d2 \<and> d_queue d2 = [?r]"
    using s1(2,3,4,6) by (auto simp: q_exec_tables q_fault_def put_file_def git_add_def q_delete_def)
  obtain d2 where d2: "queue t = Some d2" "d_queue d2 = [?r]" using tt(5) by blast
  let ?v = "(q_exec id (after_crash t))\<lparr>writes := [row_op ?r]\<rparr>"
  have "\<not> panicked ?v" by simp
  then have u: "u = runWriter IOok ?v"
    using d2 tt(3) by (simp add: assms(10) flushPendingWrites_def q_fault_def q_pending_def runWriter_def q_exec_def option.map_id after_crash_def empty_state_def)
  have "smooth ?v" using tt(3,4) by (simp add: smooth_def in_order_def q_exec_tables)
  from smooth_turn[OF this _ _ _ refl refl u] d2(1)
  have "map_of (files u) (clean p) = Some old" "head_of u (clean p) = Some old"
    by (simp_all add: row_op_def maxAttempts_def q_exec_tables q_fault_def tt(3) option.map_id)
  then show ?thesis using tt(1,2) by (simp add: head_of_def)
qed

end
