(* ===== verification/Recovery.thy ===== *)
theory Recovery
  imports Writer Task_Handlers Messaging
begin

text \<open>
  Starting the daemon (\<^verbatim>\<open>newState\<close> of \<^verbatim>\<open>state.go\<close>): migrate old plan files,
  flush the pending writes, then rebuild the registry and the task lists from the workspace, the
  rooms from the side store and their transcript files, and the mailboxes from the side store.

  Directories are not kept apart from files: an entry of a directory is a file whose path has
  that directory. Reading never fails here; parsing may.
\<close>

section \<open>The workspace\<close>

definition dir_files :: "string \<Rightarrow> state \<Rightarrow> (string \<times> content) list" where
  \<comment> \<open>\<^verbatim>\<open>os.ReadDir\<close>: the files of a directory with their contents, sorted by name\<close>
  "dir_files dir s = sort_key fst (map (\<lambda>(p, c). (pathBase p, c)) (filter (\<lambda>(p, c). pathDir p = dir) (files s)))"

section \<open>The registry\<close>

definition stale :: "env \<Rightarrow> agent \<Rightarrow> bool" where
  "stale e a \<longleftrightarrow> ag_ExpiresAt a \<noteq> zero_time \<and> ag_ExpiresAt a < now e"

definition load_agent :: "env \<Rightarrow> string \<times> bool \<Rightarrow> string \<times> content \<Rightarrow> state \<Rightarrow> state" where
  \<comment> \<open>one entry; \<open>mig\<close> is the identifier a legacy record gets and whether its new file could be written\<close>
  "load_agent e mig entry s =
     (let (name, c) = entry; fpath = pathJoin [''registry'', name]
      in if pathExt name \<noteq> ''.json'' then s
         else case c of
           AgentFile a \<Rightarrow>
             if ag_Name a = [] then s
             else if stale e a then s\<lparr>files := AList.delete fpath (files s)\<rparr>
             else if ag_AgentID a = [] then
               let a = a\<lparr>ag_AgentID := fst mig\<rparr>;
                   s = (if snd mig then s\<lparr>files := AList.delete fpath
                          (AList.update (pathJoin [''registry'', fst mig @ ''.json'']) (AgentFile a) (files s))\<rparr> else s)
               in indexAgent a s
             else indexAgent a s
         | _ \<Rightarrow> s)"

fun load_agents :: "env \<Rightarrow> (nat \<Rightarrow> string \<times> bool) \<Rightarrow> nat \<Rightarrow> (string \<times> content) list \<Rightarrow> state \<Rightarrow> state" where
  "load_agents e mig k [] s = s"
| "load_agents e mig k (x # xs) s = load_agents e mig (Suc k) xs (load_agent e (mig k) x s)"

definition loadRegistry :: "env \<Rightarrow> (nat \<Rightarrow> string \<times> bool) \<Rightarrow> state \<Rightarrow> state" where
  "loadRegistry e mig s = load_agents e mig 0 (dir_files ''registry'' s) s"

section \<open>Task lists\<close>

definition task_files :: "state \<Rightarrow> (string \<times> content) list" where
  \<comment> \<open>the directories below \<^verbatim>\<open>tasks/\<close> that hold a \<^verbatim>\<open>task-list.json\<close>, sorted by name\<close>
  "task_files s = sort_key fst (map (\<lambda>(p, c). (pathBase (pathDir p), c))
     (filter (\<lambda>(p, c). pathBase p = ''task-list.json'' \<and> pathDir (pathDir p) = ''tasks'') (files s)))"

definition load_list :: "string \<times> content \<Rightarrow> state \<Rightarrow> state" where
  "load_list entry s =
     (case entry of
        (dir, TaskFile l) \<Rightarrow>
          let l = (if tl_ProjectID l = [] then l\<lparr>tl_ProjectID := dir\<rparr> else l)
          in s\<lparr>tasks := AList.update (tl_ProjectID l) l (tasks s)\<rparr>
      | _ \<Rightarrow> s)"

definition loadTaskLists :: "state \<Rightarrow> state" where
  "loadTaskLists s = fold load_list (task_files s) s"

section \<open>Rooms\<close>

definition transcripts :: "string \<Rightarrow> state \<Rightarrow> (string \<times> content) list" where
  \<comment> \<open>the message files of a room; sorting the full paths is sorting the names, they share the directory\<close>
  "transcripts room s = filter (\<lambda>(n, c). hasSuffix n ''.md'' \<and> n \<noteq> ''ROOM.md'' \<and> n \<noteq> ''MEMBERS.md'')
     (dir_files (pathJoin [''rooms'', room]) s)"

definition load_message :: "string \<times> content \<Rightarrow> room \<Rightarrow> room" where
  "load_message entry r =
     (case entry of
        (n, Text t) \<Rightarrow> (case parseRoomMsgFile t of
            Inl err \<Rightarrow> r
          | Inr m \<Rightarrow> r\<lparr>r_log := r_log r @ [m], r_seq := (if r_seq r < rm_Seq m then rm_Seq m else r_seq r)\<rparr>)
      | _ \<Rightarrow> r)"

definition load_room :: "db \<Rightarrow> roomRecord \<Rightarrow> state \<Rightarrow> state" where
  "load_room d rec s =
     (let r = \<lparr>r_Name = rr_name rec, r_Desc = rr_desc rec, r_CreatedBy = rr_createdBy rec,
            r_CreatedAt = (case parseRFC3339 (rr_createdAt rec) of None \<Rightarrow> zero_time | Some t \<Rightarrow> t),
            r_Archived = rr_archived rec, r_seq = 0, r_log = [], r_members = remdups (roomMemberRows d (rr_name rec)),
            r_mailbox = [], r_dropped = [], r_waiter = []\<rparr>
      in put_room (rr_name rec) (fold load_message (transcripts (rr_name rec) s) r) s)"

definition loadRooms :: "state \<Rightarrow> state" where
  "loadRooms s = (case queue s of None \<Rightarrow> s | Some d \<Rightarrow> fold (load_room d) (roomRows d) s)"

section \<open>Mailboxes\<close>

definition row_time :: "env \<Rightarrow> mailboxRow \<Rightarrow> time" where
  "row_time e row = (case parseRFC3339 (mb_ts row) of None \<Rightarrow> now e | Some t \<Rightarrow> t)"

definition row_msg :: "env \<Rightarrow> mailboxRow \<Rightarrow> message" where
  "row_msg e row = \<lparr>Seq = mb_seq row, From = mb_fromName row, TS = row_time e row, Body = mb_body row\<rparr>"

definition row_room_msg :: "env \<Rightarrow> mailboxRow \<Rightarrow> roomMessage" where
  "row_room_msg e row = \<lparr>rm_Seq = mb_seq row, rm_Room = mb_target row, rm_From = mb_fromName row,
     rm_TS = row_time e row, rm_Body = mb_body row\<rparr>"

definition replay_row :: "env \<Rightarrow> mailboxRow \<Rightarrow> state \<Rightarrow> state" where
  "replay_row e row s =
     (if mb_kind row = ''peer'' then
        (case getOrCreateChannel (mb_recipient row) (mb_target row) s of
           (key, c, s) \<Rightarrow> put_channel key
             (c\<lparr>c_mailbox := AList.update (mb_recipient row)
                  (get_or [] (c_mailbox c) (mb_recipient row) @ [row_msg e row]) (c_mailbox c),
                c_seq := (if c_seq c < mb_seq row then mb_seq row else c_seq c)\<rparr>) s)
      else if mb_kind row = ''room'' then
        (case map_of (rooms s) (mb_target row) of
           None \<Rightarrow> s
         | Some r \<Rightarrow> put_room (mb_target row)
             (r\<lparr>r_mailbox := AList.update (mb_recipient row)
                  (get_or [] (r_mailbox r) (mb_recipient row) @ [row_room_msg e row]) (r_mailbox r),
                r_seq := (if r_seq r < mb_seq row then mb_seq row else r_seq r)\<rparr>) s)
      else s)"

definition replay_dropped :: "box_key \<times> int \<Rightarrow> state \<Rightarrow> state" where
  "replay_dropped row s =
     (case row of ((recipient, kind, target), n) \<Rightarrow>
        if kind = ''room'' then
          (case map_of (rooms s) target of
             None \<Rightarrow> s
           | Some r \<Rightarrow> put_room target (r\<lparr>r_dropped := AList.update recipient n (r_dropped r)\<rparr>) s)
        else s)"

definition replayMailbox :: "env \<Rightarrow> state \<Rightarrow> state" where
  "replayMailbox e s =
     (case queue s of
        None \<Rightarrow> s
      | Some d \<Rightarrow> fold replay_dropped (mailboxDropped d) (fold (replay_row e) (mailboxRows d) s))"

section \<open>A new daemon\<close>

type_synonym plans = "(string \<times> legacyPlan option) list option"

definition migrated :: "plans \<Rightarrow> bool \<Rightarrow> state \<Rightarrow> state" where
  "migrated plans tasksExists s =
     (case migratePlansToTasks plans tasksExists of
        None \<Rightarrow> s
      | Some written \<Rightarrow> fold (\<lambda>(p, c). put_file p c) written s)"

definition newState ::
  "env \<Rightarrow> plans \<Rightarrow> bool \<Rightarrow> (nat \<Rightarrow> ioResult) \<Rightarrow> (nat \<Rightarrow> string \<times> bool) \<Rightarrow> state \<Rightarrow> state" where
  \<comment> \<open>from what the previous process left behind\<close>
  "newState e plans tasksExists io mig s =
     (let s = migrated plans tasksExists (after_crash s);
          s = flushPendingWrites io s;
          s = loadRegistry e mig s;
          s = loadTaskLists s;
          s = loadRooms s
      in replayMailbox e s)"

section \<open>What each phase leaves alone\<close>

definition durable_rows :: "db \<Rightarrow> roomRecord list \<times> (string \<times> string) list \<times> mailboxRow list \<times> (box_key, int) gomap" where
  "durable_rows d = (d_rooms d, d_members d, d_mailbox d, d_dropped d)"

definition store_rows :: "state \<Rightarrow> (roomRecord list \<times> (string \<times> string) list \<times> mailboxRow list \<times> (box_key, int) gomap) option" where
  "store_rows s = map_option durable_rows (queue s)"

lemma fail_write_state [frame, simp]:
  "agents (fail_write w s) = agents s" "nameIdx (fail_write w s) = nameIdx s" "channels (fail_write w s) = channels s"
  "rooms (fail_write w s) = rooms s" "tasks (fail_write w s) = tasks s" "anyWaiter (fail_write w s) = anyWaiter s"
  by (simp_all add: fail_write_def Let_def)

lemma put_file_state [frame, simp]:
  "agents (put_file p c s) = agents s" "nameIdx (put_file p c s) = nameIdx s" "channels (put_file p c s) = channels s"
  "rooms (put_file p c s) = rooms s" "tasks (put_file p c s) = tasks s" "store_rows (put_file p c s) = store_rows s"
  by (simp_all add: put_file_def store_rows_def)

lemma git_add_state [frame, simp]:
  "agents (git_add p c s) = agents s" "nameIdx (git_add p c s) = nameIdx s" "channels (git_add p c s) = channels s"
  "rooms (git_add p c s) = rooms s" "tasks (git_add p c s) = tasks s" "anyWaiter (git_add p c s) = anyWaiter s"
  "store_rows (git_add p c s) = store_rows s"
  by (simp_all add: git_add_def store_rows_def)

lemma commitWrite_state [frame, simp]:
  "agents (commitWrite io w s) = agents s" "nameIdx (commitWrite io w s) = nameIdx s"
  "channels (commitWrite io w s) = channels s" "rooms (commitWrite io w s) = rooms s" "tasks (commitWrite io w s) = tasks s"
  by (simp_all add: commitWrite_def git_commit_def Let_def split: ioResult.split option.split)

lemma with_queue_rows:
  assumes "\<And>d. durable_rows (f d) = durable_rows d"
  shows "store_rows (with_queue f s) = store_rows s"
  using assms by (auto simp: store_rows_def with_queue_def option.map_comp comp_def)

lemma q_exec_rows:
  assumes "\<And>d. durable_rows (f d) = durable_rows d"
  shows "store_rows (q_exec f s) = store_rows s"
  using assms by (auto simp: store_rows_def q_exec_def option.map_comp comp_def)

lemma commitWrite_rows [frame, simp]: "store_rows (commitWrite io w s) = store_rows s"
proof -
  have rows: "durable_rows (bumpAttempts i d) = durable_rows d" "durable_rows (q_delete i d) = durable_rows d"
    "durable_rows (deadLetter r d) = durable_rows d" for i d r
    by (simp_all add: durable_rows_def bumpAttempts_def q_delete_def deadLetter_def)
  have "store_rows (fail_write w t) = store_rows t" for t
    by (simp add: fail_write_def Let_def q_exec_rows rows)
  moreover have "store_rows (t\<lparr>commits := cs, staged := st\<rparr>) = store_rows t" for t cs st by (simp add: store_rows_def)
  ultimately show ?thesis
    by (simp add: commitWrite_def git_commit_def q_exec_rows rows Let_def split: ioResult.split option.split)
qed

lemma flush_rows_state [frame, simp]:
  "agents (flush_rows io k rs s) = agents s" "nameIdx (flush_rows io k rs s) = nameIdx s"
  "channels (flush_rows io k rs s) = channels s" "rooms (flush_rows io k rs s) = rooms s"
  "tasks (flush_rows io k rs s) = tasks s" "store_rows (flush_rows io k rs s) = store_rows s"
  by (induction rs arbitrary: k s) simp_all

lemma flush_state [frame, simp]:
  "agents (flushPendingWrites io s) = agents s" "nameIdx (flushPendingWrites io s) = nameIdx s"
  "channels (flushPendingWrites io s) = channels s" "rooms (flushPendingWrites io s) = rooms s"
  "tasks (flushPendingWrites io s) = tasks s" "store_rows (flushPendingWrites io s) = store_rows s"
  by (simp_all add: flushPendingWrites_def q_exec_rows split: option.split)

lemma load_agent_state [frame, simp]:
  "channels (load_agent e m x s) = channels s" "rooms (load_agent e m x s) = rooms s"
  "tasks (load_agent e m x s) = tasks s" "queue (load_agent e m x s) = queue s" "commits (load_agent e m x s) = commits s"
  by (simp_all add: load_agent_def indexAgent_def Let_def split: prod.split content.split)

lemma load_agents_state [frame, simp]:
  "channels (load_agents e m k xs s) = channels s" "rooms (load_agents e m k xs s) = rooms s"
  "tasks (load_agents e m k xs s) = tasks s" "queue (load_agents e m k xs s) = queue s"
  by (induction xs arbitrary: k s) simp_all

lemma loadRegistry_state [frame, simp]:
  "channels (loadRegistry e m s) = channels s" "rooms (loadRegistry e m s) = rooms s"
  "tasks (loadRegistry e m s) = tasks s" "queue (loadRegistry e m s) = queue s"
  by (simp_all add: loadRegistry_def)

lemma loadTaskLists_state [frame, simp]:
  "channels (loadTaskLists s) = channels s" "rooms (loadTaskLists s) = rooms s" "agents (loadTaskLists s) = agents s"
  "nameIdx (loadTaskLists s) = nameIdx s" "queue (loadTaskLists s) = queue s" "files (loadTaskLists s) = files s"
  unfolding loadTaskLists_def
  by (rule fold_same, simp add: load_list_def Let_def split: prod.split content.split)+

lemma load_room_state [frame, simp]:
  "channels (load_room d r s) = channels s" "agents (load_room d r s) = agents s" "nameIdx (load_room d r s) = nameIdx s"
  "tasks (load_room d r s) = tasks s" "queue (load_room d r s) = queue s" "files (load_room d r s) = files s"
  by (simp_all add: load_room_def Let_def)

lemma loadRooms_state [frame, simp]:
  "channels (loadRooms s) = channels s" "agents (loadRooms s) = agents s" "nameIdx (loadRooms s) = nameIdx s"
  "tasks (loadRooms s) = tasks s" "queue (loadRooms s) = queue s" "files (loadRooms s) = files s"
  unfolding loadRooms_def
  by (cases "queue s"; simp; rule fold_same[of _ _ "load_room d" for d, THEN trans]; simp)+

lemma migrated_state [frame, simp]:
  "agents (migrated p b s) = agents s" "nameIdx (migrated p b s) = nameIdx s" "channels (migrated p b s) = channels s"
  "rooms (migrated p b s) = rooms s" "tasks (migrated p b s) = tasks s" "store_rows (migrated p b s) = store_rows s"
  unfolding migrated_def by (auto split: option.split intro!: fold_same)

lemma store_rows_cong: "queue s' = queue s \<Longrightarrow> store_rows s' = store_rows s"
  by (simp add: store_rows_def)

lemma after_crash_state [simp]:
  "channels (after_crash s) = []" "rooms (after_crash s) = []" "agents (after_crash s) = []"
  "nameIdx (after_crash s) = []" "tasks (after_crash s) = []" "store_rows (after_crash s) = store_rows s"
  by (simp_all add: after_crash_def empty_state_def store_rows_def)

section \<open>What the flush leaves in the workspace\<close>

definition reaches_disk :: "ioResult \<Rightarrow> bool" where
  \<comment> \<open>the file is written, whatever git does after\<close>
  "reaches_disk io \<longleftrightarrow> io = IOok \<or> io = AddFail \<or> io = CommitFail"

definition flushed :: "state \<Rightarrow> state" where
  \<comment> \<open>the workspace with the pending rows written, in their order\<close>
  "flushed s = s\<lparr>files := (case queue s of None \<Rightarrow> files s
     | Some d \<Rightarrow> fold (\<lambda>r. AList.update (clean (q_relPath r)) (q_content r)) (q_pending d) (files s))\<rparr>"

lemma commitWrite_files:
  "reaches_disk io \<Longrightarrow> files (commitWrite io w s) = AList.update (clean (wo_relPath w)) (wo_content w) (files s)"
proof -
  have "files (put_file p c s) = AList.update (clean p) c (files s)" for p c by (simp add: put_file_def)
  then show "reaches_disk io \<Longrightarrow> ?thesis"
    by (auto simp: reaches_disk_def commitWrite_def git_commit_def Let_def)
qed

lemma flush_rows_files:
  "(\<And>k. reaches_disk (io k)) \<Longrightarrow> files (flush_rows io k rs s) =
     fold (\<lambda>r. AList.update (clean (q_relPath r)) (q_content r)) rs (files s)"
  by (induction rs arbitrary: k s) (simp_all add: commitWrite_files row_op_def)

lemma fold_put_files:
  "files (fold (\<lambda>(p, c). put_file p c) ws s) = fold (\<lambda>(p, c). AList.update (clean p) c) ws (files s)"
  by (induction ws arbitrary: s) (auto simp: put_file_def)

lemma migrated_files: "files s' = files s \<Longrightarrow> files (migrated p b s') = files (migrated p b s)"
  by (simp add: migrated_def fold_put_files split: option.split)

lemma migrated_queue: "queue (migrated p b s) = queue s" "faults (migrated p b s) = faults s" "db_closed (migrated p b s) = db_closed s"
  unfolding migrated_def by (auto split: option.split intro!: fold_same)

lemma flush_files:
  assumes "\<And>k. reaches_disk (io k)" "\<not> q_fault (after_crash s)"
  shows "files (flushPendingWrites io (migrated p b (after_crash s))) = files (flushed (migrated p b s))"
proof -
  have "\<not> q_fault (migrated p b (after_crash s))" using assms(2) by (simp add: q_fault_def migrated_queue)
  moreover have "files (migrated p b (after_crash s)) = files (migrated p b s)" by (rule migrated_files) simp
  ultimately show ?thesis
    by (simp add: flushPendingWrites_def flushed_def migrated_queue flush_rows_files[OF assms(1)] split: option.split)
qed

section \<open>Replaying mailboxes\<close>

lemma replayMailbox_state: "agents (replayMailbox e s) = agents s" "nameIdx (replayMailbox e s) = nameIdx s"
proof -
  have "agents (replay_row e row s) = agents s" "nameIdx (replay_row e row s) = nameIdx s"
    "agents (replay_dropped x s) = agents s" "nameIdx (replay_dropped x s) = nameIdx s" for row x s
    by (auto simp: replay_row_def replay_dropped_def getOrCreateChannel_def Let_def split: option.split prod.split)
  then show "agents (replayMailbox e s) = agents s" "nameIdx (replayMailbox e s) = nameIdx s"
    by (simp_all add: replayMailbox_def fold_same[where g = agents] fold_same[where g = nameIdx] split: option.split)
qed

definition chan_box :: "state \<Rightarrow> string \<Rightarrow> string \<Rightarrow> message list" where
  "chan_box s k n = (case map_of (channels s) k of None \<Rightarrow> [] | Some c \<Rightarrow> mbox c n)"

definition chan_seq :: "state \<Rightarrow> string \<Rightarrow> int" where
  "chan_seq s k = (case map_of (channels s) k of None \<Rightarrow> 0 | Some c \<Rightarrow> c_seq c)"

definition peer_rows :: "string \<Rightarrow> string \<Rightarrow> mailboxRow list \<Rightarrow> mailboxRow list" where
  "peer_rows k n = filter (\<lambda>r. mb_kind r = ''peer'' \<and> mb_recipient r = n \<and> channelKey n (mb_target r) = k)"

lemma replay_row_chan:
  "chan_box (replay_row e row s) k n = chan_box s k n @ map (row_msg e) (peer_rows k n [row])"
  by (auto simp: replay_row_def getOrCreateChannel_def Let_def chan_box_def peer_rows_def mbox_def newChannel_def
      split: option.splits prod.splits if_splits)

lemma replay_row_seq:
  "chan_seq s k \<le> chan_seq (replay_row e row s) k"
  "peer_rows k n [row] \<noteq> [] \<Longrightarrow> mb_seq row \<le> chan_seq (replay_row e row s) k"
  by (auto simp: replay_row_def getOrCreateChannel_def Let_def chan_seq_def peer_rows_def newChannel_def
      split: option.splits prod.splits if_splits)

lemma replay_rows_chan:
  "chan_box (fold (replay_row e) rows s) k n = chan_box s k n @ map (row_msg e) (peer_rows k n rows)"
proof (induction rows arbitrary: s)
  case (Cons row rows)
  then show ?case by (simp add: replay_row_chan) (simp add: peer_rows_def)
qed (simp add: peer_rows_def)

lemma replay_rows_seq:
  "chan_seq s k \<le> chan_seq (fold (replay_row e) rows s) k
   \<and> (\<forall>r \<in> set (peer_rows k n rows). mb_seq r \<le> chan_seq (fold (replay_row e) rows s) k)"
proof (induction rows arbitrary: s)
  case Nil
  then show ?case by (simp add: peer_rows_def)
next
  case (Cons row rows)
  have "chan_seq s k \<le> chan_seq (replay_row e row s) k" by (rule replay_row_seq)
  moreover have "mb_seq row \<le> chan_seq (replay_row e row s) k" if "row \<in> set (peer_rows k n [row])"
    using that by (intro replay_row_seq(2)[of k n]) auto
  moreover have "set (peer_rows k n (row # rows)) = set (peer_rows k n [row]) \<union> set (peer_rows k n rows)"
    by (auto simp: peer_rows_def)
  moreover have "r = row" if "r \<in> set (peer_rows k n [row])" for r using that by (simp add: peer_rows_def split: if_splits)
  ultimately show ?case using Cons.IH[of "replay_row e row s"] by (auto intro: order_trans)
qed

lemma replay_dropped_channels [simp]: "channels (fold replay_dropped rs s) = channels s"
  by (rule fold_same) (simp add: replay_dropped_def split: prod.split option.split)

definition before_rooms ::
  "env \<Rightarrow> plans \<Rightarrow> bool \<Rightarrow> (nat \<Rightarrow> ioResult) \<Rightarrow> (nat \<Rightarrow> string \<times> bool) \<Rightarrow> state \<Rightarrow> state" where
  "before_rooms e plans te io mig s =
     loadTaskLists (loadRegistry e mig (flushPendingWrites io (migrated plans te (after_crash s))))"

lemma newState_phases: "newState e plans te io mig s = replayMailbox e (loadRooms (before_rooms e plans te io mig s))"
  by (simp add: newState_def before_rooms_def Let_def)

lemma before_rooms_state:
  "channels (before_rooms e plans te io mig s) = []" "rooms (before_rooms e plans te io mig s) = []"
  "store_rows (before_rooms e plans te io mig s) = store_rows s"
proof -
  let ?t = "flushPendingWrites io (migrated plans te (after_crash s))"
  have "store_rows (loadTaskLists (loadRegistry e mig ?t)) = store_rows ?t" by (rule store_rows_cong) simp
  then show "store_rows (before_rooms e plans te io mig s) = store_rows s" by (simp add: before_rooms_def)
qed (simp_all add: before_rooms_def)

lemma before_rooms_queue:
  assumes "queue s = Some d"
  obtains d1 where "queue (before_rooms e plans te io mig s) = Some d1" "d_mailbox d1 = d_mailbox d"
    "d_dropped d1 = d_dropped d" "d_rooms d1 = d_rooms d" "d_members d1 = d_members d"
  using before_rooms_state(3)[of e plans te io mig s] assms
  by (auto simp: store_rows_def durable_rows_def)

lemma newState_chan:
  assumes "queue s = Some d"
  shows "chan_box (newState e plans te io mig s) k n = map (row_msg e) (peer_rows k n (d_mailbox d))"
    "\<forall>r \<in> set (peer_rows k n (d_mailbox d)). mb_seq r \<le> chan_seq (newState e plans te io mig s) k"
proof -
  let ?b = "before_rooms e plans te io mig s"
  obtain d1 where d1: "queue ?b = Some d1" "d_mailbox d1 = d_mailbox d"
    using before_rooms_queue[OF assms] by metis
  have ch: "channels (newState e plans te io mig s) = channels (fold (replay_row e) (d_mailbox d) (loadRooms ?b))"
    by (simp add: newState_phases replayMailbox_def d1 mailboxRows_def)
  have e0: "chan_box (loadRooms ?b) k n = []" by (simp add: chan_box_def before_rooms_state)
  have "chan_box (newState e plans te io mig s) k n = chan_box (fold (replay_row e) (d_mailbox d) (loadRooms ?b)) k n"
    "chan_seq (newState e plans te io mig s) k = chan_seq (fold (replay_row e) (d_mailbox d) (loadRooms ?b)) k"
    by (simp_all add: chan_box_def chan_seq_def ch)
  with e0 replay_rows_seq[of "loadRooms ?b" k e "d_mailbox d" n]
  show "chan_box (newState e plans te io mig s) k n = map (row_msg e) (peer_rows k n (d_mailbox d))"
    "\<forall>r \<in> set (peer_rows k n (d_mailbox d)). mb_seq r \<le> chan_seq (newState e plans te io mig s) k"
    by (simp_all add: replay_rows_chan)
qed

definition entry_to_msg :: "env \<Rightarrow> entry \<Rightarrow> message" where
  "entry_to_msg e x = (case x of (n, f, ts, b) \<Rightarrow>
     \<lparr>Seq = n, From = f, TS = (case parseRFC3339 ts of None \<Rightarrow> now e | Some t \<Rightarrow> t), Body = b\<rparr>)"

lemma row_msg_entry: "row_msg e = entry_to_msg e \<circ> entry_of"
  by (simp add: fun_eq_iff row_msg_def entry_to_msg_def entry_of_def row_time_def)

definition wall_clock :: "time \<Rightarrow> bool" where
  \<comment> \<open>between 1970 and the year 10000, where RFC 3339 has a four-digit year\<close>
  "wall_clock t \<longleftrightarrow> 0 \<le> t \<and> t < 253402300800 * second"

definition restored :: "message \<Rightarrow> message" where
  "restored m = m\<lparr>TS := trunc_sec (TS m)\<rparr>"

lemma entry_msg_restored: "wall_clock (TS m) \<Longrightarrow> entry_to_msg e (entry_msg m) = restored m"
  using parse_format[of "TS m"]
  by (simp add: wall_clock_def entry_to_msg_def entry_msg_def restored_def)

definition plain_name :: "string \<Rightarrow> bool" where
  "plain_name n \<longleftrightarrow> CHR 0x00 \<notin> set n"

definition plain_rows :: "db \<Rightarrow> bool" where
  "plain_rows d \<longleftrightarrow> (\<forall>r \<in> set (d_mailbox d). plain_name (mb_recipient r) \<and> plain_name (mb_target r))"

lemma peer_rows_box:
  assumes "plain_rows d" "plain_name a" "plain_name b"
  shows "map entry_of (peer_rows (channelKey a b) a (d_mailbox d)) = box d (a, ''peer'', b)"
proof -
  have "channelKey a t = channelKey a b \<longleftrightarrow> t = b" if "plain_name t" for t
    using channelKey_canonical[of a t a b] assms(2,3) that by (auto simp: plain_name_def doubleton_eq_iff)
  then have "peer_rows (channelKey a b) a (d_mailbox d) = filter (\<lambda>r. row_key r = (a, ''peer'', b)) (d_mailbox d)"
    unfolding peer_rows_def using assms(1) by (intro filter_cong) (auto simp: row_key_def plain_rows_def)
  then show ?thesis by (simp add: box_def)
qed

section \<open>Properties\<close>

text \<open>C11: Unread peer messages survive a crash and restart: whatever was pending for a participant of a
  channel is again in its mailbox, in order, with its number, author and body, its time cut to the
  second; and the channel's counter is past every pending number.\<close>

theorem mailbox_survives_restart:
  assumes "chan_inv s" "live_store s" "queue s = Some d" "map_of (channels s) k = Some c" "is_peer c n"
    "mbox c n \<noteq> []" "plain_rows d" "plain_name (PeerA c)" "plain_name (PeerB c)"
    "\<And>m. m \<in> set (mbox c n) \<Longrightarrow> wall_clock (TS m)"
  shows "\<exists>c'. map_of (channels (newState e plans te io mig s)) k = Some c' \<and> mbox c' n = map restored (mbox c n)
    \<and> (\<forall>m \<in> set (mbox c n). Seq m \<le> c_seq c')"
proof -
  let ?t = "newState e plans te io mig s"
  have k: "k = channelKey n (other c n)"
    using assms(1,4,5) by (auto simp: chan_inv_def chan_ok_def is_peer_def other_def channelKey_sym)
  have "mirror_at s (peer_key c n) (map entry_msg (mbox c n))"
    using assms(1,2) chan_mirrorD[OF _ assms(4,5)] by (simp add: chan_inv_def)
  then have bx: "box d (n, ''peer'', other c n) = map entry_msg (mbox c n)"
    using assms(3) by (simp add: mirror_at_def qbox_def peer_key_def)
  have names: "plain_name n" "plain_name (other c n)" using assms(5,8,9) by (auto simp: is_peer_def other_def)
  have rows: "map entry_of (peer_rows k n (d_mailbox d)) = map entry_msg (mbox c n)"
    using peer_rows_box[OF assms(7) names] bx k by simp
  have cb: "chan_box ?t k n = map restored (mbox c n)"
  proof -
    have "chan_box ?t k n = map (entry_to_msg e) (map entry_of (peer_rows k n (d_mailbox d)))"
      by (simp add: newState_chan(1)[OF assms(3)] row_msg_entry)
    then show ?thesis using rows entry_msg_restored assms(10) by simp
  qed
  then obtain c' where c': "map_of (channels ?t) k = Some c'" using assms(6) by (auto simp: chan_box_def split: option.splits)
  have "mb_seq r = fst (entry_of r)" for r by (simp add: entry_of_def)
  then have "map mb_seq (peer_rows k n (d_mailbox d)) = map fst (map entry_of (peer_rows k n (d_mailbox d)))" by simp
  also have "\<dots> = map Seq (mbox c n)" by (simp add: rows entry_msg_def comp_def)
  finally have eq: "map mb_seq (peer_rows k n (d_mailbox d)) = map Seq (mbox c n)" .
  have "\<forall>x \<in> set (map mb_seq (peer_rows k n (d_mailbox d))). x \<le> c_seq c'"
    using newState_chan(2)[OF assms(3), of k n e plans te io mig] c' by (simp add: chan_seq_def)
  then have "\<forall>x \<in> set (map Seq (mbox c n)). x \<le> c_seq c'" unfolding eq .
  then show ?thesis using c' cb by (simp add: chan_box_def)
qed

lemma replay_row_keeps_absent:
  "map_of (channels s) k = None \<Longrightarrow> \<not> (mb_kind row = ''peer'' \<and> channelKey (mb_recipient row) (mb_target row) = k) \<Longrightarrow>
     map_of (channels (replay_row e row s)) k = None"
  by (auto simp: replay_row_def getOrCreateChannel_def Let_def split: option.split prod.split)

lemma replay_rows_absent:
  assumes "map_of (channels s) k = None"
    "\<And>r. r \<in> set rows \<Longrightarrow> mb_kind r = ''peer'' \<Longrightarrow> channelKey (mb_recipient r) (mb_target r) \<noteq> k"
  shows "map_of (channels (fold (replay_row e) rows s)) k = None"
  using assms
proof (induction rows arbitrary: s)
  case (Cons row rows)
  have "map_of (channels (replay_row e row s)) k = None"
    using Cons.prems by (intro replay_row_keeps_absent) auto
  then show ?case using Cons.IH Cons.prems(2) by simp
qed simp

text \<open>C40: A conversation that was read to the end is forgotten by a restart: the daemon has no channel for
  the pair, and the next message between them is numbered 1 again and goes to the file of a first
  message, over what the transcript held.\<close>

theorem read_channel_renumbered:
  assumes "queue s = Some d" "plain_rows d" "plain_name a" "plain_name b" "a \<noteq> b"
    "box d (a, ''peer'', b) = []" "box d (b, ''peer'', a) = []" "t = newState e plans te io mig s"
    "getOrCreateChannel a b t = (k, c, t1)" "tell e' k c a body t1 = (resp, t2)" "alive t" "queue t = Some d2"
  shows "map_of (channels t) (channelKey a b) = None
    \<and> resp = okResponse (JObj [(''seq'', JNum 1), (''peer'', JStr b)])
    \<and> wo_relPath (last (writes t2)) = channel_path c 1 a"
proof -
  let ?b = "before_rooms e plans te io mig s"
  obtain d1 where d1: "queue ?b = Some d1" "d_mailbox d1 = d_mailbox d" "d_dropped d1 = d_dropped d"
    using before_rooms_queue[OF assms(1)] by metis
  have "channels t = channels (fold (replay_row e) (d_mailbox d) (loadRooms ?b))"
    by (simp add: assms(8) newState_phases replayMailbox_def d1 mailboxRows_def)
  moreover have "map_of (channels (fold (replay_row e) (d_mailbox d) (loadRooms ?b))) (channelKey a b) = None"
  proof (rule replay_rows_absent)
    fix r assume r: "r \<in> set (d_mailbox d)" "mb_kind r = ''peer''"
    have "row_key r \<noteq> (a, ''peer'', b)" "row_key r \<noteq> (b, ''peer'', a)"
      using assms(6,7) r(1) by (auto simp: box_def filter_empty_conv)
    then show "channelKey (mb_recipient r) (mb_target r) \<noteq> channelKey a b"
      using channelKey_canonical[of "mb_recipient r" "mb_target r" a b] assms(2-4) r
      by (auto simp: plain_rows_def plain_name_def row_key_def doubleton_eq_iff)
  qed (simp add: before_rooms_state)
  ultimately have absent: "map_of (channels t) (channelKey a b) = None" by simp
  then have c: "c = newChannel a b" "k = channelKey a b" "t1 = put_channel k c t"
    using assms(9) by (auto simp: getOrCreateChannel_def Let_def)
  have peer: "peerOf c a = Some b" "c_seq c = 0" "c_waiter c = []"
    using assms(5) by (auto simp: c newChannel_def peerOf_def)
  have "resp = okResponse (JObj [(''seq'', JNum 1), (''peer'', JStr b)])
    \<and> writes t2 = writes (tell_written e' c a b body t1)"
    using assms(10) tell_eq[OF peer(1), of e' k body t1] peer(2,3)
    by (auto simp: Let_def split: option.splits)
  moreover have "wo_relPath (last (writes (tell_written e' c a b body t1))) = channel_path c 1 a"
    using assms(11,12) peer(2) by (simp add: tell_written_def c enqueueWrite_writes alive_def)
  ultimately show ?thesis using absent by simp
qed

section \<open>Rooms after a restart\<close>

definition blank_room :: "db \<Rightarrow> roomRecord \<Rightarrow> room" where
  "blank_room d rec = \<lparr>r_Name = rr_name rec, r_Desc = rr_desc rec, r_CreatedBy = rr_createdBy rec,
     r_CreatedAt = (case parseRFC3339 (rr_createdAt rec) of None \<Rightarrow> zero_time | Some t \<Rightarrow> t),
     r_Archived = rr_archived rec, r_seq = 0, r_log = [], r_members = remdups (roomMemberRows d (rr_name rec)),
     r_mailbox = [], r_dropped = [], r_waiter = []\<rparr>"

lemma load_room_blank:
  "load_room d rec s = put_room (rr_name rec) (fold load_message (transcripts (rr_name rec) s) (blank_room d rec)) s"
  by (simp add: load_room_def blank_room_def)

lemma load_messages_frame:
  "r_mailbox (fold load_message xs r) = r_mailbox r" "r_dropped (fold load_message xs r) = r_dropped r"
  "r_members (fold load_message xs r) = r_members r" "r_Name (fold load_message xs r) = r_Name r"
  by (rule fold_same, simp add: load_message_def split: prod.split content.split sum.split)+

lemma transcripts_load [simp]: "transcripts n (load_room d rec s) = transcripts n s"
  by (simp add: transcripts_def dir_files_def)

lemma load_rooms_at:
  assumes "\<exists>rec \<in> set recs. rr_name rec = n"
  shows "\<exists>rec \<in> set recs. rr_name rec = n \<and>
    map_of (rooms (fold (load_room d) recs s)) n = Some (fold load_message (transcripts n s) (blank_room d rec))"
  using assms
proof (induction recs rule: rev_induct)
  case (snoc rec recs)
  have tr: "transcripts m (fold (load_room d) recs s) = transcripts m s" for m
    by (rule fold_same) simp
  have last: "load_room d rec t = put_room (rr_name rec) (fold load_message (transcripts (rr_name rec) t) (blank_room d rec)) t" for t
    by (rule load_room_blank)
  show ?case
  proof (cases "rr_name rec = n")
    case True
    then show ?thesis by (auto simp: last[of "fold (load_room d) recs s"] tr)
  next
    case False
    then show ?thesis using snoc by (auto simp: last[of "fold (load_room d) recs s"])
  qed
qed simp

definition room_rows :: "string \<Rightarrow> string \<Rightarrow> mailboxRow list \<Rightarrow> mailboxRow list" where
  "room_rows n x = filter (\<lambda>r. row_key r = (x, ''room'', n))"

definition same_room :: "room \<Rightarrow> room \<Rightarrow> bool" where
  "same_room r r' \<longleftrightarrow> r_members r' = r_members r \<and> r_Name r' = r_Name r \<and> r_log r' = r_log r \<and> r_seq r \<le> r_seq r'"

lemma same_room_refl [simp]: "same_room r r" by (simp add: same_room_def)

lemma same_room_trans: "same_room r r' \<Longrightarrow> same_room r' r'' \<Longrightarrow> same_room r r''"
  by (simp add: same_room_def)

lemma replay_row_room:
  assumes "map_of (rooms s) n = Some r"
  shows "\<exists>r'. map_of (rooms (replay_row e row s)) n = Some r' \<and> same_room r r' \<and> r_dropped r' = r_dropped r
    \<and> (\<forall>x. rbox r' x = rbox r x @ map (row_room_msg e) (room_rows n x [row]))"
  using assms
  by (auto simp: replay_row_def getOrCreateChannel_def Let_def room_rows_def row_key_def rbox_def same_room_def
      split: option.split prod.split)

lemma replay_rows_room:
  assumes "map_of (rooms s) n = Some r"
  shows "\<exists>r'. map_of (rooms (fold (replay_row e) rows s)) n = Some r' \<and> same_room r r' \<and> r_dropped r' = r_dropped r
    \<and> (\<forall>x. rbox r' x = rbox r x @ map (row_room_msg e) (room_rows n x rows))"
  using assms
proof (induction rows arbitrary: s r)
  case Nil
  then show ?case by (simp add: room_rows_def)
next
  case (Cons row rows)
  obtain r1 where r1: "map_of (rooms (replay_row e row s)) n = Some r1" "same_room r r1" "r_dropped r1 = r_dropped r"
    "\<forall>x. rbox r1 x = rbox r x @ map (row_room_msg e) (room_rows n x [row])"
    using replay_row_room[OF Cons.prems] by blast
  have split: "room_rows n x (row # rows) = room_rows n x [row] @ room_rows n x rows" for x by (simp add: room_rows_def)
  from Cons.IH[OF r1(1)] r1 show ?case by (auto simp: split intro: same_room_trans)
qed

lemma replay_dropped_room:
  assumes "map_of (rooms s) n = Some r" "keys_ok rows"
  shows "\<exists>r'. map_of (rooms (fold replay_dropped rows s)) n = Some r' \<and> same_room r r' \<and> r_mailbox r' = r_mailbox r
    \<and> (\<forall>x. drops r' x = (case map_of rows (x, ''room'', n) of None \<Rightarrow> drops r x | Some v \<Rightarrow> v))"
  using assms
proof (induction rows arbitrary: s r)
  case Nil
  then show ?case by simp
next
  case (Cons row rows)
  obtain x0 kd t v where row: "row = ((x0, kd, t), v)" by (metis surj_pair)
  have fresh: "map_of rows (x0, kd, t) = None" and ok: "keys_ok rows"
    using Cons.prems(2) row by (auto simp: keys_ok_def map_of_eq_None_iff)
  have "\<exists>r1. map_of (rooms (replay_dropped row s)) n = Some r1 \<and> same_room r r1 \<and> r_mailbox r1 = r_mailbox r
    \<and> (\<forall>x. drops r1 x = (if kd = ''room'' \<and> t = n \<and> x = x0 then v else drops r x))"
    using Cons.prems(1) by (auto simp: replay_dropped_def row drops_def same_room_def split: option.split)
  then obtain r1 where r1: "map_of (rooms (replay_dropped row s)) n = Some r1" "same_room r r1" "r_mailbox r1 = r_mailbox r"
    "\<forall>x. drops r1 x = (if kd = ''room'' \<and> t = n \<and> x = x0 then v else drops r x)" by blast
  from Cons.IH[OF r1(1) ok] r1(2-4) fresh show ?case
    by (auto simp: row intro: same_room_trans split: option.split)
qed

definition restored_room :: "roomMessage \<Rightarrow> roomMessage" where
  "restored_room m = m\<lparr>rm_TS := trunc_sec (rm_TS m)\<rparr>"

lemma row_room_restored:
  assumes "map entry_of rows = map entry_room ms" "\<forall>r \<in> set rows. mb_target r = n" "\<forall>m \<in> set ms. wall_clock (rm_TS m) \<and> rm_Room m = n"
  shows "map (row_room_msg e) rows = map restored_room ms"
  using assms
proof (induction rows arbitrary: ms)
  case (Cons r rows)
  then obtain m ms' where ms: "ms = m # ms'" "entry_of r = entry_room m" "map entry_of rows = map entry_room ms'"
    by (cases ms) auto
  have "row_room_msg e r = restored_room m"
    using ms(1,2) Cons.prems(2,3) parse_format[of "rm_TS m"]
    by (auto simp: row_room_msg_def restored_room_def row_time_def entry_of_def entry_room_def wall_clock_def)
  then show ?case using Cons.IH[OF ms(3)] Cons.prems(2,3) ms(1) by simp
qed simp

text \<open>C10: Room mail survives too: a room with a row in the side store is there after a restart with the
  members on record, and the mailbox and the overflow counter of a member that were durable before
  are back in memory, times cut to the second.\<close>

theorem room_mail_survives_restart:
  assumes "rooms_inv s" "queue s = Some d" "map_of (rooms s) n = Some r" "durable_in s r x"
    "rec \<in> set (d_rooms d)" "rr_name rec = n" "keys_ok (d_dropped d)"
    "\<And>m. m \<in> set (rbox r x) \<Longrightarrow> wall_clock (rm_TS m)"
  shows "\<exists>r'. map_of (rooms (newState e plans te io mig s)) n = Some r'
    \<and> rbox r' x = map restored_room (rbox r x) \<and> drops r' x = drops r x
    \<and> set (r_members r') = set (roomMemberRows d n)"
proof -
  let ?b = "before_rooms e plans te io mig s"
  obtain d1 where d1: "queue ?b = Some d1" "d_mailbox d1 = d_mailbox d" "d_dropped d1 = d_dropped d"
      "d_rooms d1 = d_rooms d" "d_members d1 = d_members d"
    using before_rooms_queue[OF assms(2)] by metis
  have "\<exists>rec \<in> set (roomRows d1). rr_name rec = n" using assms(5,6) d1 by (auto simp: roomRows_def)
  from load_rooms_at[OF this, of d1 ?b] obtain rec1 where rec1: "rr_name rec1 = n"
      "map_of (rooms (loadRooms ?b)) n = Some (fold load_message (transcripts n ?b) (blank_room d1 rec1))"
    by (auto simp: loadRooms_def d1)
  let ?r0 = "fold load_message (transcripts n ?b) (blank_room d1 rec1)"
  have r0: "rbox ?r0 y = []" "drops ?r0 y = 0" "set (r_members ?r0) = set (roomMemberRows d n)" for y
    using d1 rec1(1) by (simp_all add: rbox_def drops_def load_messages_frame blank_room_def roomMemberRows_def)
  obtain r1 where r1: "map_of (rooms (fold (replay_row e) (d_mailbox d) (loadRooms ?b))) n = Some r1" "same_room ?r0 r1"
      "r_dropped r1 = r_dropped ?r0" "\<forall>x. rbox r1 x = rbox ?r0 x @ map (row_room_msg e) (room_rows n x (d_mailbox d))"
    using replay_rows_room[OF rec1(2)] by blast
  obtain r2 where r2: "map_of (rooms (newState e plans te io mig s)) n = Some r2" "same_room r1 r2" "r_mailbox r2 = r_mailbox r1"
      "\<forall>x. drops r2 x = (case map_of (d_dropped d) (x, ''room'', n) of None \<Rightarrow> drops r1 x | Some v \<Rightarrow> v)"
    using replay_dropped_room[OF r1(1) assms(7)]
    by (auto simp: newState_phases replayMailbox_def d1 mailboxRows_def mailboxDropped_def)
  have ok: "r_Name r = n" "\<forall>m \<in> set (rbox r x). rm_Room m = n"
    using rooms_invD[OF assms(1,3)] by (auto simp: room_ok_def rbox_ok_def)
  have dur: "box d (x, ''room'', n) = map entry_room (rbox r x)" "get_or 0 (d_dropped d) (x, ''room'', n) = drops r x"
    using assms(2,4) ok(1) by (auto simp: durable_in_def room_durable_def room_key_def drop_count_def)
  have "map (row_room_msg e) (room_rows n x (d_mailbox d)) = map restored_room (rbox r x)"
  proof (rule row_room_restored)
    show "map entry_of (room_rows n x (d_mailbox d)) = map entry_room (rbox r x)"
      using dur(1) by (simp add: room_rows_def box_def)
    show "\<forall>r \<in> set (room_rows n x (d_mailbox d)). mb_target r = n" by (simp add: room_rows_def row_key_def)
    show "\<forall>m \<in> set (rbox r x). wall_clock (rm_TS m) \<and> rm_Room m = n" using ok(2) assms(8) by blast
  qed
  then have "rbox r2 x = map restored_room (rbox r x)" using r1(4) r2(3) r0(1) by (simp add: rbox_def)
  moreover have "drops r1 x = 0" using r1(3) r0(2) by (simp add: drops_def)
  then have "drops r2 x = drops r x" using r2(4) dur(2) by (simp add: get_or_def split: option.splits)
  moreover have "set (r_members r2) = set (roomMemberRows d n)" using r1(2) r2(2) r0(3) by (simp add: same_room_def)
  ultimately show ?thesis using r2(1) by blast
qed

section \<open>The log of a room\<close>

definition msg_base :: "roomMessage \<Rightarrow> string" where
  "msg_base m = pad06 (rm_Seq m) @ ''-'' @ safePathSegment (rm_From m) @ ''.md''"

definition reloaded :: "roomMessage \<Rightarrow> roomMessage" where
  "reloaded m = m\<lparr>rm_TS := trunc_sec (rm_TS m), rm_Body := trimRight (rm_Body m) nl\<rparr>"

definition single_line :: "string \<Rightarrow> bool" where
  "single_line x \<longleftrightarrow> x \<noteq> [] \<and> nl \<notin> set x"

definition storable :: "roomMessage \<Rightarrow> bool" where
  \<comment> \<open>what posts look like: numbered, with an author and a room on one line each\<close>
  "storable m \<longleftrightarrow> 0 < rm_Seq m \<and> rm_Seq m < 1000000 \<and> single_line (rm_From m) \<and> single_line (rm_Room m)
     \<and> wall_clock (rm_TS m)"

definition log_on_disk :: "string \<Rightarrow> roomMessage list \<Rightarrow> state \<Rightarrow> bool" where
  \<comment> \<open>the message files of the room are exactly those of the log\<close>
  "log_on_disk n log s \<longleftrightarrow> distinct (map fst (files s)) \<and>
     {(p, c). (p, c) \<in> set (files s) \<and> pathDir p = pathJoin [''rooms'', n] \<and> hasSuffix (pathBase p) ''.md''
        \<and> pathBase p \<noteq> ''ROOM.md'' \<and> pathBase p \<noteq> ''MEMBERS.md''}
     = (\<lambda>m. (room_msg_path n (rm_Seq m) (rm_From m), Text (renderRoomMsg m))) ` set log"

lemma append_less_iff: "(p @ x :: string) < p @ y \<longleftrightarrow> x < y"
  by (induction p) auto

lemma path_base: "room_msg_path n (rm_Seq m) (rm_From m) = ''rooms/'' @ n @ slash # msg_base m"
  by (simp add: room_msg_path_def msg_base_def)

lemma safe_no_slash: "slash \<notin> set (safePathSegment x)"
  by (auto simp: safePathSegment_def)

lemma base_no_slash: "0 < rm_Seq m \<Longrightarrow> slash \<notin> set (msg_base m)"
  using safe_no_slash[of "rm_From m"] itoaN_no_char[of slash "nat (rm_Seq m)"]
  by (auto simp: msg_base_def pad06_def padLeft_def isDigit_def)

lemma pathBase_msg: "0 < rm_Seq m \<Longrightarrow> pathBase (room_msg_path n (rm_Seq m) (rm_From m)) = msg_base m"
  using pathBase_joined[OF base_no_slash, of m "''rooms/'' @ n"] by (simp add: path_base msg_base_def)

lemma base_order:
  assumes "storable m" "storable m'" "rm_Seq m < rm_Seq m'"
  shows "msg_base m < msg_base m'"
proof -
  have "room_msg_path [] (rm_Seq m) (rm_From m) < room_msg_path [] (rm_Seq m') (rm_From m')"
    using assms by (intro paths_in_order) (auto simp: storable_def)
  then show ?thesis using append_less_iff[of "''rooms/'' @ [] @ [slash]"] by (simp add: path_base)
qed

lemma strict_sorted_unique:
  assumes "sorted (map fst xs)" "distinct (map fst xs)" "sorted_wrt (<) (map fst ys)" "set xs = set ys"
  shows "xs = (ys :: (string \<times> 'c) list)"
proof -
  have inj: "inj_on fst (set xs)" using assms(2) by (simp add: distinct_map)
  have "sorted_wrt (<) (map fst xs)" using assms(1,2) by (simp add: strict_sorted_iff)
  then have "map fst xs = map fst ys"
    using assms(3,4) strict_sorted_equal[of "map fst xs" "map fst ys"] by simp
  then show ?thesis using inj assms(4) map_inj_on[of fst xs ys] by simp
qed

lemma transcripts_are_log:
  assumes "log_on_disk n log s" "\<forall>m \<in> set log. storable m" "sorted_wrt (<) (map rm_Seq log)"
  shows "transcripts n s = map (\<lambda>m. (msg_base m, Text (renderRoomMsg m))) log"
proof (rule strict_sorted_unique)
  let ?ys = "map (\<lambda>m. (msg_base m, Text (renderRoomMsg m))) log"
  let ?P = "\<lambda>(n, c :: content). hasSuffix n ''.md'' \<and> n \<noteq> ''ROOM.md'' \<and> n \<noteq> ''MEMBERS.md''"
  let ?D = "filter (\<lambda>(p, c). pathDir p = pathJoin [''rooms'', n]) (files s)"
  let ?F = "filter (\<lambda>(p, c). ?P (pathBase p, c)) ?D"
  show ys: "sorted_wrt (<) (map fst ?ys)"
    using assms(2,3)
  proof (induction log)
    case (Cons m log)
    then show ?case by (auto intro: base_order)
  qed simp
  have F: "set ?F = (\<lambda>m. (room_msg_path n (rm_Seq m) (rm_From m), Text (renderRoomMsg m))) ` set log"
    using assms(1) by (auto simp: log_on_disk_def)
  have "set (transcripts n s) = (\<lambda>(p, c). (pathBase p, c)) ` set ?F"
    by (force simp: transcripts_def dir_files_def)
  also have "\<dots> = set ?ys"
    unfolding F using assms(2) by (force simp: image_image pathBase_msg storable_def)
  finally show set: "set (transcripts n s) = set ?ys" .
  show "sorted (map fst (transcripts n s))"
    by (simp add: transcripts_def dir_files_def sorted_filter)
  show "distinct (map fst (transcripts n s))"
  proof -
    let ?G = "map (\<lambda>(p, c). (pathBase p, c)) ?F"
    have tr: "transcripts n s = sort_key fst ?G"
      by (simp add: transcripts_def dir_files_def filter_sort filter_map comp_def case_prod_unfold)
    have "distinct (files s)" using assms(1) by (simp add: log_on_disk_def distinct_map)
    then have "distinct ?F" by simp
    moreover have "inj_on (pathBase \<circ> fst) (set ?F)"
    proof -
      have inj: "m = m'" if "m \<in> set log" "m' \<in> set log" "msg_base m = msg_base m'" for m m'
      proof (rule ccontr)
        assume ne: "m \<noteq> m'"
        have "inj_on rm_Seq (set log)" using assms(3) by (simp add: strict_sorted_iff distinct_map)
        with ne that(1,2) have "rm_Seq m \<noteq> rm_Seq m'" by (auto simp: inj_on_def)
        then have "rm_Seq m < rm_Seq m' \<or> rm_Seq m' < rm_Seq m" by linarith
        then have "msg_base m < msg_base m' \<or> msg_base m' < msg_base m" using that assms(2) base_order by blast
        then show False using that(3) by simp
      qed
      have pos: "0 < rm_Seq m" if "m \<in> set log" for m using assms(2) that by (simp add: storable_def)
      show ?thesis
        unfolding F by (rule inj_onI) (auto simp: pathBase_msg pos dest: inj)
    qed
    ultimately have "distinct (map (pathBase \<circ> fst) ?F)" by (simp add: distinct_map)
    moreover have "map fst ?G = map (pathBase \<circ> fst) ?F"
      unfolding map_map by (rule map_cong[OF refl]) auto
    ultimately have "distinct (map fst ?G)" by (simp only:)
    then have "distinct ?G \<and> inj_on fst (set ?G)" by (simp only: distinct_map)
    then show ?thesis unfolding tr by (simp only: distinct_map distinct_sort set_sort)
  qed
qed

lemma load_storable:
  assumes "storable m"
  shows "load_message (x, Text (renderRoomMsg m)) r =
    r\<lparr>r_log := r_log r @ [reloaded m], r_seq := (if r_seq r < rm_Seq m then rm_Seq m else r_seq r)\<rparr>"
  using assms rendered_parses[of m]
  by (simp add: load_message_def storable_def single_line_def wall_clock_def reloaded_def int64_max_def)

lemma load_log:
  assumes "\<forall>m \<in> set log. storable m" "sorted_wrt (<) (r_seq r # map rm_Seq log)"
  shows "r_log (fold load_message (map (\<lambda>m. (msg_base m, Text (renderRoomMsg m))) log) r) = r_log r @ map reloaded log
    \<and> r_seq (fold load_message (map (\<lambda>m. (msg_base m, Text (renderRoomMsg m))) log) r) =
        (if log = [] then r_seq r else rm_Seq (last log))"
  using assms
proof (induction log arbitrary: r)
  case (Cons m log)
  let ?r = "load_message (msg_base m, Text (renderRoomMsg m)) r"
  have r: "r_log ?r = r_log r @ [reloaded m]" "r_seq ?r = rm_Seq m" using load_storable[of m] Cons.prems by simp_all
  have "sorted_wrt (<) (r_seq ?r # map rm_Seq log)" using Cons.prems(2) r(2) by simp
  from Cons.IH[OF _ this] Cons.prems(1) r show ?case by simp
qed simp

definition last_seq :: "roomMessage list \<Rightarrow> int" where
  "last_seq log = (if log = [] then 0 else rm_Seq (last log))"

lemma replay_rows_seq_kept:
  assumes "map_of (rooms s) n = Some r" "\<forall>row \<in> set rows. mb_kind row = ''room'' \<and> mb_target row = n \<longrightarrow> mb_seq row \<le> r_seq r"
  shows "\<exists>r'. map_of (rooms (fold (replay_row e) rows s)) n = Some r' \<and> r_seq r' = r_seq r \<and> r_log r' = r_log r"
  using assms
proof (induction rows arbitrary: s r)
  case (Cons row rows)
  have "\<exists>r1. map_of (rooms (replay_row e row s)) n = Some r1 \<and> r_seq r1 = r_seq r \<and> r_log r1 = r_log r"
    using Cons.prems by (auto simp: replay_row_def getOrCreateChannel_def Let_def split: option.split prod.split)
  then obtain r1 where "map_of (rooms (replay_row e row s)) n = Some r1" "r_seq r1 = r_seq r" "r_log r1 = r_log r" by blast
  with Cons.IH[of "replay_row e row s" r1] Cons.prems(2) show ?case by simp
qed simp

lemma replay_dropped_seq:
  assumes "map_of (rooms s) n = Some r"
  shows "\<exists>r'. map_of (rooms (fold replay_dropped rows s)) n = Some r' \<and> r_seq r' = r_seq r \<and> r_log r' = r_log r"
  using assms
proof (induction rows arbitrary: s r)
  case (Cons row rows)
  have "\<exists>r1. map_of (rooms (replay_dropped row s)) n = Some r1 \<and> r_seq r1 = r_seq r \<and> r_log r1 = r_log r"
    using Cons.prems by (auto simp: replay_dropped_def split: option.split prod.split)
  then obtain r1 where "map_of (rooms (replay_dropped row s)) n = Some r1" "r_seq r1 = r_seq r" "r_log r1 = r_log r" by blast
  with Cons.IH[of "replay_dropped row s" r1] show ?case by simp
qed simp

text \<open>Loading the registry touches no transcript.\<close>

lemma json_ext: "pathExt (i @ ''.json'') = ''.json''"
  by (simp add: pathExt_def Let_def)

lemma ext_not_md: "pathExt x = ''.json'' \<Longrightarrow> \<not> hasSuffix x ''.md''"
proof
  assume x: "pathExt x = ''.json''" "hasSuffix x ''.md''"
  then obtain y where "x = y @ ''.md''" by (auto simp: hasSuffix_iff)
  then show False using x(1) by (simp add: pathExt_def Let_def)
qed

lemma registry_path_base:
  assumes "slash \<notin> set x" "pathExt x = ''.json''"
  shows "\<not> hasSuffix (pathBase (pathJoin [''registry'', x])) ''.md''"
proof -
  have "x \<noteq> []" "x \<noteq> ''.''" "x \<noteq> ''..''" using assms(2) by (auto simp: pathExt_def)
  then have "plain_elem x" using assms(1) by (simp add: plain_elem_def)
  then have "pathJoin [''registry'', x] = ''registry'' @ slash # x" by (simp add: pathJoin_plain plain_elem_def)
  then show ?thesis using pathBase_joined[OF assms(1) \<open>x \<noteq> []\<close>, of "''registry''"] ext_not_md[OF assms(2)] by simp
qed

lemma split_parts: "x \<in> set (splitOn c p) \<Longrightarrow> c \<notin> set x"
  by (induction p arbitrary: x) (auto split: list.splits if_splits)

lemma base_slash: "pathBase p = [slash] \<or> slash \<notin> set (pathBase p)"
proof -
  have "slash \<notin> set (last (splitOn slash q))" for q
    by (rule split_parts[OF last_in_set]) simp
  then show ?thesis by (simp add: pathBase_def Let_def)
qed

definition is_transcript :: "string \<Rightarrow> string \<Rightarrow> bool" where
  "is_transcript n p \<longleftrightarrow> pathDir p = pathJoin [''rooms'', n] \<and> hasSuffix (pathBase p) ''.md''
     \<and> pathBase p \<noteq> ''ROOM.md'' \<and> pathBase p \<noteq> ''MEMBERS.md''"

lemma transcripts_filter:
  "transcripts n s = sort_key fst (map (\<lambda>(p, c). (pathBase p, c)) (filter (\<lambda>x. is_transcript n (fst x)) (files s)))"
proof -
  have f: "filter (\<lambda>x. is_transcript n (fst x)) xs =
      filter (\<lambda>x. hasSuffix (pathBase (fst x)) ''.md'' \<and> pathBase (fst x) \<noteq> ''ROOM.md'' \<and> pathBase (fst x) \<noteq> ''MEMBERS.md'')
        (filter (\<lambda>x. pathDir (fst x) = pathJoin [''rooms'', n]) xs)" for xs :: "(string \<times> content) list"
    by (auto simp: is_transcript_def intro: filter_cong)
  show ?thesis
    unfolding transcripts_def dir_files_def f by (simp add: filter_sort filter_map comp_def case_prod_unfold del: filter_filter)
qed

lemma untouched_transcripts:
  assumes "\<not> is_transcript n q"
  shows "filter (\<lambda>x. is_transcript n (fst x)) (AList.delete q xs) = filter (\<lambda>x. is_transcript n (fst x)) xs"
    "filter (\<lambda>x. is_transcript n (fst x)) (AList.update q c xs) = filter (\<lambda>x. is_transcript n (fst x)) xs"
  using assms by (induction xs) auto

lemma load_agent_transcripts:
  assumes "slash \<notin> set (fst m)" "slash \<notin> set name \<or> name = [slash]"
  shows "transcripts n (load_agent e m (name, c) s) = transcripts n s"
proof -
  have q: "\<not> is_transcript n (pathJoin [''registry'', x])" if "slash \<notin> set x" "pathExt x = ''.json''" for x
    using registry_path_base[OF that] by (simp add: is_transcript_def)
  have m: "\<not> is_transcript n (pathJoin [''registry'', fst m @ ''.json''])" using assms(1) by (intro q) (auto simp: json_ext)
  have ext: "pathExt [slash] \<noteq> ''.json''" by (simp add: pathExt_def)
  show ?thesis
  proof (cases "pathExt name = ''.json''")
    case False
    then show ?thesis by (simp add: load_agent_def)
  next
    case True
    then have "\<not> is_transcript n (pathJoin [''registry'', name])" using assms(2) ext by (intro q) auto
    then show ?thesis using m
      by (auto simp: load_agent_def transcripts_filter untouched_transcripts indexAgent_def Let_def split: content.split)
  qed
qed

lemma loadRegistry_transcripts:
  assumes "\<And>k. slash \<notin> set (fst (mig k))"
  shows "transcripts n (loadRegistry e mig s) = transcripts n s"
proof -
  have "transcripts n (load_agents e mig k xs t) = transcripts n t"
    if "\<forall>x \<in> set xs. slash \<notin> set (fst x) \<or> fst x = [slash]" for k xs t
    using that by (induction xs arbitrary: k t) (auto simp: load_agent_transcripts assms)
  moreover have "\<forall>x \<in> set (dir_files ''registry'' s). slash \<notin> set (fst x) \<or> fst x = [slash]"
    using base_slash by (auto simp: dir_files_def)
  ultimately show ?thesis by (simp add: loadRegistry_def)
qed

text \<open>The transcript files are the log: a room whose message files, once the pending writes are written
  out, are exactly those its posts wrote has after a restart the same log, in posting order (bodies without
  trailing newlines, times cut to the second), and the same counter, provided no mailbox holds a
  later number; the next post that is accepted gets the next number.\<close>

theorem room_log_reloads:
  assumes "queue s = Some d" "rec \<in> set (d_rooms d)" "rr_name rec = n"
    "\<not> q_fault (after_crash s)" "\<And>k. reaches_disk (io k)" "\<And>k. slash \<notin> set (fst (mig k))" "log_on_disk n log (flushed (migrated plans te s))"
    "\<forall>m \<in> set log. storable m" "sorted_wrt (<) (map rm_Seq log)"
    "\<forall>row \<in> set (d_mailbox d). mb_kind row = ''room'' \<and> mb_target row = n \<longrightarrow> mb_seq row \<le> last_seq log"
    "t = newState e plans te io mig s"
  shows "(\<exists>r'. map_of (rooms t) n = Some r' \<and> r_log r' = map reloaded log \<and> r_seq r' = last_seq log)
    \<and> (strVal (Args req) ''room'' = n \<and> OK (fst (opPost e' req t)) \<longrightarrow>
        fst (opPost e' req t) = okResponse (JObj [(''room'', JStr n), (''seq'', JNum (last_seq log + 1))]))"
proof -
  let ?b = "before_rooms e plans te io mig s"
  obtain d1 where d1: "queue ?b = Some d1" "d_mailbox d1 = d_mailbox d" "d_rooms d1 = d_rooms d"
    using before_rooms_queue[OF assms(1)] by metis
  have tr: "transcripts n ?b = transcripts n (flushed (migrated plans te s))"
  proof -
    have "transcripts n ?b = transcripts n (flushPendingWrites io (migrated plans te (after_crash s)))"
      using loadRegistry_transcripts[OF assms(6)] by (simp add: before_rooms_def transcripts_filter)
    then show ?thesis using flush_files[OF assms(5,4)] by (simp add: transcripts_filter)
  qed
  have "\<exists>rec \<in> set (roomRows d1). rr_name rec = n" using assms(2,3) d1 by (auto simp: roomRows_def)
  from load_rooms_at[OF this, of d1 ?b] obtain rec1 where rec1:
      "map_of (rooms (loadRooms ?b)) n = Some (fold load_message (transcripts n ?b) (blank_room d1 rec1))"
    by (auto simp: loadRooms_def d1)
  let ?r0 = "fold load_message (transcripts n ?b) (blank_room d1 rec1)"
  have "sorted_wrt (<) (r_seq (blank_room d1 rec1) # map rm_Seq log)"
    using assms(8,9) by (auto simp: blank_room_def storable_def)
  then have r0: "r_log ?r0 = map reloaded log" "r_seq ?r0 = last_seq log"
    using load_log[OF assms(8), of "blank_room d1 rec1"] transcripts_are_log[OF assms(7-9)]
    by (simp_all add: tr blank_room_def last_seq_def)
  obtain r1 where r1: "map_of (rooms (fold (replay_row e) (d_mailbox d) (loadRooms ?b))) n = Some r1"
      "r_seq r1 = last_seq log" "r_log r1 = map reloaded log"
    using replay_rows_seq_kept[OF rec1, of "d_mailbox d" e] assms(10) r0 by auto
  obtain r2 where r2: "map_of (rooms t) n = Some r2" "r_seq r2 = last_seq log" "r_log r2 = map reloaded log"
    using replay_dropped_seq[OF r1(1), of "d_dropped d1"] r1(2,3)
    by (auto simp: assms(11) newState_phases replayMailbox_def d1 mailboxRows_def mailboxDropped_def)
  moreover have "fst (opPost e' req t) = okResponse (JObj [(''room'', JStr n), (''seq'', JNum (r_seq r2 + 1))])"
    if "strVal (Args req) ''room'' = n" "OK (fst (opPost e' req t))"
    using that r2(1) by (auto simp: opPost_def from_room_required_def posted_def Let_def case_prod_unfold split: if_splits option.splits)
  ultimately show ?thesis by auto
qed

section \<open>The registry after a restart\<close>

definition id_ok :: "string \<Rightarrow> bool" where
  "id_ok i \<longleftrightarrow> i \<noteq> [] \<and> slash \<notin> set i"

definition registry_on_disk :: "state \<Rightarrow> bool" where
  \<comment> \<open>the files of the registry directory are the records of the agents in memory\<close>
  "registry_on_disk s \<longleftrightarrow> distinct (map fst (files s))
     \<and> (\<forall>i a. map_of (agents s) i = Some a \<longrightarrow> id_ok i \<and> ag_Name a \<noteq> [])
     \<and> {(p, c). (p, c) \<in> set (files s) \<and> pathDir p = ''registry''}
        = (\<lambda>(i, a). (agent_path i, AgentFile a)) ` set (agents s)"

definition agent_entry :: "agent \<Rightarrow> string \<times> content" where
  "agent_entry a = (ag_AgentID a @ ''.json'', AgentFile a)"

lemma load_agent_entry:
  assumes "ag_Name a \<noteq> []" "ag_AgentID a \<noteq> []"
  shows "load_agent e m (agent_entry a) s = (if stale e a
    then s\<lparr>files := AList.delete (pathJoin [''registry'', ag_AgentID a @ ''.json'']) (files s)\<rparr> else indexAgent a s)"
  using assms by (simp add: load_agent_def agent_entry_def json_ext Let_def)

lemma indexAgent_byName:
  "agentByName (indexAgent a s) n = (if n = ag_Name a then Some a
     else case map_of (nameIdx s) n of None \<Rightarrow> None | Some i \<Rightarrow> if i = ag_AgentID a then Some a else map_of (agents s) i)"
  by (simp add: agentByName_def indexAgent_def split: option.split)

lemma load_agents_effect:
  assumes "wf_registry s" "distinct (map ag_AgentID as)" "distinct (map ag_Name as)"
    "\<forall>a \<in> set as. ag_Name a \<noteq> [] \<and> ag_AgentID a \<noteq> [] \<and> map_of (agents s) (ag_AgentID a) = None \<and> agentByName s (ag_Name a) = None"
  shows "wf_registry (load_agents e mig k (map agent_entry as) s)
    \<and> (\<forall>i. map_of (agents (load_agents e mig k (map agent_entry as) s)) i =
        (case find (\<lambda>a. ag_AgentID a = i) as of None \<Rightarrow> map_of (agents s) i
           | Some a \<Rightarrow> if stale e a then None else Some a))"
  using assms
proof (induction as arbitrary: s k)
  case (Cons a as)
  have a: "ag_Name a \<noteq> []" "ag_AgentID a \<noteq> []" "map_of (agents s) (ag_AgentID a) = None" "agentByName s (ag_Name a) = None"
    using Cons.prems(4) by auto
  have gone: "find (\<lambda>b. ag_AgentID b = ag_AgentID a) as = None"
    using Cons.prems(2) by (auto simp: find_None_iff image_iff)
  show ?case
  proof (cases "stale e a")
    case True
    let ?s = "s\<lparr>files := AList.delete (pathJoin [''registry'', ag_AgentID a @ ''.json'']) (files s)\<rparr>"
    have "wf_registry ?s" using Cons.prems(1) wf_registry_cong[of ?s s] by simp
    moreover have "agentByName ?s = agentByName s" by (simp add: agentByName_def fun_eq_iff split: option.split)
    ultimately have IH: "wf_registry (load_agents e mig (Suc k) (map agent_entry as) ?s)
      \<and> (\<forall>i. map_of (agents (load_agents e mig (Suc k) (map agent_entry as) ?s)) i =
        (case find (\<lambda>a. ag_AgentID a = i) as of None \<Rightarrow> map_of (agents ?s) i
           | Some a \<Rightarrow> if stale e a then None else Some a))"
      using Cons.prems(2-4) by (intro Cons.IH) auto
    have ag: "agents ?s = agents s" by simp
    show ?thesis using IH[unfolded ag] True a gone by (auto simp: load_agent_entry)
  next
    case False
    have "wf_registry (indexAgent a s)" using a by (intro wf_indexAgent[OF Cons.prems(1)]) simp
    moreover have "\<forall>b \<in> set as. map_of (agents (indexAgent a s)) (ag_AgentID b) = None \<and> agentByName (indexAgent a s) (ag_Name b) = None"
    proof
      fix b assume b: "b \<in> set as"
      then have ne: "ag_AgentID b \<noteq> ag_AgentID a" "ag_Name b \<noteq> ag_Name a" using Cons.prems(2,3) by (auto simp: image_iff)
      have "map_of (nameIdx s) (ag_Name b) = Some i \<Longrightarrow> False" for i
        using Cons.prems(4) b wf_registryD(5)[OF Cons.prems(1)] by (fastforce simp: agentByName_def)
      then show "map_of (agents (indexAgent a s)) (ag_AgentID b) = None \<and> agentByName (indexAgent a s) (ag_Name b) = None"
        using ne Cons.prems(4) b by (auto simp: indexAgent_byName split: option.split) (simp add: indexAgent_def)
    qed
    ultimately have IH: "wf_registry (load_agents e mig (Suc k) (map agent_entry as) (indexAgent a s))
      \<and> (\<forall>i. map_of (agents (load_agents e mig (Suc k) (map agent_entry as) (indexAgent a s))) i =
        (case find (\<lambda>a. ag_AgentID a = i) as of None \<Rightarrow> map_of (agents (indexAgent a s)) i
           | Some a \<Rightarrow> if stale e a then None else Some a))"
      using Cons.prems(2-4) by (intro Cons.IH) auto
    then show ?thesis using False a gone by (auto simp: load_agent_entry) (auto simp: indexAgent_def split: option.split)
  qed
qed simp

lemma agent_file_base: "id_ok i \<Longrightarrow> pathBase (agent_path i) = i @ ''.json''"
proof -
  assume i: "id_ok i"
  then have "plain_elem (i @ ''.json'')" by (intro plain_suffixed) (auto simp: id_ok_def)
  then have p: "agent_path i = ''registry/'' @ i @ ''.json''"
    by (simp add: agent_path_def pathJoin_plain plain_elem_def)
  show "pathBase (agent_path i) = i @ ''.json''"
    using pathBase_joined[of "i @ ''.json''" "''registry''"] i by (simp add: p id_ok_def)
qed

lemma on_disk_ids:
  assumes "wf_registry s" "registry_on_disk s" "map_of (agents s) i = Some a"
  shows "ag_AgentID a = i \<and> id_ok i \<and> ag_Name a \<noteq> []"
  using assms(2,3) wf_registryD(3)[OF assms(1)] unfolding registry_on_disk_def by blast

lemma on_disk_entries:
  assumes "wf_registry s" "registry_on_disk s"
  shows "set (dir_files ''registry'' s) = agent_entry ` snd ` set (agents s)" "distinct (dir_files ''registry'' s)"
proof -
  let ?D = "filter (\<lambda>(p, c). pathDir p = ''registry'') (files s)"
  have ids: "ag_AgentID a = i \<and> id_ok i" if "(i, a) \<in> set (agents s)" for i a
    using mem_map_of[OF wf_registryD(1)[OF assms(1)] that] on_disk_ids[OF assms] by blast
  have D: "set ?D = (\<lambda>(i, a). (agent_path i, AgentFile a)) ` set (agents s)"
    using assms(2) by (auto simp: registry_on_disk_def)
  have "set (dir_files ''registry'' s) = (\<lambda>(p, c). (pathBase p, c)) ` set ?D" by (simp add: dir_files_def)
  also have "\<dots> = (\<lambda>(i, a). agent_entry a) ` set (agents s)"
    unfolding D using ids by (force simp: image_image agent_file_base agent_entry_def)
  finally show "set (dir_files ''registry'' s) = agent_entry ` snd ` set (agents s)" by (simp add: image_image case_prod_beta)
  have "distinct ?D" using assms(2) by (auto simp: registry_on_disk_def distinct_map)
  moreover have "inj_on (\<lambda>(p, c). (pathBase p, c)) (set ?D)"
    unfolding D using ids by (fastforce simp: inj_on_def agent_file_base)
  ultimately show "distinct (dir_files ''registry'' s)" by (simp add: dir_files_def distinct_map)
qed

text \<open>So the directory lists the agents, each once, and identifiers and names tell them apart.\<close>

lemma on_disk_agents:
  assumes "wf_registry s" "registry_on_disk s"
  obtains as where "dir_files ''registry'' s = map agent_entry as" "set as = snd ` set (agents s)"
    "distinct (map ag_AgentID as)" "distinct (map ag_Name as)"
proof -
  note E = on_disk_entries[OF assms]
  define as where "as = map (\<lambda>x. case snd x of AgentFile a \<Rightarrow> a | _ \<Rightarrow> empty_agent) (dir_files ''registry'' s)"
  have xs: "dir_files ''registry'' s = map agent_entry as"
    unfolding as_def map_map by (rule map_idI[symmetric]) (auto simp: E(1) agent_entry_def)
  have "agent_entry ` set as = agent_entry ` snd ` set (agents s)" using E(1) by (simp add: xs)
  then have as: "set as = snd ` set (agents s)" by (simp add: inj_image_eq_iff inj_def agent_entry_def)
  have at: "map_of (agents s) (ag_AgentID a) = Some a" if "a \<in> set as" for a
    using that mem_map_of[OF wf_registryD(1)[OF assms(1)]] on_disk_ids[OF assms] unfolding as by fastforce
  then have "inj_on ag_AgentID (set as)" by (intro inj_onI) (metis option.inject)
  moreover have "inj_on ag_Name (set as)"
  proof (rule inj_onI)
    fix a b assume ab: "a \<in> set as" "b \<in> set as" "ag_Name a = ag_Name b"
    then have "ag_AgentID a = ag_AgentID b"
      using wf_registryD(4)[OF assms(1) at[OF ab(1)]] wf_registryD(4)[OF assms(1) at[OF ab(2)]] by (metis option.inject)
    then show "a = b" using at[OF ab(1)] at[OF ab(2)] by (metis option.inject)
  qed
  moreover have "distinct as" using E(2)[unfolded xs] by (simp only: distinct_map)
  ultimately show thesis using that[OF xs as] by (simp add: distinct_map)
qed

lemma find_map_of:
  assumes "distinct (map key xs)" "\<And>i x. map_of m i = Some x \<longleftrightarrow> x \<in> set xs \<and> key x = i"
  shows "find (\<lambda>x. key x = i) xs = map_of m i"
proof (cases "map_of m i")
  case None
  then show ?thesis using assms(2)[of i] by (auto simp: find_None_iff)
next
  case (Some x)
  then have x: "x \<in> set xs" "key x = i" using assms(2) by auto
  then obtain y where y: "find (\<lambda>x. key x = i) xs = Some y" by (cases "find (\<lambda>x. key x = i) xs") (auto simp: find_None_iff)
  then have "y \<in> set xs" "key y = i" by (auto simp: find_Some_iff)
  then show ?thesis using x y Some assms(1) by (auto simp: distinct_map dest: inj_onD)
qed


end
