(* ===== verification/Daemon.thy ===== *)
theory Daemon
  imports Recovery
begin

text \<open>
  The daemon as a whole: \<^verbatim>\<open>dispatch\<close> with its authentication gate
  (\<^verbatim>\<open>state.go\<close>), the stop request, the sweeper's tick, blocked reads that resume,
  and the writer, put together as a machine whose events are what the goroutines do while they
  hold their locks.
\<close>

section \<open>Dispatch\<close>

definition unauthenticated_ops :: "string list" where
  "unauthenticated_ops = [''register'', ''stop'', ''agents'', ''resolve'']"

definition auth_gate :: "env \<Rightarrow> request \<Rightarrow> state \<Rightarrow> response option" where
  \<comment> \<open>the refusal of a request that carries \<^verbatim>\<open>from\<close> and is not signed by that agent\<close>
  "auth_gate e req s =
     (let from = strVal (Args req) ''from''
      in if Op req \<in> set unauthenticated_ops \<or> from = [] then None
         else case agentByName s from of
           None \<Rightarrow> Some (unauthorized ''not_registered'' ''run lalia register for this identity''
                     (''not registered: '' @ from) [(''from'', JStr from)])
         | Some a \<Rightarrow>
             if ag_Pubkey a = [] then
               Some (unauthorized ''missing_pubkey'' ''run lalia register to generate a keypair''
                 (''agent '' @ from @ '' has no pubkey on file; re-register to acquire one'') [(''from'', JStr from)])
             else case verifyRequest e (ag_Pubkey a) (Args req) of
               Some err \<Rightarrow> Some (unauthorized ''signature_rejected'' ''re-register if your key changed''
                   (''signature rejected: '' @ verifyError_text err) [(''from'', JStr from)])
             | None \<Rightarrow> None)"

definition answer :: "response \<times> state \<Rightarrow> outcome \<times> state" where
  "answer p = (Done (fst p), snd p)"

definition run_op :: "env \<Rightarrow> request \<Rightarrow> state \<Rightarrow> outcome \<times> state" where
  "run_op e req s =
     (let op = Op req
      in if op = ''register'' then answer (opRegister e req s)
         else if op = ''unregister'' then answer (opUnregister e req s)
         else if op = ''agents'' then answer (opAgents e s, s)
         else if op = ''resolve'' then answer (opResolve e req s, s)
         else if op = ''rooms'' then answer (opRooms req s, s)
         else if op = ''rooms_gc'' then answer (opRoomsGC req s)
         else if op = ''room_create'' then answer (opRoomCreate e req s)
         else if op = ''join'' then answer (opJoin req s)
         else if op = ''leave'' then answer (opLeave req s)
         else if op = ''participants'' then answer (opParticipants req s, s)
         else if op = ''post'' then answer (opPost e req s)
         else if op = ''tell'' then answer (opTell e req s)
         else if op = ''read'' then opRead e req s
         else if op = ''peek'' then answer (opPeek e req s, s)
         else if op = ''read-any'' then opReadAny req s
         else if op = ''history'' then answer (opHistory req s, s)
         else if op = ''channels'' then answer (opChannels req s, s)
         else if op = ''renew'' then answer (opRenew e req s)
         else if op = ''task_publish'' then answer (opTaskPublish e req s)
         else if op = ''task_unassign'' then answer (opTaskUnassign e req s)
         else if op = ''task_status'' then answer (opTaskStatus e req s)
         else if op = ''task_claim'' then answer (opTaskClaim e req s)
         else if op = ''task_show'' then answer (opTaskShow req s, s)
         else if op = ''task_list'' then answer (opTaskList req s, s)
         else if op = ''task_bulletin'' then answer (opTaskBulletin req s, s)
         else if op = ''task_reassign'' then answer (opTaskReassign e req s)
         else if op = ''task_unpublish'' then answer (opTaskUnpublish e req s)
         else if op = ''task_handoff'' then answer (opTaskHandoff e req s)
         else if op = ''stop'' then answer (\<lparr>OK = True, Data = None, Error = [], Code = CodeOK\<rparr>, s)
         else answer (errorResponse CodeError ''unknown_op'' ''check `lalia --help` for supported commands''
                (''unknown op: '' @ op) [(''op'', JStr op)], s))"

definition dispatch :: "env \<Rightarrow> request \<Rightarrow> state \<Rightarrow> outcome \<times> state" where
  "dispatch e req s =
     (case auth_gate e req s of
        Some r \<Rightarrow> (Done r, s)
      | None \<Rightarrow> run_op e req (renewLease e (strVal (Args req) ''from'') s))"

section \<open>Stopping\<close>

definition release_channel :: "string \<Rightarrow> state \<Rightarrow> state" where
  \<comment> \<open>every blocked reader of the channel is told the daemon is shutting down\<close>
  "release_channel k s =
     (case map_of (channels s) k of
        None \<Rightarrow> s
      | Some c \<Rightarrow> put_channel k (c\<lparr>c_waiter := []\<rparr>)
          (fold (\<lambda>(name, ch). send ch (PayWait \<lparr>w_msg = None, w_err = ''daemon shutting down'', w_code = CodePeerClosed\<rparr>))
             (c_waiter c) s))"

definition requestStop :: "state \<Rightarrow> state" where
  \<comment> \<open>closing a closed channel is a panic\<close>
  "requestStop s =
     (let s = s\<lparr>stopped := True\<rparr>;
          s = fold release_channel (map fst (channels s)) s
      in if writes_closed s then s\<lparr>panicked := True\<rparr> else s\<lparr>writes_closed := True\<rparr>)"

section \<open>Blocked reads\<close>

definition wake :: "env \<Rightarrow> nat \<Rightarrow> state \<Rightarrow> response option \<times> state" where
  \<comment> \<open>the receive arm of the \<^verbatim>\<open>select\<close> a goroutine waits in; the types of channels exclude the last case\<close>
  "wake e ch s =
     (case (map_of (blocked s) ch, bufs s ch) of
        (Some p, v # vs) \<Rightarrow>
          let s1 = unblock ch (s\<lparr>bufs := (bufs s)(ch := vs)\<rparr>)
          in (case (p, v) of
                (WaitRoom from room, PayRoom m) \<Rightarrow>
                  (case map_of (rooms s1) room of
                     None \<Rightarrow> (None, s1)
                   | Some r \<Rightarrow> (case roomRead_recv e from room r m s1 of (resp, s2) \<Rightarrow> (Some resp, s2)))
              | (WaitPeer from k, PayWait r) \<Rightarrow> (Some (chanRead_recv from r), s1)
              | (WaitAny from t, PayAny am) \<Rightarrow> (Some (readAny_recv am), s1)
              | _ \<Rightarrow> (None, s1))
      | _ \<Rightarrow> (None, s))"

definition time_out :: "nat \<Rightarrow> state \<Rightarrow> response option \<times> state" where
  \<comment> \<open>the \<^verbatim>\<open>time.After\<close> arm\<close>
  "time_out ch s =
     (case map_of (blocked s) ch of
        None \<Rightarrow> (None, s)
      | Some p \<Rightarrow>
          let s1 = unblock ch s
          in (case p of
                WaitRoom from room \<Rightarrow>
                  (case map_of (rooms s1) room of
                     None \<Rightarrow> (None, s1)
                   | Some r \<Rightarrow> (case roomRead_timeout from room r s1 of (resp, s2) \<Rightarrow> (Some resp, s2)))
              | WaitPeer from k \<Rightarrow>
                  (case map_of (channels s1) k of
                     None \<Rightarrow> (None, s1)
                   | Some c \<Rightarrow> (case chanRead_timeout k c from s1 of (resp, s2) \<Rightarrow> (Some resp, s2)))
              | WaitAny from t \<Rightarrow> (case readAny_timeout from t s1 of (resp, s2) \<Rightarrow> (Some resp, s2))))"

section \<open>The machine\<close>

datatype event =
    Request env request   \<comment> \<open>a connection's request\<close>
  | Wake env nat          \<comment> \<open>a blocked read receives\<close>
  | TimeOut nat           \<comment> \<open>a blocked read gives up\<close>
  | Tick env              \<comment> \<open>the sweeper\<close>
  | StopNow               \<comment> \<open>a signal, or the goroutine \<^verbatim>\<open>opStop\<close> started\<close>
  | Turn ioResult         \<comment> \<open>the writer\<close>
| StoreFaults "bool list"  \<comment> \<open>the write queue's table stops taking statements, or takes them again\<close>

fun apply_event :: "event \<Rightarrow> state \<Rightarrow> state" where
  "apply_event (Request e req) s = snd (dispatch e req s)"
| "apply_event (Wake e ch) s = snd (wake e ch s)"
| "apply_event (TimeOut ch) s = snd (time_out ch s)"
| "apply_event (Tick e) s = (if stopped s then s else sweep e s)"
| "apply_event StopNow s = requestStop s"
| "apply_event (Turn io) s = runWriter io s"
| "apply_event (StoreFaults fs) s = s\<lparr>faults := fs\<rparr>"

fun allowed :: "event \<Rightarrow> state \<Rightarrow> bool" where
  \<comment> \<open>a panic has ended the process; a fresh identifier is one no agent has\<close>
  "allowed (Request e req) s = (\<not> panicked s \<and> map_of (agents s) (newID e) = None)"
| "allowed (Wake e ch) s = (\<not> panicked s \<and> bufs s ch \<noteq> [])"
| "allowed _ s = (\<not> panicked s)"

definition daemon_inv :: "state \<Rightarrow> bool" where
  "daemon_inv s \<longleftrightarrow> wf_registry s \<and> task_inv s"

section \<open>What handlers leave alone\<close>

definition books_same :: "state \<Rightarrow> state \<Rightarrow> bool" where
  \<comment> \<open>neither an agent nor a task list changes\<close>
  "books_same s s' \<longleftrightarrow> agents s' = agents s \<and> nameIdx s' = nameIdx s \<and> tasks s' = tasks s"

lemma books_same_refl [simp]: "books_same s s" by (simp add: books_same_def)

lemma books_same_keeps:
  assumes "books_same s s'" "daemon_inv s" "both_inv s'"
  shows "daemon_inv s'"
  using assms wf_registry_cong[of s' s] tasks_inv_frame[of s' s]
  by (simp add: books_same_def daemon_inv_def task_inv_def)

lemma getOrCreate_books: "getOrCreateChannel a b s = (k, c, s') \<Longrightarrow> books_same s s'"
  by (auto simp: books_same_def getOrCreateChannel_def Let_def split: option.splits)

lemma room_ops_books:
  "books_same s (snd (opRoomCreate e req s))" "books_same s (snd (opJoin req s))"
  "books_same s (snd (opLeave req s))" "books_same s (snd (roomRead e f n t s))"
  "books_same s (snd (opRoomsGC req s))"
  by (auto simp: books_same_def opRoomCreate_def opJoin_def opLeave_def roomRead_def opRoomsGC_def Let_def
      split: option.split prod.split list.split dest!: arg_cong[of _ _ snd])

lemma opPost_books: "books_same s (snd (opPost e req s))"
  by (auto simp: books_same_def opPost_def room_write_def deliver_room_def Let_def fold_deliver_state
      split: option.split prod.split dest!: fold_deliver_state)

lemma opTell_books: "books_same s (snd (opTell e req s))"
proof -
  have "books_same s (snd (tell e k c f b s'))" if "getOrCreateChannel f p s = (k, c, s')" for f p b k c s'
    using getOrCreate_books[OF that] by (simp add: books_same_def tell_frame)
  then show ?thesis by (auto simp: opTell_def Let_def split: option.split sum.split prod.split)
qed

lemma opRead_books: "books_same s (snd (opRead e req s))"
proof -
  have "books_same s (snd (chanRead k c f t s'))" if "getOrCreateChannel f p s = (k, c, s')" for f p t k c s'
    using getOrCreate_books[OF that] by (simp add: books_same_def chanRead_frame)
  then show ?thesis
    by (auto simp: opRead_def Let_def room_ops_books split: option.split sum.split prod.split)
qed

lemma opReadAny_books: "books_same s (snd (opReadAny req s))"
  by (auto simp: opReadAny_def books_same_def Let_def block_def split: option.split prod.split)

lemma registry_ops_tasks [simp]:
  "tasks (snd (opRegister e req s)) = tasks s" "tasks (snd (opUnregister e req s)) = tasks s"
  "tasks (snd (opRenew e req s)) = tasks s" "tasks (renewLease e n s) = tasks s" "tasks (sweep e s) = tasks s"
proof -
  obtain resp s' where r: "opRegister e req s = (resp, s')" by fastforce
  from r show "tasks (snd (opRegister e req s)) = tasks s"
    by (cases rule: opRegister_cases) (auto simp: r dest: ensureKey_frame)
  have u: "tasks (fold unindexAgent ids s) = tasks s" for ids s by (rule fold_same) simp
  have f: "tasks (fold removeAgentFile ids s) = tasks s" for ids s by (rule fold_same) simp
  show "tasks (sweep e s) = tasks s" using sweep_parts[of e s] by (auto simp: u f)
  show "tasks (snd (opUnregister e req s)) = tasks s"
    by (auto simp: opUnregister_def Let_def removeKey_def split: option.split)
  show "tasks (snd (opRenew e req s)) = tasks s" "tasks (renewLease e n s) = tasks s"
    by (simp_all add: opRenew_def renewLease_def Let_def split: option.split)
qed

lemma daemon_invD:
  "daemon_inv s \<Longrightarrow> wf_registry s" "daemon_inv s \<Longrightarrow> both_inv s" "daemon_inv s \<Longrightarrow> tasks_inv s"
  by (simp_all add: daemon_inv_def task_inv_def)

lemma daemon_invI: "wf_registry s \<Longrightarrow> both_inv s \<Longrightarrow> tasks_inv s \<Longrightarrow> daemon_inv s"
  by (simp add: daemon_inv_def task_inv_def)

lemma task_ops_keep:
  assumes "daemon_inv s"
  shows "daemon_inv (snd (opTaskUnassign e req s))" "daemon_inv (snd (opTaskReassign e req s))"
    "daemon_inv (snd (opTaskStatus e req s))" "daemon_inv (snd (opTaskClaim e req s))"
    "daemon_inv (snd (opTaskUnpublish e req s))" "daemon_inv (snd (opTaskHandoff e req s))"
    "daemon_inv (snd (opTaskPublish e req s))"
proof -
  have w: "wf_registry s'" if "agents s' = agents s" "nameIdx s' = nameIdx s" for s'
    using that assms by (metis daemon_inv_def wf_registry_cong)
  have t: "task_inv s" "both_inv s" "tasks_inv s" using assms by (simp_all add: daemon_inv_def task_inv_def)
  show "daemon_inv (snd (opTaskUnassign e req s))" "daemon_inv (snd (opTaskReassign e req s))"
    "daemon_inv (snd (opTaskStatus e req s))" "daemon_inv (snd (opTaskClaim e req s))"
    "daemon_inv (snd (opTaskUnpublish e req s))" "daemon_inv (snd (opTaskHandoff e req s))"
    unfolding daemon_inv_def
    by (intro conjI w opTaskUnassign_keeps opTaskReassign_keeps opTaskStatus_keeps opTaskClaim_keeps
        opTaskUnpublish_keeps opTaskHandoff_keeps t(1); simp add: handlers_agents)+
  show "daemon_inv (snd (opTaskPublish e req s))"
    by (intro daemon_invI w opTaskPublish_keeps t)
qed

lemma message_ops_keep:
  assumes "daemon_inv s"
  shows "daemon_inv (snd (opRoomCreate e req s))" "daemon_inv (snd (opJoin req s))"
    "daemon_inv (snd (opLeave req s))" "daemon_inv (snd (opRoomsGC req s))" "daemon_inv (snd (opPost e req s))"
    "daemon_inv (snd (opTell e req s))" "daemon_inv (snd (opRead e req s))" "daemon_inv (snd (opReadAny req s))"
  by (rule books_same_keeps[OF _ assms]; simp add: room_ops_books opPost_books opTell_books opRead_books
      opReadAny_books opRoomCreate_keeps opJoin_keeps opLeave_keeps opRoomsGC_keeps opPost_keeps opTell_keeps
      opRead_keeps opReadAny_keeps daemon_invD[OF assms])+

lemma registry_ops_keep:
  assumes "daemon_inv s"
  shows "map_of (agents s) (newID e) = None \<Longrightarrow> daemon_inv (snd (opRegister e req s))"
    "daemon_inv (snd (opUnregister e req s))" "daemon_inv (snd (opRenew e req s))"
    "daemon_inv (renewLease e n s)" "daemon_inv (sweep e s)"
proof -
  note inv = daemon_invD[OF assms]
  have t: "tasks_inv s'" if "tasks s' = tasks s" for s' using inv(3) tasks_inv_frame[OF that] by simp
  show "map_of (agents s) (newID e) = None \<Longrightarrow> daemon_inv (snd (opRegister e req s))"
    by (intro daemon_invI opRegister_wf opRegister_keeps t inv) simp_all
  show "daemon_inv (snd (opUnregister e req s))" "daemon_inv (snd (opRenew e req s))"
    "daemon_inv (renewLease e n s)" "daemon_inv (sweep e s)"
    by (intro daemon_invI opUnregister_wf opUnregister_keeps opRenew_wf opRenew_keeps renewLease_wf
        renewLease_keeps sweep_wf sweep_keeps t inv; simp)+
qed

lemma renewLease_fresh:
  assumes "daemon_inv s" "map_of (agents s) i = None"
  shows "map_of (agents (renewLease e n s)) i = None"
  using assms agentByName_iff[of s n] by (auto simp: renewLease_def daemon_inv_def split: option.split)

lemma run_op_keeps:
  assumes "daemon_inv s" "map_of (agents s) (newID e) = None"
  shows "daemon_inv (snd (run_op e req s))"
  using assms by (simp add: run_op_def answer_def Let_def registry_ops_keep message_ops_keep task_ops_keep)

lemma dispatch_keeps:
  assumes "daemon_inv s" "map_of (agents s) (newID e) = None"
  shows "daemon_inv (snd (dispatch e req s))"
  using assms by (auto simp: dispatch_def registry_ops_keep run_op_keeps renewLease_fresh split: option.split)

section \<open>The other goroutines\<close>

lemma rows_keep:
  assumes "both_inv s" "channels s' = channels s" "rooms s' = rooms s" "live_store s' \<Longrightarrow> live_store s"
    "\<And>k. qbox s' k = qbox s k"
  shows "both_inv s'"
  using assms chan_inv_frame[of s s'] rooms_inv_frame[of s s'] by (simp add: both_inv_def)

lemma commitWrite_box: "qbox (commitWrite io w s) = qbox s"
proof -
  have b: "map_option (\<lambda>d. box d k) q = map_option (\<lambda>d. box d k) q'"
    if "map_option durable_rows q = map_option durable_rows q'" for q q' k
    using that by (cases q; cases q') (simp_all add: durable_rows_def box_def)
  show ?thesis using b[OF commitWrite_rows[of io w s, unfolded store_rows_def]] by (simp add: qbox_def fun_eq_iff)
qed

lemma runWriter_frame:
  "books_same s (runWriter io s)" "both_inv s \<Longrightarrow> both_inv (runWriter io s)"
proof -
  show "books_same s (runWriter io s)"
    by (auto simp: runWriter_def books_same_def split: list.split)
  assume inv: "both_inv s"
  have "both_inv (commitWrite io w (s\<lparr>writes := ws\<rparr>))" for w ws
    by (rule rows_keep[OF inv]) (simp_all add: commitWrite_box live_store_def)
  moreover have "both_inv (s\<lparr>db_closed := True\<rparr>)"
    by (rule rows_keep[OF inv]) (simp_all add: live_store_def qbox_def)
  ultimately show "both_inv (runWriter io s)"
    using inv by (simp add: runWriter_def split: list.split)
qed

lemma fold_send_frame [simp]:
  "channels (fold (\<lambda>(n, ch). send ch (v n)) ws s) = channels s" "rooms (fold (\<lambda>(n, ch). send ch (v n)) ws s) = rooms s"
  "agents (fold (\<lambda>(n, ch). send ch (v n)) ws s) = agents s" "nameIdx (fold (\<lambda>(n, ch). send ch (v n)) ws s) = nameIdx s"
  "tasks (fold (\<lambda>(n, ch). send ch (v n)) ws s) = tasks s" "anyWaiter (fold (\<lambda>(n, ch). send ch (v n)) ws s) = anyWaiter s"
  "qbox (fold (\<lambda>(n, ch). send ch (v n)) ws s) = qbox s" "live_store (fold (\<lambda>(n, ch). send ch (v n)) ws s) = live_store s"
  "blocked (fold (\<lambda>(n, ch). send ch (v n)) ws s) = blocked s"
  by (intro fold_same; simp split: prod.split)+

lemma release_channel_books: "books_same s (release_channel k s)"
  by (simp add: release_channel_def books_same_def split: option.split)

lemma release_channel_keeps: "both_inv s \<Longrightarrow> both_inv (release_channel k s)"
proof (cases "map_of (channels s) k")
  case (Some c)
  assume inv: "both_inv s"
  let ?t = "fold (\<lambda>(name, ch). send ch (PayWait \<lparr>w_msg = None, w_err = ''daemon shutting down'',
      w_code = CodePeerClosed\<rparr>)) (c_waiter c) s"
  have t: "both_inv ?t" using inv by (rule rows_keep) simp_all
  then have "chan_inv (put_channel k (c\<lparr>c_waiter := []\<rparr>) ?t)"
    using Some by (intro chan_inv_put_waiter) (simp_all add: both_inv_def)
  then have "both_inv (put_channel k (c\<lparr>c_waiter := []\<rparr>) ?t)"
    by (rule both_inv_chan[OF t]) simp
  then show ?thesis using Some by (simp add: release_channel_def)
qed (simp add: release_channel_def)

lemma books_same_trans: "books_same s t \<Longrightarrow> books_same t u \<Longrightarrow> books_same s u"
  by (simp add: books_same_def)

lemma requestStop_frame: "books_same s (requestStop s)" "both_inv s \<Longrightarrow> both_inv (requestStop s)"
proof -
  let ?s0 = "s\<lparr>stopped := True\<rparr>"
  let ?t = "fold release_channel (map fst (channels s)) ?s0"
  have "books_same s ?t"
    by (rule fold_keeps) (auto elim: books_same_trans intro: release_channel_books books_same_trans simp: books_same_def[of s ?s0])
  then show "books_same s (requestStop s)" by (simp add: requestStop_def books_same_def Let_def)
  assume "both_inv s"
  then have "both_inv ?s0" by (rule rows_keep) (simp_all add: live_store_def)
  then have "both_inv ?t" by (intro fold_keeps[where P = both_inv]) (simp_all add: release_channel_keeps)
  then have "both_inv (?t\<lparr>panicked := True\<rparr>)" "both_inv (?t\<lparr>writes_closed := True\<rparr>)"
    by (rule rows_keep; simp add: live_store_def qbox_def)+
  then show "both_inv (requestStop s)" by (simp add: requestStop_def Let_def)
qed

lemma room_turn_books:
  "books_same s (snd (roomRead_recv e f n r m s))" "books_same s (snd (roomRead_timeout f n r s))"
  "books_same s (snd (chanRead_timeout k c f s))" "books_same s (snd (readAny_timeout f t s))"
  by (auto simp: books_same_def roomRead_recv_def roomRead_timeout_def chanRead_timeout_def readAny_timeout_def Let_def)

lemma wake_frame:
  "books_same s (snd (wake e ch s))" "both_inv s \<Longrightarrow> both_inv (snd (wake e ch s))"
proof -
  let ?u = "\<lambda>vs. unblock ch (s\<lparr>bufs := (bufs s)(ch := vs)\<rparr>)"
  have r: "books_same s (snd (roomRead_recv e f n r m (?u vs)))" for f n r m vs
    by (rule books_same_trans[OF _ room_turn_books(1)]) (simp add: books_same_def)
  show "books_same s (snd (wake e ch s))"
    using r by (auto simp: wake_def Let_def case_prod_unfold books_same_def
        split: option.split list.split pending.split payload.split)
  assume inv: "both_inv s"
  have u: "both_inv (?u vs)" for vs using inv by (intro rows_keep[OF inv]) simp_all
  have "both_inv (snd (roomRead_recv e f n r m (?u vs)))" if "map_of (rooms s) n = Some r" for f n r m vs
    using u that by (intro roomRead_recv_keeps) simp_all
  then show "both_inv (snd (wake e ch s))" using u inv
    by (auto simp: wake_def Let_def case_prod_unfold split: option.split list.split pending.split payload.split)
qed

lemma time_out_frame:
  "books_same s (snd (time_out ch s))" "both_inv s \<Longrightarrow> both_inv (snd (time_out ch s))"
proof -
  have b: "books_same s (unblock ch s)" by (simp add: books_same_def)
  show "books_same s (snd (time_out ch s))"
    by (auto simp: time_out_def Let_def case_prod_unfold split: option.split pending.split
        intro: books_same_trans[OF b] room_turn_books b)
  assume inv: "both_inv s"
  have "chan_inv (unblock ch s)" using inv by (simp add: both_inv_def)
  then have "both_inv (snd (chanRead_timeout k c f (unblock ch s)))" if "map_of (channels s) k = Some c" for k c f
    using that inv by (intro both_inv_chan[OF inv] chanRead_timeout_keeps) (simp_all add: chanRead_timeout_def)
  then show "both_inv (snd (time_out ch s))" using inv
    by (auto simp: time_out_def Let_def case_prod_unfold roomRead_timeout_keeps readAny_timeout_keeps
        split: option.split pending.split)
qed

interpretation daemon: invariant_of apply_event allowed daemon_inv
proof
  fix s ev
  assume inv: "daemon_inv s" and ok: "allowed ev s"
  note bk = books_same_keeps[OF _ inv] and both = daemon_invD(2)[OF inv]
  show "daemon_inv (apply_event ev s)"
  proof (cases ev)
    case (Request e req)
    then show ?thesis using dispatch_keeps[OF inv] ok by simp
  next
    case (StoreFaults fs)
    have "both_inv (s\<lparr>faults := fs\<rparr>)" by (rule rows_keep[OF both]) simp_all
    then show ?thesis using bk[of "s\<lparr>faults := fs\<rparr>"] StoreFaults by (simp add: books_same_def)
  qed (use bk both inv in \<open>simp_all add: wake_frame time_out_frame requestStop_frame runWriter_frame registry_ops_keep\<close>)
qed

section \<open>What the daemon promises\<close>

text \<open>C1: Whatever requests, wake-ups, timeouts, sweeps, stop requests, writer turns and errors of the
  write queue happen, in whatever order,
  the registry stays an exact index of agents by name, every room and channel keeps its sequence and mailbox
  invariants, and every task list keeps one row per slug with a known status.\<close>

theorem daemon_safe:
  assumes "wf_registry s" "rooms_inv s" "chan_inv s" "tasks_inv s" "daemon.legal es s" "t = fold apply_event es s"
  shows "wf_registry t \<and> rooms_inv t \<and> chan_inv t \<and> tasks_inv t"
proof -
  have "daemon_inv s" using assms(1-4) by (simp add: daemon_inv_def task_inv_def both_inv_def)
  then have "daemon_inv t" using daemon.run_keeps assms(5,6) by blast
  then show ?thesis by (simp add: daemon_inv_def task_inv_def both_inv_def)
qed

lemma unauthorized_code: "OK (unauthorized a b c d) = False \<and> Code (unauthorized a b c d) = CodeUnauthorized"
  by (simp add: unauthorized_def errorResponse_def CodeUnauthorized_def)

text \<open>C2: A request that names a caller, other than the four open operations, is either answered
  \<^verbatim>\<open>unauthorized\<close> without any effect, or it carries a signature of its arguments that verifies under the public
  key on file for that caller; then the lease is renewed and the handler runs.\<close>

theorem dispatch_authenticates:
  assumes "strVal (Args req) ''from'' = from" "from \<noteq> []" "Op req \<notin> set unauthenticated_ops"
  shows "(\<exists>r. dispatch e req s = (Done r, s) \<and> \<not> OK r \<and> Code r = CodeUnauthorized)
    \<or> (\<exists>a sigHex sig pub. agentByName s from = Some a \<and> map_of (Args req) ''sig'' = Some (JStr sigHex)
        \<and> hexDecode sigHex = Inr sig \<and> hexDecode (ag_Pubkey a) = Inr pub \<and> length pub = publicKeySize
        \<and> verifySig e pub (canonicalArgs (Some (Args req))) sig
        \<and> dispatch e req s = run_op e req (renewLease e from s))"
proof (cases "auth_gate e req s")
  case (Some r)
  then have "\<not> OK r \<and> Code r = CodeUnauthorized"
    by (auto simp: auth_gate_def Let_def unauthorized_code split: if_splits option.splits)
  then show ?thesis using Some by (auto simp: dispatch_def)
next
  case None
  then obtain a where a: "agentByName s from = Some a" "verifyRequest e (ag_Pubkey a) (Args req) = None"
    using assms by (auto simp: auth_gate_def Let_def split: if_splits option.splits)
  obtain sigHex sig pub where "map_of (Args req) ''sig'' = Some (JStr sigHex)" "hexDecode sigHex = Inr sig"
      "hexDecode (ag_Pubkey a) = Inr pub" "length pub = publicKeySize"
      "verifySig e pub (canonicalArgs (Some (Args req))) sig"
    using a(2) by (auto simp: verifyRequest_def split: option.splits json.splits if_splits sum.splits)
  then show ?thesis using a(1) None assms(1) by (auto simp: dispatch_def)
qed

lemma no_caller:
  assumes "strVal (Args req) ''from'' = []"
  shows "snd (opUnregister e req s) = s" "snd (opRoomsGC req s) = s" "snd (opRoomCreate e req s) = s"
    "snd (opJoin req s) = s" "snd (opLeave req s) = s" "snd (opPost e req s) = s" "snd (opTell e req s) = s"
    "snd (opRead e req s) = s" "snd (opReadAny req s) = s" "snd (opRenew e req s) = s"
  using assms by (simp_all add: opUnregister_def opRoomsGC_def opRoomCreate_def opJoin_def opLeave_def opPost_def
      opTell_def opRead_def opReadAny_def opRenew_def target_error_def Let_def)

lemma no_caller_tasks:
  assumes "strVal (Args req) ''from'' = []"
  shows "snd (opTaskPublish e req s) = s" "snd (opTaskUnassign e req s) = s" "snd (opTaskStatus e req s) = s"
    "snd (opTaskClaim e req s) = s" "snd (opTaskReassign e req s) = s" "snd (opTaskUnpublish e req s) = s"
    "snd (opTaskHandoff e req s) = s"
  using assms by (simp_all add: opTaskPublish_def opTaskUnassign_def unassign_check_def opTaskStatus_def status_check_def
      opTaskClaim_def claim_check_def opTaskReassign_def reassign_check_def opTaskUnpublish_def unpublish_check_def
      opTaskHandoff_def handoff_check_def Let_def)

text \<open>A request that names no caller changes nothing, unless it registers one.\<close>

theorem anonymous_changes_nothing:
  assumes "strVal (Args req) ''from'' = []" "Op req \<noteq> ''register''"
  shows "snd (dispatch e req s) = s"
proof -
  have "auth_gate e req s = None" using assms by (simp add: auth_gate_def)
  then have "dispatch e req s = run_op e req s" using assms(1) by (simp add: dispatch_def renewLease_def)
  moreover have "snd (run_op e req s) = s"
    by (simp only: run_op_def Let_def answer_def snd_conv fst_conv if_distrib[of snd] no_caller[OF assms(1)]
        no_caller_tasks[OF assms(1)] assms(2) if_False if_cancel)
  ultimately show ?thesis by simp
qed

text \<open>The operations \<^verbatim>\<open>agents\<close> and \<^verbatim>\<open>resolve\<close> need no signature, yet a request of theirs that names a
  caller renews that caller's lease: whoever can reach the socket keeps any agent alive.\<close>

theorem unsigned_request_renews:
  assumes "wf_registry s" "agentByName s from = Some a" "strVal (Args req) ''from'' = from" "from \<noteq> []"
    "Op req \<in> {''agents'', ''resolve''}" "t = snd (dispatch e req s)"
  shows "agentByName t from = Some (a\<lparr>ag_LastSeenAt := now e, ag_ExpiresAt := now e + leaseTTL\<rparr>)"
proof -
  have t: "t = renewLease e from s"
    using assms(3,5,6) by (auto simp: dispatch_def auth_gate_def unauthenticated_ops_def run_op_def answer_def)
  have a: "map_of (agents s) (ag_AgentID a) = Some a" "map_of (nameIdx s) from = Some (ag_AgentID a)"
    using assms(1,2) agentByName_iff wf_registryD(4) by metis+
  show ?thesis using a assms(2,4) by (simp add: t renewLease_def agentByName_def renewed_def)
qed

definition chan_waiters :: "state \<Rightarrow> string \<Rightarrow> nat list" where
  "chan_waiters s k = (case map_of (channels s) k of None \<Rightarrow> [] | Some c \<Rightarrow> map snd (c_waiter c))"

definition peer_waiters :: "state \<Rightarrow> nat list" where
  \<comment> \<open>every read registered on a channel\<close>
  "peer_waiters s = concat (map (chan_waiters s) (map fst (channels s)))"

definition closing :: payload where
  "closing = PayWait \<lparr>w_msg = None, w_err = ''daemon shutting down'', w_code = CodePeerClosed\<rparr>"

lemma count_distinct: "distinct xs \<Longrightarrow> count_list xs x = (if x \<in> set xs then 1 else 0)"
  by (induction xs) auto

lemma fold_send_bufs:
  "bufs (fold (\<lambda>(n, ch). send ch v) ws s) ch = bufs s ch @ replicate (count_list (map snd ws) ch) v"
  by (induction ws arbitrary: s) (auto simp: replicate_append_same[symmetric])

lemma release_channel_effect:
  "bufs (release_channel k s) ch = bufs s ch @ replicate (count_list (chan_waiters s k) ch) closing"
  "map_of (channels (release_channel k s)) =
     (map_of (channels s))(k := map_option (\<lambda>c. c\<lparr>c_waiter := []\<rparr>) (map_of (channels s) k))"
  "rooms (release_channel k s) = rooms s" "anyWaiter (release_channel k s) = anyWaiter s"
  "blocked (release_channel k s) = blocked s" "panicked (release_channel k s) = panicked s"
  "writes_closed (release_channel k s) = writes_closed s"
proof -
  have f: "panicked (fold (\<lambda>(n, ch). send ch (v n)) ws s) = panicked s"
    "writes_closed (fold (\<lambda>(n, ch). send ch (v n)) ws s) = writes_closed s" for v ws
    by (intro fold_same; simp split: prod.split)+
  show "bufs (release_channel k s) ch = bufs s ch @ replicate (count_list (chan_waiters s k) ch) closing"
    by (simp add: release_channel_def chan_waiters_def closing_def fold_send_bufs split: option.split)
  show "map_of (channels (release_channel k s)) =
     (map_of (channels s))(k := map_option (\<lambda>c. c\<lparr>c_waiter := []\<rparr>) (map_of (channels s) k))"
    by (auto simp: release_channel_def fun_eq_iff split: option.split)
  show "rooms (release_channel k s) = rooms s" "anyWaiter (release_channel k s) = anyWaiter s"
    "blocked (release_channel k s) = blocked s" "panicked (release_channel k s) = panicked s"
    "writes_closed (release_channel k s) = writes_closed s"
    by (simp_all add: release_channel_def f split: option.split)
qed

lemma release_channels_effect:
  assumes "distinct ks"
  shows "bufs (fold release_channel ks s) ch = bufs s ch @ replicate (count_list (concat (map (chan_waiters s) ks)) ch) closing
    \<and> (\<forall>k. map_of (channels (fold release_channel ks s)) k =
        (if k \<in> set ks then map_option (\<lambda>c. c\<lparr>c_waiter := []\<rparr>) (map_of (channels s) k) else map_of (channels s) k))"
  using assms
proof (induction ks arbitrary: s)
  case (Cons k ks)
  let ?s = "release_channel k s"
  have "chan_waiters ?s j = chan_waiters s j" if "j \<in> set ks" for j
    using Cons.prems that by (auto simp: chan_waiters_def release_channel_effect(2))
  then have w: "map (chan_waiters ?s) ks = map (chan_waiters s) ks" by simp
  show ?case using Cons.IH[of ?s] Cons.prems
    by (auto simp: release_channel_effect(1,2) count_list_append replicate_add w)
qed simp

text \<open>C31: Stopping ends every blocked peer read: each read registered on a channel is sent
  \<^verbatim>\<open>peer_closed\<close>, answers so when it resumes, and is forgotten. Nothing else is woken: reads of rooms
  and pending \<^verbatim>\<open>read-any\<close> calls stay registered, and nothing arrives for them.\<close>

theorem stop_releases_peers:
  assumes "keys_ok (channels s)" "distinct (peer_waiters s)" "t = requestStop s"
  shows "bufs t ch = (if ch \<in> set (peer_waiters s) then bufs s ch @ [closing] else bufs s ch)
    \<and> (\<forall>k c. map_of (channels t) k = Some c \<longrightarrow> c_waiter c = [])
    \<and> (ch \<in> set (peer_waiters s) \<and> bufs s ch = [] \<and> map_of (blocked s) ch = Some (WaitPeer from k) \<longrightarrow>
        (\<exists>r. fst (wake e ch t) = Some r \<and> Code r = CodePeerClosed \<and> \<not> OK r))
    \<and> rooms t = rooms s \<and> anyWaiter t = anyWaiter s \<and> blocked t = blocked s"
proof -
  let ?s0 = "s\<lparr>stopped := True\<rparr>" and ?ks = "map fst (channels s)"
  let ?t = "fold release_channel ?ks ?s0"
  have same: "rooms ?t = rooms s" "anyWaiter ?t = anyWaiter s" "blocked ?t = blocked s"
    by (simp_all add: fold_same[where g = rooms] fold_same[where g = anyWaiter] fold_same[where g = blocked]
        release_channel_effect)
  have t: "bufs t = bufs ?t" "channels t = channels ?t" "rooms t = rooms ?t" "anyWaiter t = anyWaiter ?t"
    "blocked t = blocked ?t" by (simp_all add: assms(3) requestStop_def Let_def)
  have w: "chan_waiters ?s0 = chan_waiters s" by (simp add: chan_waiters_def fun_eq_iff)
  note eff = release_channels_effect[of ?ks ?s0 ch, unfolded w, folded peer_waiters_def]
  have d: "distinct ?ks" using assms(1) by (simp add: keys_ok_def)
  have cnt: "count_list (peer_waiters s) ch = (if ch \<in> set (peer_waiters s) then 1 else 0)"
    using assms(2) by (rule count_distinct)
  have 1: "bufs t ch = (if ch \<in> set (peer_waiters s) then bufs s ch @ [closing] else bufs s ch)"
    using eff[OF d] by (simp add: t(1) cnt)
  moreover have "c_waiter c = []" if "map_of (channels t) k = Some c" for k c
    using eff[OF d] that map_of_mem[of "channels s" k]
    by (auto simp: t(2) image_iff split: if_splits)
  moreover have "\<exists>r. fst (wake e ch t) = Some r \<and> Code r = CodePeerClosed \<and> \<not> OK r"
    if "ch \<in> set (peer_waiters s)" "bufs s ch = []" "map_of (blocked s) ch = Some (WaitPeer from k)"
    using that 1 same t by (simp add: wake_def closing_def Let_def chanRead_recv_def errorResponse_def CodePeerClosed_def)
  ultimately show ?thesis using same t by auto
qed

text \<open>C39: Stopping closes the write channel, and the daemon keeps accepting connections: a second stop, any
  further write, and so much as a listing by a registered caller end the process in a panic.\<close>

theorem stop_leaves_panic:
  assumes "alive s" "t = requestStop s" "agentByName s from = Some a" "from \<noteq> []" "strVal (Args req) ''from'' = from"
    "Op req \<in> {''agents'', ''resolve''}"
  shows "\<not> panicked t \<and> panicked (requestStop t) \<and> panicked (enqueueWrite p c m t)
    \<and> panicked (snd (dispatch e req t))"
proof -
  let ?f = "\<lambda>s. fold release_channel (map fst (channels s)) (s\<lparr>stopped := True\<rparr>)"
  have f: "panicked (?f s) = panicked s" "writes_closed (?f s) = writes_closed s" for s
    by (simp_all add: fold_same[where g = panicked] fold_same[where g = writes_closed] release_channel_effect)
  then have t: "\<not> panicked t" "writes_closed t"
    using assms(1) by (simp_all add: assms(2) requestStop_def alive_def Let_def)
  have w: "panicked (enqueueWrite p c m u)" if "writes_closed u" for u p c m
    using that by (auto simp: enqueueWrite_def Let_def split: option.split)
  have "agentByName t = agentByName s"
    using requestStop_frame(1)[of s] agentByName_cong[of t s] by (simp add: assms(2) books_same_def)
  then have a: "agentByName t from = Some a" using assms(3) by simp
  have "dispatch e req t = run_op e req (renewLease e from t)" and "snd (run_op e req u) = u" for u
    using assms(5,6) by (auto simp: dispatch_def auth_gate_def unauthenticated_ops_def run_op_def answer_def)
  moreover have "panicked (renewLease e from t)"
    using a assms(4) t(2) by (simp add: renewLease_def persistAgent_def w put_agent_def)
  moreover have "panicked (requestStop t)" using f[of t] t(2) by (simp add: requestStop_def Let_def)
  ultimately show ?thesis using t w by simp
qed

definition next_write :: "writeOp \<Rightarrow> state \<Rightarrow> bool" where
  "next_write w s \<longleftrightarrow> alive s \<and> (\<exists>ws. writes s = w # ws)"

lemma next_write_enqueue [simp]: "next_write w s \<Longrightarrow> next_write w (enqueueWrite p c m s)"
  by (auto simp: next_write_def) (auto simp: alive_def enqueueWrite_writes)

lemma enqueue_next:
  assumes "alive s" "writes s = []"
  shows "\<exists>w. wo_relPath w = p \<and> wo_content w = c \<and> next_write w (enqueueWrite p c m s)"
  using assms alive_enqueueWrite[OF assms(1), of p c m]
  by (intro exI[of _ "new_op p c m s"]) (auto simp: next_write_def alive_def enqueueWrite_writes)

lemma next_write_prims [simp]:
  "next_write w (put_room n r s) = next_write w s" "next_write w (put_channel k c s) = next_write w s"
  "next_write w (send ch v s) = next_write w s" "next_write w (unindexAgent i s) = next_write w s"
  "next_write w (s\<lparr>anyWaiter := x\<rparr>) = next_write w s" "next_write w (removeAgentFile i s) = next_write w s"
  "next_write w (removeKey n s) = next_write w s"
  by (auto simp: next_write_def alive_def unindexAgent_def removeAgentFile_def removeKey_def Let_def split: option.split)

lemma next_write_unregister: "next_write w s \<Longrightarrow> next_write w (snd (opUnregister e req s))"
proof -
  have r: "next_write w s \<Longrightarrow> next_write w (release_all ns why s)" for ns why s
    unfolding release_all_def
    by (intro fold_keeps[where P = "next_write w"]) (simp_all add: releaseWaiter_def split: option.split)
  have v: "next_write w s \<Longrightarrow> next_write w (evict_rooms ns s)" for ns s
    unfolding evict_rooms_def
    by (intro fold_keeps[where P = "next_write w"])
      (simp_all add: persistRoomMembers_def Let_def split: option.split prod.split)
  show "next_write w s \<Longrightarrow> next_write w (snd (opUnregister e req s))"
    by (simp add: opUnregister_def Let_def r v split: option.split prod.split)
qed

text \<open>C38: Unregistering is undone by the writer. The dispatcher renews the caller's lease before the handler
  runs, so a write of the registry record is still queued when the handler deletes the file: the next
  turn of an idle writer puts the record of the agent that has gone back on disk.\<close>

theorem unregister_resurrects:
  assumes "daemon_inv s" "alive s" "writes s = []" "id_ok (ag_AgentID a)"
    "Op req = ''unregister''" "strVal (Args req) ''from'' = from" "agentByName s from = Some a" "from \<noteq> []"
    "auth_gate e req s = None" "busy_with from s = None" "dispatch e req s = (Done r, t)" "u = runWriter IOok t"
  shows "OK r \<and> agentByName t from = None \<and> map_of (files t) (agent_path (ag_AgentID a)) = None
    \<and> agentByName u from = None \<and> map_of (files u) (agent_path (ag_AgentID a)) = Some (AgentFile (renewed e a))"
proof -
  let ?s = "renewLease e from s" and ?a = "renewed e a"
  have wf: "wf_registry s" using assms(1) by (rule daemon_invD)
  have a: "map_of (agents s) (ag_AgentID a) = Some a" "map_of (nameIdx s) from = Some (ag_AgentID a)"
    using wf assms(7) agentByName_iff wf_registryD(4) by metis+
  have t: "opUnregister e req ?s = (r, t)"
    using assms(5,6,9,11) by (cases "opUnregister e req ?s") (simp add: dispatch_def run_op_def answer_def)
  obtain w where w: "wo_relPath w = agent_path (ag_AgentID a)" "wo_content w = AgentFile ?a" "next_write w ?s"
    using enqueue_next[of "put_agent ?a s" "agent_path (ag_AgentID a)" "AgentFile ?a"] assms(2,3,7,8)
    by (auto simp: renewLease_def persistAgent_def put_agent_def alive_def)
  have nm: "agentByName ?s from = Some ?a"
    by (simp add: renewLease_def agentByName_def a(2) assms(7)[unfolded agentByName_def a(2) option.case] assms(8))
  have busy: "busy_with from ?s = None" using assms(10) by (simp add: busy_with_def)
  note acc = opUnregister_accepted[OF nm busy assms(8,6), of e]
  have 1: "OK r" and files: "map_of (files t) (agent_path (ag_AgentID a)) = None"
    using t acc by (auto simp: removeAgentFile_def removeKey_def)
  have "agentByName t = agentByName (unindexAgent (ag_AgentID a) ?s)"
    using t acc by (intro agentByName_cong) (auto simp: removeKey_def)
  then have 2: "agentByName t from = None" using unindexed[OF renewLease_wf[OF wf] nm] by simp
  have "next_write w t" using next_write_unregister[OF w(3), of e req] t by simp
  then have u: "files u = AList.update (clean (wo_relPath w)) (wo_content w) (files t)"
    by (auto simp: assms(12) runWriter_def next_write_def alive_def reaches_disk_def commitWrite_files)
  have "agentByName u = agentByName t" using runWriter_frame(1)[of t IOok]
    by (intro agentByName_cong) (simp_all add: assms(12) books_same_def)
  moreover have "clean (agent_path (ag_AgentID a)) = agent_path (ag_AgentID a)"
  proof -
    have "plain_elem (ag_AgentID a @ ''.json'')" using assms(4) by (intro plain_suffixed) (auto simp: id_ok_def)
    then show ?thesis using clean_plain[of "[''registry'', ag_AgentID a @ ''.json'']"]
      by (simp add: agent_path_def pathJoin_plain plain_elem_def)
  qed
  ultimately show ?thesis using 1 2 files u w by simp
qed

end
