(* ===== verification/Client.thy ===== *)
theory Client
  imports Daemon
begin

text \<open>
  The command line (\<^verbatim>\<open>client.go\<close>, \<^verbatim>\<open>main.go\<close>): flags and positional
  arguments, the requests each command sends, what it prints of the answer, and its exit code. A
  command is a tree of calls to the daemon; \<open>drive\<close> runs it against the daemon's state, signing
  each call with the caller's key file.

  Prompts and help texts are arguments, and so are the bytes of files and the JSON parser; the
  dialling and spawning of the daemon is left out.
\<close>

section \<open>Flags\<close>

fun parseFlag :: "string list \<Rightarrow> string \<Rightarrow> string" where
  "parseFlag (a # b # rest) name = (if a = name then b else parseFlag (b # rest) name)"
| "parseFlag _ name = []"

definition parseBoolFlag :: "string list \<Rightarrow> string \<Rightarrow> bool" where
  "parseBoolFlag args name \<longleftrightarrow> name \<in> set args"

definition parseIntFlag :: "string list \<Rightarrow> string \<Rightarrow> int \<Rightarrow> int" where
  "parseIntFlag args name dflt =
     (let v = parseFlag args name
      in if v = [] then dflt
         else case atoi v of None \<Rightarrow> dflt | Some n \<Rightarrow> if n < 0 then dflt else n)"

fun positionals :: "string list \<Rightarrow> string list \<Rightarrow> bool \<Rightarrow> bool \<Rightarrow> string list \<Rightarrow> string list" where
  \<comment> \<open>the loop; the flags are \<^verbatim>\<open>skipNext\<close> and \<^verbatim>\<open>stopFlags\<close>\<close>
  "positionals bools vals skip stop [] = []"
| "positionals bools vals skip stop (a # args) =
     (if skip then positionals bools vals False stop args
      else if stop then a # positionals bools vals False True args
      else if a = ''--'' then positionals bools vals False True args
      else if a \<in> set bools then positionals bools vals False False args
      else if a \<in> set vals then positionals bools vals True False args
      else a # positionals bools vals False False args)"

definition positionalArgs :: "string list \<Rightarrow> string list \<Rightarrow> string list \<Rightarrow> string list" where
  "positionalArgs args boolFlags valueFlags = positionals boolFlags valueFlags False False args"

section \<open>Printing JSON values\<close>

definition runeCount :: "string \<Rightarrow> nat" where
  \<comment> \<open>of valid UTF-8\<close>
  "runeCount s = length (filter (\<lambda>c. \<not> (128 \<le> (of_char c :: nat) \<and> (of_char c :: nat) < 192)) s)"

definition padTo :: "nat \<Rightarrow> string \<Rightarrow> string" where
  \<comment> \<open>a width with the minus flag\<close>
  "padTo w s = s @ replicate (w - runeCount s) (CHR '' '')"

definition goFloat :: "int \<Rightarrow> string" where
  \<comment> \<open>\<^verbatim>\<open>%v\<close> of a \<^verbatim>\<open>float64\<close> with an integral value: an exponent from six digits up\<close>
  "goFloat i =
     (if \<bar>i\<bar> < 10 ^ 6 then itoa i
      else let ds = itoaN (nat \<bar>i\<bar>); m = trimRight ds (CHR ''0'')
        in (if i < 0 then ''-'' else []) @ take 1 m @ (if tl m = [] then [] else CHR ''.'' # tl m)
           @ ''e+'' @ padLeft 2 (itoaN (length ds - 1)))"

fun fmt_json :: "bool \<Rightarrow> nat \<Rightarrow> json \<Rightarrow> string" where
  \<comment> \<open>a value inside another: \<^verbatim>\<open>%s\<close> or \<^verbatim>\<open>%v\<close>, and a width\<close>
  "fmt_json isS w JNull = ''<nil>''"
| "fmt_json isS w (JBool b) =
     (let t = padTo w (if b then ''true'' else ''false'') in if isS then ''%!s(bool='' @ t @ '')'' else t)"
| "fmt_json isS w (JNum i) = (let t = padTo w (goFloat i) in if isS then ''%!s(float64='' @ t @ '')'' else t)"
| "fmt_json isS w (JStr s) = padTo w s"
| "fmt_json isS w (JArr xs) = ''['' @ joinWith '' '' (map (fmt_json isS w) xs) @ '']''"
| "fmt_json isS w (JObj ms) = ''map['' @ joinWith '' ''
     (map (\<lambda>(k, t). padTo w k @ '':'' @ t) (sort_key fst (map (\<lambda>(k, v). (k, fmt_json isS w v)) ms))) @ '']''"

definition fmtS :: "nat \<Rightarrow> json \<Rightarrow> string" where
  \<comment> \<open>\<^verbatim>\<open>%-ws\<close>\<close>
  "fmtS w v = (if v = JNull then ''%!s(<nil>)'' else fmt_json True w v)"

definition fmtV :: "json \<Rightarrow> string" where
  "fmtV v = fmt_json False 0 v"

definition jget :: "(string, json) gomap \<Rightarrow> string \<Rightarrow> json" where
  \<comment> \<open>indexing a \<^verbatim>\<open>map[string]any\<close>\<close>
  "jget m k = get_or JNull m k"

definition str_of :: "json \<Rightarrow> string" where
  \<comment> \<open>\<^verbatim>\<open>s, _ := v.(string)\<close>\<close>
  "str_of v = (case v of JStr s \<Rightarrow> s | _ \<Rightarrow> [])"

definition arr_of :: "json \<Rightarrow> json list" where
  "arr_of v = (case v of JArr xs \<Rightarrow> xs | _ \<Rightarrow> [])"

definition obj_of :: "json \<Rightarrow> (string, json) gomap option" where
  "obj_of v = (case v of JObj m \<Rightarrow> Some m | _ \<Rightarrow> None)"

definition line :: "string \<Rightarrow> string" where "line s = s @ [nl]"

section \<open>Commands as trees of calls\<close>

datatype diag = Say string | ShowContext "(string, json) gomap"  \<comment> \<open>a line of the error output\<close>

datatype prog =
    Exit int string "diag list"   \<comment> \<open>exit code, output, error output\<close>
  | Crash                         \<comment> \<open>a type assertion fails\<close>
  | Call string "(string, json) gomap" "string + response \<Rightarrow> prog"

definition usage :: "string \<Rightarrow> prog" where
  "usage text = Exit 1 [] [Say text]"

definition decodeErrorDetail :: "json option \<Rightarrow> errorDetail option" where
  "decodeErrorDetail data =
     (case data of Some (JObj m) \<Rightarrow>
         (case map_of m ''error'' of Some (JObj raw) \<Rightarrow>
             Some \<lparr>ed_Code = numVal raw ''code'', ed_Reason = strVal raw ''reason'',
                   ed_RetryHint = strVal raw ''retry_hint'',
                   ed_Context = (case map_of raw ''context'' of Some (JObj c) \<Rightarrow> c | _ \<Rightarrow> [])\<rparr>
           | _ \<Rightarrow> None)
       | _ \<Rightarrow> None)"

definition exit_code :: "response \<Rightarrow> int" where
  "exit_code r =
     (let code = Code r;
          code = (if code = 0 then (case decodeErrorDetail (Data r) of None \<Rightarrow> code | Some d \<Rightarrow> ed_Code d) else code)
      in if code = 0 then 1 else code)"

definition error_lines :: "response \<Rightarrow> diag list" where
  "error_lines r =
     (let d = decodeErrorDetail (Data r)
      in (if Error r \<noteq> [] then [Say (Error r)]
          else case d of Some x \<Rightarrow> if ed_Reason x \<noteq> [] then [Say (ed_Reason x)] else [] | None \<Rightarrow> [])
       @ (case d of None \<Rightarrow> []
          | Some x \<Rightarrow> (if ed_Reason x \<noteq> [] \<and> ed_Reason x \<noteq> Error r then [Say (''reason: '' @ ed_Reason x)] else [])
              @ (if ed_RetryHint x \<noteq> [] then [Say (''hint: '' @ ed_RetryHint x)] else [])
              @ (if ed_Context x \<noteq> [] then [ShowContext (ed_Context x)] else [])))"

definition handle :: "string + response \<Rightarrow> (json \<Rightarrow> prog) \<Rightarrow> prog" where
  \<comment> \<open>no callback is the one that prints nothing\<close>
  "handle res ok =
     (case res of
        Inl err \<Rightarrow> Exit 1 [] [Say err]
      | Inr r \<Rightarrow>
          if \<not> OK r then Exit (exit_code r) [] (error_lines r)
          else case Data r of None \<Rightarrow> Exit 0 [] [] | Some JNull \<Rightarrow> Exit 0 [] [] | Some d \<Rightarrow> ok d)"

definition quiet :: "json \<Rightarrow> prog" where "quiet d = Exit 0 [] []"

definition prints :: "string \<Rightarrow> prog" where "prints out = Exit 0 out []"

definition with_obj :: "((string, json) gomap \<Rightarrow> prog) \<Rightarrow> json \<Rightarrow> prog" where
  \<comment> \<open>\<^verbatim>\<open>m := data.(map[string]any)\<close>\<close>
  "with_obj k d = (case obj_of d of None \<Rightarrow> Crash | Some m \<Rightarrow> k m)"

fun each_obj :: "((string, json) gomap \<Rightarrow> string) \<Rightarrow> json list \<Rightarrow> string option" where
  \<comment> \<open>one text per row; \<open>None\<close> when a row is not an object\<close>
  "each_obj f [] = Some []"
| "each_obj f (x # xs) = (case (obj_of x, each_obj f xs) of
      (Some m, Some out) \<Rightarrow> Some (f m @ out) | _ \<Rightarrow> None)"

definition print_rows :: "string \<Rightarrow> ((string, json) gomap \<Rightarrow> string) \<Rightarrow> json list \<Rightarrow> prog" where
  "print_rows head f rows = (case each_obj f rows of None \<Rightarrow> Crash | Some out \<Rightarrow> prints (head @ out))"

definition printBody :: "json \<Rightarrow> string" where
  "printBody v = (case v of JStr s \<Rightarrow> if s = [] \<or> last s \<noteq> nl then s @ [nl] else s | _ \<Rightarrow> [])"

definition show_message :: "(string, json) gomap \<Rightarrow> string" where
  "show_message m = line (''['' @ fmtV (jget m ''seq'') @ '' '' @ fmtV (jget m ''ts'') @ '' '' @ fmtV (jget m ''from'')
     @ ''] '' @ fmtV (jget m ''body''))"

definition printRoomMessages :: "json \<Rightarrow> string" where
  "printRoomMessages v = concat (map (\<lambda>item. case obj_of item of None \<Rightarrow> []
     | Some m \<Rightarrow> if str_of (jget m ''type'') = ''notice'' \<or> jget m ''notice'' = JBool True
         then line (''[notice] '' @ fmtV (jget m ''body'')) else show_message m) (arr_of v))"

section \<open>The caller\<close>

record client =
  cl_probe :: probe                                                     \<comment> \<open>environment and git\<close>
  cl_pid :: int
  cl_read :: "string option \<Rightarrow> string + string"                          \<comment> \<open>a file, or standard input\<close>
  cl_json :: "string \<Rightarrow> string + (string, json) gomap option"           \<comment> \<open>\<^verbatim>\<open>json.Unmarshal\<close> into a map\<close>
  cl_prompt :: "string \<Rightarrow> string"                                        \<comment> \<open>the embedded prompt of a role\<close>
  cl_keyErr :: "string \<Rightarrow> string"                                        \<comment> \<open>the error of loading a key\<close>

definition callerName :: "client \<Rightarrow> string list \<Rightarrow> string" where
  "callerName c args = or_else (parseFlag args ''--as'') (pr_env (cl_probe c) ''LALIA_NAME'')"

definition with_caller :: "client \<Rightarrow> string list \<Rightarrow> (string \<Rightarrow> prog) \<Rightarrow> prog" where
  \<comment> \<open>\<^verbatim>\<open>mustCaller\<close>\<close>
  "with_caller c args k =
     (let from = callerName c args
      in if from = [] then Exit 1 [] [Say ''caller identity required (LALIA_NAME or --as)''] else k from)"

definition strs :: "(string \<times> string) list \<Rightarrow> (string, json) gomap" where
  "strs kvs = map (\<lambda>(k, v). (k, JStr v)) kvs"

section \<open>Registering and listing\<close>

definition asked_info :: "string list \<Rightarrow> agentInfo" where
  \<comment> \<open>what the flags override\<close>
  "asked_info args = \<lparr>in_Harness = parseFlag args ''--harness'', in_Model = parseFlag args ''--model'',
     in_Project = parseFlag args ''--project'', in_RepoURL = [], in_RepoRoot = [], in_MainRepoRoot = [],
     in_WorktreeKind = [], in_Worktree = [], in_Branch = [], in_CWD = []\<rparr>"

definition register_args :: "client \<Rightarrow> string list \<Rightarrow> (string, json) gomap" where
  "register_args c args =
     (let role = parseFlag args ''--role'';
          info = DetectAgentInfo (cl_probe c) (asked_info args);
          name = or_else (parseFlag args ''--name'') (or_else (pr_env (cl_probe c) ''LALIA_NAME'') (SuggestAgentName info role))
      in (''name'', JStr name) # (''pid'', JNum (cl_pid c)) #
         strs (filter (\<lambda>(k, v). v \<noteq> [])
           [(''role'', role), (''harness'', in_Harness info), (''model'', in_Model info), (''project'', in_Project info),
            (''repo_url'', in_RepoURL info), (''repo_root'', in_RepoRoot info), (''main_repo_root'', in_MainRepoRoot info),
            (''worktree_kind'', in_WorktreeKind info), (''worktree'', in_Worktree info), (''branch'', in_Branch info),
            (''cwd'', in_CWD info)]))"

definition goPrint :: "json \<Rightarrow> string" where
  \<comment> \<open>\<^verbatim>\<open>fmt.Println\<close> of one value\<close>
  "goPrint v = line (fmtV v)"

definition cmdRegister :: "client \<Rightarrow> string list \<Rightarrow> prog" where
  "cmdRegister c args = Call ''register'' (register_args c args) (\<lambda>r. handle r (with_obj (\<lambda>m. prints (goPrint (jget m ''name'')))))"

definition cmdSuggestName :: "client \<Rightarrow> string list \<Rightarrow> prog" where
  "cmdSuggestName c args =
     prints (line (SuggestAgentName (DetectAgentInfo (cl_probe c) (asked_info args)) (parseFlag args ''--role'')))"

definition cmdUnregister :: "client \<Rightarrow> string list \<Rightarrow> prog" where
  "cmdUnregister c args = with_caller c args (\<lambda>from. Call ''unregister'' (strs [(''from'', from)]) (\<lambda>r. handle r
     (\<lambda>d. case obj_of d of None \<Rightarrow> quiet d
        | Some m \<Rightarrow> if jget m ''name'' = JNull then quiet d else prints (goPrint (jget m ''name'')))))"

definition cmdRoomsGC :: "client \<Rightarrow> string list \<Rightarrow> prog" where
  "cmdRoomsGC c args = with_caller c args (\<lambda>from. Call ''rooms_gc'' (strs [(''from'', from)]) (\<lambda>r. handle r
     (\<lambda>d. let rows = (case obj_of d of None \<Rightarrow> [] | Some m \<Rightarrow> arr_of (jget m ''archived''))
         in if rows = [] then prints (line ''no merged rooms to archive'')
            else print_rows [] (\<lambda>m. line (''archived slug='' @ fmtS 0 (jget m ''slug'') @ '' project='' @ fmtS 0 (jget m ''project''))) rows)))"

definition cmdRooms :: "client \<Rightarrow> string list \<Rightarrow> prog" where
  "cmdRooms c args =
     (if args \<noteq> [] \<and> hd args = ''gc'' then cmdRoomsGC c (tl args)
      else with_caller c args (\<lambda>from. Call ''rooms'' (strs [(''from'', from)]) (\<lambda>r. handle r
        (\<lambda>d. print_rows [] (\<lambda>m. line (fmtS 0 (jget m ''name'') @ [CHR 0x09] @ ''members='' @ fmtV (jget m ''members'')
               @ [CHR 0x09] @ ''messages='' @ fmtV (jget m ''messages'')
               @ (if jget m ''archived'' = JBool True then CHR 0x09 # ''archived'' else []))) (arr_of d)))))"

section \<open>Rooms and messages\<close>

definition cmdRoom :: "client \<Rightarrow> string list \<Rightarrow> prog" where
  "cmdRoom c args =
     (let pos = positionalArgs args [] [''--as'', ''--desc'']; how = ''usage: lalia room create <name> [--desc <text>]''
      in if length pos < 1 then usage how
         else if pos ! 0 = ''create'' then
           if length pos < 2 then usage how
           else with_caller c args (\<lambda>from. Call ''room_create''
             (strs [(''from'', from), (''name'', pos ! 1), (''desc'', parseFlag args ''--desc'')])
             (\<lambda>r. handle r (with_obj (\<lambda>m. prints (goPrint (jget m ''name''))))))
         else usage (''unknown room subcommand: '' @ pos ! 0))"

definition room_command :: "string \<Rightarrow> ((string, json) gomap \<Rightarrow> prog) option \<Rightarrow> client \<Rightarrow> string list \<Rightarrow> prog" where
  \<comment> \<open>\<^verbatim>\<open>join\<close>, \<^verbatim>\<open>leave\<close> and \<^verbatim>\<open>participants\<close>: one positional argument, a room\<close>
  "room_command op show c args =
     (let pos = positionalArgs args [] [''--as'']
      in if length pos < 1 then usage (''usage: lalia '' @ op @ '' <room>'')
         else with_caller c args (\<lambda>from. Call op (strs [(''from'', from), (''room'', pos ! 0)])
           (\<lambda>r. handle r (case show of None \<Rightarrow> quiet | Some f \<Rightarrow> with_obj f))))"

definition cmdJoin :: "client \<Rightarrow> string list \<Rightarrow> prog" where
  "cmdJoin = room_command ''join'' None"

definition cmdLeave :: "client \<Rightarrow> string list \<Rightarrow> prog" where
  "cmdLeave = room_command ''leave'' None"

definition cmdParticipants :: "client \<Rightarrow> string list \<Rightarrow> prog" where
  "cmdParticipants = room_command ''participants'' (Some (\<lambda>m. print_rows []
     (\<lambda>p. line (fmtS 0 (jget p ''name'') @ [CHR 0x09] @ ''pending='' @ fmtV (jget p ''pending'')
        @ [CHR 0x09] @ ''dropped='' @ fmtV (jget p ''dropped''))) (arr_of (jget m ''members''))))"

definition cmdPost :: "client \<Rightarrow> string list \<Rightarrow> prog" where
  "cmdPost c args =
     (let pos = positionalArgs args [] [''--as'']
      in if length pos < 2 then usage ''usage: lalia post <room> <msg>''
         else with_caller c args (\<lambda>from. Call ''post'' (strs [(''from'', from), (''room'', pos ! 0), (''body'', pos ! 1)])
           (\<lambda>r. handle r (with_obj (\<lambda>m.
              prints (line (''room='' @ fmtS 0 (jget m ''room'') @ '' seq='' @ fmtV (jget m ''seq''))))))))"

definition cmdTell :: "client \<Rightarrow> string list \<Rightarrow> prog" where
  "cmdTell c args =
     (let pos = positionalArgs args [] [''--as'']
      in if length pos < 2 then usage ''usage: lalia tell <peer> <msg>''
         else with_caller c args (\<lambda>from. Call ''tell'' (strs [(''from'', from), (''peer'', pos ! 0), (''body'', pos ! 1)])
           (\<lambda>r. handle r (with_obj (\<lambda>m.
              prints (line (''seq='' @ fmtV (jget m ''seq'') @ '' peer='' @ fmtV (jget m ''peer''))))))))"

definition cmdAsk :: "client \<Rightarrow> string list \<Rightarrow> prog" where
  "cmdAsk c args =
     (let pos = positionalArgs args [] [''--as'', ''--timeout'']; timeout = parseIntFlag args ''--timeout'' 300
      in if length pos < 2 then usage ''usage: lalia ask <peer> <msg> [--timeout N]''
         else with_caller c args (\<lambda>from.
           Call ''tell'' (strs [(''from'', from), (''peer'', pos ! 0), (''body'', pos ! 1)])
             (\<lambda>told. if (case told of Inl err \<Rightarrow> True | Inr r \<Rightarrow> \<not> OK r) then handle told quiet
                else Call ''read'' ((''timeout'', JNum timeout) # strs [(''from'', from), (''peer'', pos ! 0)])
                  (\<lambda>r. handle r (\<lambda>d.
                     case obj_of d of
                       None \<Rightarrow> Exit 2 [] [Say (''timeout: no reply from '' @ pos ! 0)]
                     | Some m \<Rightarrow> if jget m ''body'' = JNull then Exit 2 [] [Say (''timeout: no reply from '' @ pos ! 0)]
                         else prints (printBody (jget m ''body'')))))))"

definition target_arg :: "string list \<Rightarrow> string \<Rightarrow> string \<times> string" where
  "target_arg args target = (if parseBoolFlag args ''--room'' then ''room'' else ''peer'', target)"

definition show_read :: "json \<Rightarrow> prog" where
  "show_read d =
     (case obj_of d of None \<Rightarrow> quiet d
      | Some m \<Rightarrow> if map_of m ''room'' \<noteq> None then prints (printRoomMessages (jget m ''messages''))
                 else if jget m ''body'' = JNull then quiet d
                 else prints (printBody (jget m ''body'')))"

definition cmdRead :: "client \<Rightarrow> string list \<Rightarrow> prog" where
  "cmdRead c args =
     (let pos = positionalArgs args [''--room''] [''--as'', ''--timeout''];
          timeout = parseIntFlag args ''--timeout'' 300
      in if length pos < 1 then usage ''usage: lalia read <peer|room> [--room] [--timeout N]''
         else with_caller c args (\<lambda>from.
           Call ''read'' ((''timeout'', JNum timeout) # strs [(''from'', from), target_arg args (pos ! 0)])
             (\<lambda>r. handle r show_read)))"

definition cmdPeek :: "client \<Rightarrow> string list \<Rightarrow> prog" where
  "cmdPeek c args =
     (let pos = positionalArgs args [''--room''] [''--as'']
      in if length pos < 1 then usage ''usage: lalia peek <peer|room> [--room]''
         else with_caller c args (\<lambda>from.
           Call ''peek'' (strs [(''from'', from), target_arg args (pos ! 0)])
             (\<lambda>r. handle r (\<lambda>d.
                case obj_of d of None \<Rightarrow> quiet d
                | Some m \<Rightarrow>
                    if map_of m ''room'' \<noteq> None then prints (printRoomMessages (JArr (arr_of (jget m ''messages''))))
                    else prints (concat (map (\<lambda>item. show_message (case obj_of item of None \<Rightarrow> [] | Some mm \<Rightarrow> mm))
                           (arr_of (jget m ''messages''))))))))"

definition cmdReadAny :: "client \<Rightarrow> string list \<Rightarrow> prog" where
  "cmdReadAny c args = with_caller c args (\<lambda>from.
     Call ''read-any'' [(''from'', JStr from), (''timeout'', JNum (parseIntFlag args ''--timeout'' 300))]
       (\<lambda>r. handle r (with_obj (\<lambda>m.
          prints (line (fmtS 0 (jget m ''kind'') @ ''='' @ fmtS 0 (jget m ''target'')) @ printBody (jget m ''body''))))))"

definition cmdChannels :: "client \<Rightarrow> string list \<Rightarrow> prog" where
  "cmdChannels c args = with_caller c args (\<lambda>from. Call ''channels'' (strs [(''from'', from)])
     (\<lambda>r. handle r (\<lambda>d. print_rows [] (\<lambda>m. line (''peer='' @ fmtS 0 (jget m ''peer'') @ [CHR 0x09]
        @ ''pending='' @ fmtV (jget m ''pending_for_me'') @ [CHR 0x09] @ ''msgs='' @ fmtV (jget m ''msg_count''))) (arr_of d))))"

definition cmdHistory :: "client \<Rightarrow> string list \<Rightarrow> prog" where
  "cmdHistory c args =
     (let pos = positionalArgs args [''--room''] [''--as'', ''--since'', ''--limit'']
      in if length pos < 1 then usage ''usage: lalia history <peer|room> [--room] [--since N] [--limit N]''
         else with_caller c args (\<lambda>from.
           Call ''history'' ([(''since'', JNum (parseIntFlag args ''--since'' 0)), (''limit'', JNum (parseIntFlag args ''--limit'' 0))]
               @ strs [(''from'', from), target_arg args (pos ! 0)])
             (\<lambda>r. handle r (with_obj (\<lambda>m.
                print_rows (line (if map_of m ''room'' \<noteq> None then ''room='' @ fmtS 0 (jget m ''room'')
                                  else ''peer='' @ fmtS 0 (jget m ''peer'')))
                  show_message (arr_of (jget m ''messages'')))))))"

section \<open>Tasks\<close>

definition blank :: "json \<Rightarrow> bool" where
  \<comment> \<open>\<^verbatim>\<open>v == nil || v == ""\<close>\<close>
  "blank v \<longleftrightarrow> v = JNull \<or> v = JStr []"

definition if_blank :: "string \<Rightarrow> string \<Rightarrow> (string, json) gomap \<Rightarrow> (string, json) gomap" where
  "if_blank k v m = (if blank (jget m k) then AList.update k (JStr v) m else m)"

definition show_publish :: "(string, json) gomap \<Rightarrow> prog" where
  "show_publish m =
     (let oks = arr_of (jget m ''ok''); fails = arr_of (jget m ''failed'')
      in case (each_obj (\<lambda>r. line (''  slug='' @ fmtS 0 (jget r ''slug'') @ '' worktree='' @ fmtV (jget r ''worktree'')
                 @ '' noop='' @ fmtV (jget r ''noop'') @ '' created='' @ fmtV (jget r ''created_worktree''))) oks,
               each_obj (\<lambda>r. line (''  slug='' @ fmtS 0 (jget r ''slug'') @ '' error='' @ fmtS 0 (jget r ''error''))) fails) of
           (Some a, Some b) \<Rightarrow>
             prints (line (''project='' @ fmtS 0 (jget m ''project'') @ '' repo_root='' @ fmtS 0 (jget m ''repo_root''))
               @ (if oks = [] then [] else line ''ok:'' @ a) @ (if fails = [] then [] else line ''failed:'' @ b))
         | _ \<Rightarrow> Crash)"

definition task_publish :: "client \<Rightarrow> string list \<Rightarrow> string \<Rightarrow> agentInfo \<Rightarrow> string \<Rightarrow> prog" where
  "task_publish c args proj info from =
     (let path = parseFlag args ''--file''
      in case cl_read c (if path = [] \<or> path = ''-'' then None else Some path) of
           Inl err \<Rightarrow> usage (''read publish payload: '' @ err)
         | Inr raw \<Rightarrow>
             (case cl_json c raw of
                Inl err \<Rightarrow> usage (''parse publish payload: '' @ err)
              | Inr None \<Rightarrow> Crash  \<comment> \<open>assignment to an entry of a nil map\<close>
              | Inr (Some payload) \<Rightarrow>
                  Call ''task_publish'' (AList.update ''from'' (JStr from)
                      (if_blank ''repo_root'' (in_RepoRoot info) (if_blank ''project'' proj payload)))
                    (\<lambda>r. handle r (with_obj show_publish))))"

definition show_bulletin :: "(string, json) gomap \<Rightarrow> prog" where
  "show_bulletin m =
     (let rows = arr_of (jget m ''tasks'')
      in if rows = [] then prints (line (''no open tasks in project='' @ fmtS 0 (jget m ''project'')))
         else print_rows [] (\<lambda>a.
           line (''slug='' @ fmtS 24 (jget a ''slug'') @ '' branch='' @ fmtS 24 (jget a ''branch'')
             @ '' status='' @ fmtS 0 (jget a ''status'') @ '' has_context='' @ fmtV (jget a ''has_context''))
           @ (if str_of (jget a ''brief_summary'') = [] then [] else line (''  '' @ str_of (jget a ''brief_summary'')))
           @ (if arr_of (jget a ''owned_paths'') = [] then []
              else line (''  owned: '' @ joinWith '', '' (map str_of (arr_of (jget a ''owned_paths'')))))) rows)"

definition show_claim :: "(string, json) gomap \<Rightarrow> prog" where
  "show_claim m = prints
     (line (''claimed slug='' @ fmtS 0 (jget m ''slug'') @ '' owner='' @ fmtS 0 (jget m ''owner'')
        @ '' status='' @ fmtS 0 (jget m ''status'') @ '' worktree='' @ fmtV (jget m ''worktree''))
      @ (case obj_of (jget m ''bundle'') of None \<Rightarrow> []
         | Some b \<Rightarrow> line ''---'' @ line (''['' @ fmtV (jget b ''seq'') @ '' '' @ fmtV (jget b ''ts'') @ ''] '' @ fmtV (jget b ''from''))
             @ line (fmtV (jget b ''body'')) @ line ''---''))"

definition task_line :: "(string, json) gomap \<Rightarrow> string" where
  "task_line a = line (''  slug='' @ fmtS 24 (jget a ''slug'') @ '' owner='' @ fmtS 16 (jget a ''owner'')
     @ '' status='' @ fmtS 0 (jget a ''status''))"

definition list_text :: "(string, json) gomap \<Rightarrow> string option" where
  "list_text m = map_option (\<lambda>out. line (''project='' @ fmtS 0 (jget m ''project_id'') @ '' supervisor='' @ fmtS 0 (jget m ''supervisor'')) @ out)
     (each_obj task_line (arr_of (jget m ''tasks'')))"

fun lists_text :: "json list \<Rightarrow> string option" where
  "lists_text [] = Some []"
| "lists_text (x # xs) = (case obj_of x of None \<Rightarrow> None | Some m \<Rightarrow>
      (case (list_text m, lists_text xs) of (Some a, Some b) \<Rightarrow> Some (a @ b) | _ \<Rightarrow> None))"

definition print_opt :: "string option \<Rightarrow> prog" where
  "print_opt t = (case t of None \<Rightarrow> Crash | Some out \<Rightarrow> prints out)"

definition show_task :: "string \<Rightarrow> (string, json) gomap \<Rightarrow> prog" where
  "show_task slug m =
     (if slug \<noteq> [] then prints
        (line (''slug='' @ fmtS 0 (jget m ''slug'') @ '' owner='' @ fmtS 0 (jget m ''owner'') @ '' status=''
           @ fmtS 0 (jget m ''status'') @ '' branch='' @ fmtV (jget m ''branch'') @ '' worktree='' @ fmtV (jget m ''worktree''))
         @ (if str_of (jget m ''brief'') = [] then []
            else line ''---'' @ line (str_of (jget m ''brief'')) @ line ''---''))
      else print_opt (list_text m))"

definition show_unpublish :: "(string, json) gomap \<Rightarrow> prog" where
  "show_unpublish m = prints (line
     (''unpublished slug='' @ fmtS 0 (jget m ''slug'') @ '' worktree_removed='' @ fmtV (jget m ''worktree_removed'')
      @ '' room_archived='' @ fmtV (jget m ''room_archived'')
      @ (if str_of (jget m ''worktree_preserved'') = [] then [] else '' worktree_preserved='' @ str_of (jget m ''worktree_preserved''))
      @ (if str_of (jget m ''worktree_remove_error'') = [] then []
         else '' remove_error='' @ goQuote (str_of (jget m ''worktree_remove_error'')))))"

definition slug_usage :: "string \<Rightarrow> prog" where
  "slug_usage rest = usage (''usage: lalia task '' @ rest @ '' [--project <id>]'')"

definition no_slug :: "string list \<Rightarrow> bool" where
  "no_slug pos \<longleftrightarrow> length pos < 2 \<or> pos ! 1 = []"

definition task_args :: "string \<Rightarrow> string \<Rightarrow> (string \<times> string) list \<Rightarrow> (string, json) gomap" where
  "task_args from proj extra = strs ([(''from'', from), (''project'', proj)] @ extra)"

definition task_command :: "client \<Rightarrow> string list \<Rightarrow> string list \<Rightarrow> string \<Rightarrow> agentInfo \<Rightarrow> string \<Rightarrow> prog" where
  \<comment> \<open>the subcommands\<close>
  "task_command c args pos proj info from =
     (let sub = pos ! 0; slug = pos ! 1;
          call = (\<lambda>op extra show. Call op (task_args from proj extra) (\<lambda>r. handle r (with_obj show)))
      in if sub = ''publish'' then task_publish c args proj info from
         else if sub = ''bulletin'' then call ''task_bulletin'' [] show_bulletin
         else if sub = ''claim'' then
           (if no_slug pos then slug_usage ''claim <slug>'' else call ''task_claim'' [(''slug'', slug)] show_claim)
         else if sub = ''set-status'' then
           (if length pos < 3 then slug_usage ''set-status <slug> <in-progress|ready|blocked|merged>''
            else call ''task_status'' [(''slug'', slug), (''status'', pos ! 2)]
              (\<lambda>m. prints (line (''slug='' @ fmtS 0 (jget m ''slug'') @ '' status='' @ fmtS 0 (jget m ''status'')))))
         else if sub = ''unassign'' then
           (if no_slug pos then slug_usage ''unassign <slug>''
            else call ''task_unassign'' [(''slug'', slug)]
              (\<lambda>m. prints (line (''unassigned slug='' @ fmtS 0 (jget m ''slug'') @ '' status='' @ fmtS 0 (jget m ''status'')))))
         else if sub = ''reassign'' then
           (if length pos < 3 then slug_usage ''reassign <slug> <agent>''
            else call ''task_reassign'' [(''slug'', slug), (''owner'', pos ! 2)]
              (\<lambda>m. prints (line (''reassigned slug='' @ fmtS 0 (jget m ''slug'') @ '' owner='' @ fmtS 0 (jget m ''owner'')
                 @ '' status='' @ fmtS 0 (jget m ''status'')))))
         else if sub = ''unpublish'' then
           (if no_slug pos then slug_usage ''unpublish <slug> [--force] [--wipe-worktree] [--evict-owner]''
            else Call ''task_unpublish'' (task_args from proj [(''slug'', slug)]
                   @ map (\<lambda>(k, f). (k, JBool (parseBoolFlag args f)))
                       [(''force'', ''--force''), (''wipe_worktree'', ''--wipe-worktree''), (''evict_owner'', ''--evict-owner'')])
                 (\<lambda>r. handle r (with_obj show_unpublish)))
         else if sub = ''show'' then
           (let slug = (if no_slug pos then [] else pos ! 1)
            in call ''task_show'' [(''slug'', slug)] (show_task slug))
         else if sub = ''list'' then
           Call ''task_list'' (strs [(''from'', from)]) (\<lambda>r. handle r (\<lambda>d. print_opt (lists_text (arr_of d))))
         else if sub = ''handoff'' then
           (if no_slug pos then slug_usage ''handoff <new-supervisor>''
            else call ''task_handoff'' [(''to'', slug)]
              (\<lambda>m. prints (line (''project='' @ fmtS 0 (jget m ''project'') @ '' new supervisor='' @ fmtS 0 (jget m ''supervisor'')))))
         else usage (''unknown task subcommand: '' @ sub))"

definition no_overrides :: agentInfo where
  "no_overrides = asked_info []"

definition cmdTask :: "client \<Rightarrow> string list \<Rightarrow> prog" where
  "cmdTask c args =
     (let pos = positionalArgs args [''--force'', ''--wipe-worktree'', ''--evict-owner''] [''--as'', ''--project'', ''--file''];
          info = DetectAgentInfo (cl_probe c) no_overrides
      in if length pos < 1 then usage ''usage: lalia task <publish|bulletin|claim|set-status|unassign|reassign|unpublish|show|list|handoff>''
         else with_caller c args (task_command c args pos
                (or_else (parseFlag args ''--project'') (projectID (in_RepoURL info) (in_Project info))) info))"

section \<open>The rest\<close>

definition cmdRenew :: "client \<Rightarrow> string list \<Rightarrow> prog" where
  "cmdRenew c args = with_caller c args (\<lambda>from. Call ''renew'' (strs [(''from'', from)])
     (\<lambda>r. handle r (with_obj (\<lambda>m. prints (line (''expires_at='' @ fmtS 0 (jget m ''expires_at'')))))))"

definition cmdStop :: prog where
  "cmdStop = Call ''stop'' [] (\<lambda>r. handle r quiet)"

definition promptForRole :: "client \<Rightarrow> string \<Rightarrow> string + string" where
  "promptForRole c role =
     (if role \<in> {''peer'', ''worker'', ''supervisor''} then Inr (cl_prompt c role)
      else Inl (''unknown role: '' @ role @ '' (expected peer, worker or supervisor)''))"

definition cmdPrompt :: "string \<Rightarrow> client \<Rightarrow> string list \<Rightarrow> prog" where
  \<comment> \<open>\<^verbatim>\<open>init\<close> and \<^verbatim>\<open>prompt\<close>\<close>
  "cmdPrompt command c args =
     (if length args \<noteq> 1 then usage (''usage: lalia '' @ command @ '' <peer|worker|supervisor>'')
      else case promptForRole c (args ! 0) of Inl err \<Rightarrow> usage err | Inr p \<Rightarrow> prints p)"

definition command :: "client \<Rightarrow> string \<Rightarrow> string list \<Rightarrow> prog option" where
  \<comment> \<open>the switch of \<^verbatim>\<open>main\<close>, for the commands modelled here\<close>
  "command c name args =
     (if name = ''register'' then Some (cmdRegister c args)
      else if name = ''suggest-name'' then Some (cmdSuggestName c args)
      else if name = ''unregister'' then Some (cmdUnregister c args)
      else if name = ''init'' then Some (cmdPrompt ''init'' c args)
      else if name = ''prompt'' then Some (cmdPrompt ''prompt'' c args)
      else if name = ''rooms'' then Some (cmdRooms c args)
      else if name = ''room'' then Some (cmdRoom c args)
      else if name = ''join'' then Some (cmdJoin c args)
      else if name = ''leave'' then Some (cmdLeave c args)
      else if name = ''participants'' then Some (cmdParticipants c args)
      else if name = ''post'' then Some (cmdPost c args)
      else if name = ''tell'' then Some (cmdTell c args)
      else if name = ''ask'' then Some (cmdAsk c args)
      else if name = ''read'' then Some (cmdRead c args)
      else if name = ''peek'' then Some (cmdPeek c args)
      else if name = ''read-any'' then Some (cmdReadAny c args)
      else if name = ''channels'' then Some (cmdChannels c args)
      else if name = ''history'' then Some (cmdHistory c args)
      else if name = ''task'' then Some (cmdTask c args)
      else if name = ''renew'' then Some (cmdRenew c args)
      else if name = ''stop'' then Some cmdStop
      else None)"

section \<open>Talking to the daemon\<close>

definition unsigned_ops :: "string list" where
  "unsigned_ops = [''register'', ''agents'', ''stop'']"

definition request_for :: "client \<Rightarrow> (string \<Rightarrow> json \<Rightarrow> string) \<Rightarrow> (string, string) gomap \<Rightarrow> string \<Rightarrow> (string, json) gomap \<Rightarrow> string + request" where
  \<comment> \<open>\<^verbatim>\<open>request\<close>, up to the connection: signed when it names a caller\<close>
  "request_for c sign ks op args =
     (let from = strVal args ''from''
      in if from \<noteq> [] \<and> op \<notin> set unsigned_ops then
           (case key_load ks from of
              None \<Rightarrow> Inl (''load key for '' @ from @ '': '' @ cl_keyErr c from)
            | Some priv \<Rightarrow> Inr \<lparr>Op = op, Args = AList.update ''sig'' (JStr (signRequest sign priv args)) args\<rparr>)
         else Inr \<lparr>Op = op, Args = args\<rparr>)"

datatype run =
    Finished int string "diag list"
  | Crashed
  | Waiting nat                    \<comment> \<open>for the answer of a blocked read\<close>

primrec drive :: "prog \<Rightarrow> client \<Rightarrow> (string \<Rightarrow> json \<Rightarrow> string) \<Rightarrow> env \<Rightarrow> state \<Rightarrow> run \<times> state" where
  "drive (Exit code out err) c sign e s = (Finished code out err, s)"
| "drive Crash c sign e s = (Crashed, s)"
| "drive (Call op args k) c sign e s =
     (case request_for c sign (keys s) op args of
        Inl err \<Rightarrow> drive (k (Inl err)) c sign e s
      | Inr req \<Rightarrow>
          (case dispatch e req s of
             (Done r, s') \<Rightarrow> drive (k (Inr r)) c sign e s'
           | (Blocks ch, s') \<Rightarrow> (Waiting ch, s')))"

section \<open>Flags and positional arguments\<close>

datatype seg = Word string | Switch string | Valued string string  \<comment> \<open>what a user types\<close>

fun typed :: "seg \<Rightarrow> string list" where
  "typed (Word w) = [w]"
| "typed (Switch f) = [f]"
| "typed (Valued f v) = [f, v]"

fun seg_ok :: "string list \<Rightarrow> string list \<Rightarrow> seg \<Rightarrow> bool" where
  "seg_ok bools vals (Word w) \<longleftrightarrow> w \<noteq> ''--'' \<and> w \<notin> set bools \<and> w \<notin> set vals"
| "seg_ok bools vals (Switch f) \<longleftrightarrow> f \<noteq> ''--'' \<and> f \<in> set bools \<and> f \<notin> set vals"
| "seg_ok bools vals (Valued f v) \<longleftrightarrow> f \<noteq> ''--'' \<and> f \<in> set vals \<and> f \<notin> set bools \<and> v \<notin> set bools \<and> v \<notin> set vals"

definition words :: "seg list \<Rightarrow> string list" where
  "words segs = concat (map (\<lambda>x. case x of Word w \<Rightarrow> [w] | _ \<Rightarrow> []) segs)"

definition values_of :: "string \<Rightarrow> seg list \<Rightarrow> string list" where
  "values_of f segs = concat (map (\<lambda>x. case x of Valued g v \<Rightarrow> if g = f then [v] else [] | _ \<Rightarrow> []) segs)"

definition first_of :: "string list \<Rightarrow> string" where
  "first_of vs = (case vs of [] \<Rightarrow> [] | v # _ \<Rightarrow> v)"

lemma parseFlag_skip: "a \<notin> set vals \<Longrightarrow> f \<in> set vals \<Longrightarrow> parseFlag (a # xs) f = parseFlag xs f"
  by (cases xs) auto

lemma positionals_typed:
  "list_all (seg_ok bools vals) segs \<Longrightarrow>
     positionals bools vals False False (concat (map typed segs)) = words segs"
proof (induction segs)
  case (Cons x segs)
  then show ?case by (cases x) (auto simp: words_def)
qed (simp add: words_def)

lemma parseFlag_typed:
  "list_all (seg_ok bools vals) segs \<Longrightarrow> f \<in> set vals \<Longrightarrow>
     parseFlag (concat (map typed segs)) f = first_of (values_of f segs)"
proof (induction segs)
  case (Cons x segs)
  then show ?case by (cases x) (auto simp: values_of_def first_of_def parseFlag_skip[of _ vals])
qed (simp add: values_of_def first_of_def)

lemma parseBoolFlag_typed:
  "list_all (seg_ok bools vals) segs \<Longrightarrow> f \<in> set bools \<Longrightarrow>
     parseBoolFlag (concat (map typed segs)) f \<longleftrightarrow> Switch f \<in> set segs"
proof (induction segs)
  case (Cons x segs)
  then show ?case by (cases x) (auto simp: parseBoolFlag_def)
qed (simp add: parseBoolFlag_def)

text \<open>Whatever order switches, flags with values and words are typed in, as long as none of the values
  looks like a flag, the parser reads back exactly what was typed: the words in order, the first value of
  each flag, and which switches are there.\<close>

theorem flags_read_back:
  assumes "list_all (seg_ok bools vals) segs" "args = concat (map typed segs)"
  shows "positionalArgs args bools vals = words segs
    \<and> (f \<in> set vals \<longrightarrow> parseFlag args f = first_of (values_of f segs))
    \<and> (g \<in> set bools \<longrightarrow> (parseBoolFlag args g \<longleftrightarrow> Switch g \<in> set segs))"
  using assms by (simp add: positionalArgs_def positionals_typed parseFlag_typed parseBoolFlag_typed)

text \<open>After \<^verbatim>\<open>--\<close> every argument is a word, and the flags among those words still count as flags.\<close>

lemma words_after_dashes_are_flags:
  assumes "who \<noteq> []" "peer \<noteq> ''--''" "peer \<noteq> ''--as''"
  shows "positionalArgs [peer, ''--'', ''--as'', who] [] [''--as''] = [peer, ''--as'', who]
    \<and> callerName c [peer, ''--'', ''--as'', who] = who"
  using assms by (simp add: positionalArgs_def callerName_def or_else_def)

section \<open>Exit codes\<close>

primrec fails :: "prog \<Rightarrow> bool" where
  \<comment> \<open>whatever the daemon answers, the exit code is not zero\<close>
  "fails (Exit code out err) \<longleftrightarrow> code \<noteq> 0"
| "fails Crash \<longleftrightarrow> True"
| "fails (Call op args k) \<longleftrightarrow> (\<forall>r. fails (k r))"

primrec honest :: "prog \<Rightarrow> bool" where
  \<comment> \<open>the exit code is zero only when every call was answered, and answered OK\<close>
  "honest (Exit code out err) \<longleftrightarrow> True"
| "honest Crash \<longleftrightarrow> True"
| "honest (Call op args k) \<longleftrightarrow> (\<forall>err. fails (k (Inl err))) \<and> (\<forall>r. if OK r then honest (k (Inr r)) else fails (k (Inr r)))"

named_theorems honesty \<open>commands do not hide failures\<close>

lemma exit_code_nonzero [simp]: "exit_code r \<noteq> 0"
  by (simp add: exit_code_def Let_def)

lemma fails_handle [simp]: "fails (handle (Inl err) k)" "\<not> OK r \<Longrightarrow> fails (handle (Inr r) k)"
  by (simp_all add: handle_def)

lemma honest_prints [simp]: "honest (prints out)" "honest (quiet d)" "honest (usage t)" "honest (print_rows h f rows)"
  "honest (print_opt o1)"
  by (simp_all add: prints_def quiet_def usage_def print_rows_def print_opt_def split: option.split)

lemma honest_if [honesty]: "honest a \<Longrightarrow> honest b \<Longrightarrow> honest (if P then a else b)"
  by simp

lemma honest_handle [honesty]: "(\<And>d. honest (k d)) \<Longrightarrow> honest (handle (Inr r) k)"
  by (auto simp: handle_def split: option.split json.split)

lemma honest_obj [honesty]: "(\<And>m. honest (k m)) \<Longrightarrow> honest (with_obj k d)"
  by (simp add: with_obj_def split: option.split)

lemma honest_call [honesty]: "(\<And>d. honest (k d)) \<Longrightarrow> honest (Call op args (\<lambda>r. handle r k))"
  by (auto intro: honest_handle)

lemma honest_caller [honesty]: "(\<And>from. honest (k from)) \<Longrightarrow> honest (with_caller c args k)"
  by (simp add: with_caller_def Let_def)

lemmas shows_defs = show_bulletin_def show_claim_def show_task_def show_unpublish_def show_read_def show_publish_def
  slug_usage_def

lemma honest_shows [simp]:
  "honest (show_bulletin m)" "honest (show_claim m)" "honest (show_task sl m)" "honest (show_unpublish m)"
  "honest (show_read d)" "honest (show_publish m)" "honest (slug_usage u)"
  by (simp_all add: shows_defs Let_def split: option.split)

lemma honest_task_publish [simp]: "honest (task_publish c args proj info from)"
  by (simp add: task_publish_def Let_def split: sum.split option.split del: honest.simps(3))
    (simp add: honest_call honest_obj del: honest.simps(3))

lemma honest_task_command [simp]: "honest (task_command c args pos proj info from)"
  unfolding task_command_def Let_def
  by (intro honesty) simp_all

lemma honest_ask: "honest (cmdAsk c args)"
proof -
  have "honest (handle (Inr r) k)" if "\<And>d. honest (k d)" for r k using that by (rule honest_handle)
  then show ?thesis
    unfolding cmdAsk_def Let_def
    by (intro honest_if honest_caller) (auto simp: prints_def split: option.split)
qed

lemma honest_room_command [simp]: "honest (room_command op show c args)" if "\<And>f m. show = Some f \<Longrightarrow> honest (f m)"
  unfolding room_command_def Let_def
  by (intro honesty) (use that in \<open>auto simp: honest_obj split: option.split\<close>)

lemma honest_commands:
  "honest (cmdRegister c args)" "honest (cmdSuggestName c args)" "honest (cmdUnregister c args)"
  "honest (cmdPrompt w c args)" "honest (cmdRooms c args)" "honest (cmdRoom c args)" "honest (cmdJoin c args)"
  "honest (cmdLeave c args)" "honest (cmdParticipants c args)" "honest (cmdPost c args)" "honest (cmdTell c args)"
  "honest (cmdAsk c args)" "honest (cmdRead c args)" "honest (cmdPeek c args)" "honest (cmdReadAny c args)"
  "honest (cmdChannels c args)" "honest (cmdHistory c args)" "honest (cmdTask c args)" "honest (cmdRenew c args)"
  "honest cmdStop"
proof -
  show "honest (cmdUnregister c args)" "honest (cmdPeek c args)"
    unfolding cmdUnregister_def cmdPeek_def Let_def
    by (intro honesty; simp split: option.split)+
  show "honest (cmdRooms c args)"
    unfolding cmdRooms_def cmdRoomsGC_def Let_def by (intro honesty) simp_all
  show "honest (cmdPrompt w c args)" by (simp add: cmdPrompt_def split: sum.split)
  show "honest (cmdAsk c args)" by (rule honest_ask)
  show "honest (cmdJoin c args)" "honest (cmdLeave c args)" "honest (cmdParticipants c args)"
    unfolding cmdJoin_def cmdLeave_def cmdParticipants_def by (rule honest_room_command; auto)+
  show "honest (cmdRegister c args)" "honest (cmdSuggestName c args)" "honest (cmdRoom c args)"
    "honest (cmdPost c args)" "honest (cmdTell c args)" "honest (cmdRead c args)" "honest (cmdReadAny c args)"
    "honest (cmdChannels c args)" "honest (cmdHistory c args)" "honest (cmdTask c args)" "honest (cmdRenew c args)"
    "honest cmdStop"
    unfolding cmdRegister_def cmdSuggestName_def cmdRoom_def cmdPost_def cmdTell_def cmdRead_def cmdReadAny_def
      cmdChannels_def cmdHistory_def cmdTask_def cmdRenew_def cmdStop_def Let_def
    by ((rule honesty | simp only: honest_prints honest_shows honest_task_command)+)
qed

lemma command_honest: "command c name args = Some p \<Longrightarrow> honest p"
  by (auto simp: command_def honest_commands split: if_splits)

primrec answers :: "prog \<Rightarrow> client \<Rightarrow> (string \<Rightarrow> json \<Rightarrow> string) \<Rightarrow> env \<Rightarrow> state \<Rightarrow> (string + response) list" where
  \<comment> \<open>what the calls of a run were answered\<close>
  "answers (Exit code out err) c sign e s = []"
| "answers Crash c sign e s = []"
| "answers (Call op args k) c sign e s =
     (case request_for c sign (keys s) op args of
        Inl err \<Rightarrow> Inl err # answers (k (Inl err)) c sign e s
      | Inr req \<Rightarrow>
          (case dispatch e req s of
             (Done r, s') \<Rightarrow> Inr r # answers (k (Inr r)) c sign e s'
           | (Blocks ch, s') \<Rightarrow> []))"

lemma fails_drive: "fails p \<Longrightarrow> drive p c sign e s \<noteq> (Finished 0 out err, t)"
  by (induction p arbitrary: s) (auto split: sum.split prod.split outcome.split)

lemma honest_drive:
  "honest p \<Longrightarrow> drive p c sign e s = (Finished 0 out err, t) \<Longrightarrow>
     \<forall>x \<in> set (answers p c sign e s). \<exists>r. x = Inr r \<and> OK r"
proof (induction p arbitrary: s)
  case (Call op args k)
  show ?case
  proof (cases "request_for c sign (keys s) op args")
    case (Inl msg)
    then have "fails (k (Inl msg))" using Call.prems(1) by simp
    from fails_drive[OF this] show ?thesis using Call.prems(2) Inl by simp
  next
    case (Inr req)
    show ?thesis
    proof (cases "dispatch e req s")
      case (Pair o1 s')
      then show ?thesis
      proof (cases o1)
        case (Done r)
        then have d: "drive (k (Inr r)) c sign e s' = (Finished 0 out err, t)" using Call.prems(2) Inr Pair by simp
        then have "\<not> fails (k (Inr r))" using fails_drive by metis
        then have "OK r" "honest (k (Inr r))" using Call.prems(1) by (auto split: if_splits)
        then show ?thesis using Call.IH[OF _ _ d] Inr Pair Done by simp
      qed (use Call.prems(2) Inr Pair in simp)
    qed
  qed
qed simp_all

lemma command_answers:
  assumes "command c name args = Some p" "drive p c sign e s = (Finished 0 out err, t)"
  shows "\<forall>x \<in> set (answers p c sign e s). \<exists>r. x = Inr r \<and> OK r"
  using honest_drive[OF command_honest[OF assms(1)] assms(2)] .


text \<open>A peer read that gives up, and a room read that gives up, print nothing and exit with zero.\<close>

lemma empty_read_exits_zero:
  "handle (Inr (fst (chanRead_timeout k ch from s))) show_read = Exit 0 [] []"
  "handle (Inr (fst (roomRead_timeout from room r s))) show_read = Exit 0 [] []"
  by (simp_all add: roomRead_timeout_def room_empty_def prints_def printRoomMessages_def arr_of_def chanRead_timeout_def emptyResponse_def handle_def okResponse_def show_read_def obj_of_def jget_def
      get_or_def quiet_def)

end
