(* ===== verification/Run_Harness.thy ===== *)
theory Run_Harness
  imports Go_Strings Go_Paths Client
begin

text \<open>
  \<^verbatim>\<open>lalia run\<close> (\<^verbatim>\<open>run.go\<close>): its arguments, the prompt files it writes
  for each harness, and when it refuses to overwrite one. The working directory is a map from
  paths to contents; running the harness is an argument.
\<close>

section \<open>Arguments\<close>

definition harness_flags :: "string list" where
  "harness_flags = [''--claude-code'', ''--codex'', ''--copilot'']"

fun run_args :: "string \<Rightarrow> bool \<Rightarrow> string list \<Rightarrow> string list \<Rightarrow> string + (string \<times> bool \<times> string list)" where
  \<comment> \<open>the loop, over the harness, the force flag and the arguments collected so far\<close>
  "run_args harness force acc [] =
     (if harness = [] then Inl ''missing harness flag: use --claude-code, --codex, or --copilot''
      else Inr (harness, force, acc))"
| "run_args harness force acc (a # as) =
     (if a \<in> set harness_flags then
        if harness \<noteq> [] then Inl ''multiple harness flags provided'' else run_args a force acc as
      else if a = ''--force'' then run_args harness True acc as
      else run_args harness force (acc @ [a]) as)"

definition parseRunArgs :: "string list \<Rightarrow> string + (string \<times> bool \<times> string list)" where
  "parseRunArgs args = run_args [] False [] args"

section \<open>Prompt files\<close>

definition managedPromptMarker :: string where "managedPromptMarker = ''<!-- lalia:managed -->''"
definition copilotBeginMarker :: string where "copilotBeginMarker = ''<!-- lalia-begin -->''"
definition copilotEndMarker :: string where "copilotEndMarker = ''<!-- lalia-end -->''"

definition ensureTrailingNewline :: "string \<Rightarrow> string" where
  "ensureTrailingNewline s = (if hasSuffix s [nl] then s else s @ [nl])"

definition renderManagedPrompt :: "string \<Rightarrow> string" where
  "renderManagedPrompt prompt = managedPromptMarker @ [nl, nl] @ ensureTrailingNewline (trimLeft prompt nl)"

definition renderCopilotSection :: "string \<Rightarrow> string" where
  "renderCopilotSection prompt = copilotBeginMarker @ [nl] @ ensureTrailingNewline prompt @ copilotEndMarker @ [nl]"

definition hasManagedFirstLine :: "string \<Rightarrow> bool" where
  "hasManagedFirstLine content = (trimSpace (takeWhile (\<lambda>c. c \<noteq> nl) content) = managedPromptMarker)"

definition upsertCopilotSection :: "string \<Rightarrow> string \<Rightarrow> string" where
  "upsertCopilotSection existing sect =
     (case strIndex existing copilotBeginMarker of
        None \<Rightarrow> if existing = [] then sect else ensureTrailingNewline existing @ [nl] @ sect
      | Some start \<Rightarrow>
          let before = trimRight (take start existing) nl;
              afterBegin = drop (start + length copilotBeginMarker) existing
          in case strIndex afterBegin copilotEndMarker of
               None \<Rightarrow> before @ [nl] @ sect
             | Some endRel \<Rightarrow>
                 let past = start + length copilotBeginMarker + endRel + length copilotEndMarker;
                     rest = trimLeft (drop past existing) nl
                 in if rest = [] then before @ [nl] @ sect else before @ [nl] @ sect @ [nl] @ rest)"

text \<open>Reading a file answers its content, nothing when it is missing, or an error; so does writing.\<close>

record disk =
  dk_files :: "(string, string) gomap"
  dk_readErr :: "string \<Rightarrow> string option"
  dk_writeErr :: "string \<Rightarrow> string option"   \<comment> \<open>of the directory or the file\<close>

definition readExisting :: "disk \<Rightarrow> string \<Rightarrow> string + string option" where
  "readExisting d path = (case dk_readErr d path of Some err \<Rightarrow> Inl err | None \<Rightarrow> Inr (map_of (dk_files d) path))"

definition write_prompt :: "disk \<Rightarrow> string \<Rightarrow> string \<Rightarrow> string option \<times> disk" where
  "write_prompt d path content = (case dk_writeErr d path of Some err \<Rightarrow> (Some err, d)
     | None \<Rightarrow> (None, d\<lparr>dk_files := AList.update path content (dk_files d)\<rparr>))"

definition refuse :: "string \<Rightarrow> string" where
  "refuse path = ''refusing to overwrite unmarked '' @ path @ ''; rerun with --force''"

definition writeManagedPromptFile :: "string \<Rightarrow> string \<Rightarrow> bool \<Rightarrow> disk \<Rightarrow> string option \<times> disk" where
  \<comment> \<open>the error, if any\<close>
  "writeManagedPromptFile path prompt force d =
     (case readExisting d path of
        Inl err \<Rightarrow> (Some err, d)
      | Inr existing \<Rightarrow>
          if (case existing of None \<Rightarrow> False | Some s \<Rightarrow> \<not> force \<and> \<not> hasManagedFirstLine s)
          then (Some (refuse path), d)
          else write_prompt d path (renderManagedPrompt prompt))"

definition writeCopilotPromptFile :: "string \<Rightarrow> string \<Rightarrow> bool \<Rightarrow> disk \<Rightarrow> string option \<times> disk" where
  "writeCopilotPromptFile path prompt force d =
     (let sect = renderCopilotSection prompt
      in case readExisting d path of
           Inl err \<Rightarrow> (Some err, d)
         | Inr None \<Rightarrow> write_prompt d path sect
         | Inr (Some s) \<Rightarrow>
             if contains s copilotBeginMarker then write_prompt d path (upsertCopilotSection s sect)
             else if force then write_prompt d path sect
             else (Some (refuse path), d))"

definition isCodexConfigKeyError :: "string \<Rightarrow> bool" where
  "isCodexConfigKeyError stderr =
     (let lower = toLower stderr
      in contains lower ''experimental_instructions_file''
         \<and> list_ex (contains lower) [''unknown'', ''unrecognized'', ''invalid'', ''not found'', ''no such'', ''unsupported''])"

section \<open>Running a harness\<close>

type_synonym exec = "string \<Rightarrow> string list \<Rightarrow> disk \<Rightarrow> string option \<times> string"
  \<comment> \<open>a program and its arguments: the error it ends with, and its error output\<close>

definition runHarness ::
  "client \<Rightarrow> exec \<Rightarrow> string + string \<Rightarrow> string \<Rightarrow> string \<Rightarrow> bool \<Rightarrow> string list \<Rightarrow> disk \<Rightarrow> string option \<times> disk" where
  "runHarness c exec cwd role harness force args d =
     (case promptForRole c role of
        Inl err \<Rightarrow> (Some err, d)
      | Inr prompt \<Rightarrow>
        (case cwd of
           Inl err \<Rightarrow> (Some err, d)
         | Inr dir \<Rightarrow>
           let laliaPath = pathJoin [dir, ''LALIA.md'']
           in if harness = ''--claude-code'' then
                (case writeManagedPromptFile laliaPath prompt force d of
                   (Some err, d) \<Rightarrow> (Some err, d)
                 | (None, d) \<Rightarrow> (fst (exec ''claude'' ([''--append-system-prompt-file'', ''LALIA.md''] @ args) d), d))
              else if harness = ''--codex'' then
                (case writeManagedPromptFile laliaPath prompt force d of
                   (Some err, d) \<Rightarrow> (Some err, d)
                 | (None, d) \<Rightarrow>
                   (case exec ''codex'' ([''-c'', ''experimental_instructions_file='' @ goQuote laliaPath] @ args) d of
                      (None, _) \<Rightarrow> (None, d)
                    | (Some err, errText) \<Rightarrow>
                        if \<not> isCodexConfigKeyError errText then (Some err, d)
                        else (case writeManagedPromptFile (pathJoin [dir, ''AGENTS.md'']) prompt force d of
                            (Some err, d) \<Rightarrow> (Some err, d)
                          | (None, d) \<Rightarrow> (fst (exec ''codex'' args d), d))))
              else if harness = ''--copilot'' then
                (case writeCopilotPromptFile (pathJoin [dir, ''.github'', ''copilot-instructions.md'']) prompt force d of
                   (Some err, d) \<Rightarrow> (Some err, d)
                 | (None, d) \<Rightarrow> (fst (exec ''copilot'' args d), d))
              else (Some (''unknown harness flag: '' @ harness), d)))"

section \<open>What the arguments mean\<close>

lemma run_args_spec:
  "run_args h f acc args = Inr (h', f', acc') \<longleftrightarrow>
     (if h = [] then filter (\<lambda>a. a \<in> set harness_flags) args = [h']
      else h' = h \<and> filter (\<lambda>a. a \<in> set harness_flags) args = [])
     \<and> f' = (f \<or> ''--force'' \<in> set args)
     \<and> acc' = acc @ filter (\<lambda>a. a \<notin> set harness_flags \<and> a \<noteq> ''--force'') args"
proof (induction args arbitrary: h f acc)
  case (Cons a args)
  have ne: "a \<in> set harness_flags \<Longrightarrow> a \<noteq> [] \<and> a \<noteq> ''--force''" by (auto simp: harness_flags_def)
  show ?case
  proof (cases "a \<in> set harness_flags")
    case True
    then show ?thesis using ne by (auto simp: Cons.IH)
  qed (auto simp: Cons.IH)
qed auto

text \<open>The arguments of \<^verbatim>\<open>lalia run\<close> are accepted exactly when one harness flag is among them; \<^verbatim>\<open>--force\<close>
  counts wherever it stands, and everything else is passed on in order.\<close>

theorem parseRunArgs_exact:
  "parseRunArgs args = Inr (harness, force, rest) \<longleftrightarrow>
     filter (\<lambda>a. a \<in> set harness_flags) args = [harness]
     \<and> force = (''--force'' \<in> set args)
     \<and> rest = filter (\<lambda>a. a \<notin> set harness_flags \<and> a \<noteq> ''--force'') args"
  by (simp add: parseRunArgs_def run_args_spec)

section \<open>Searching across a line break\<close>

lemma hasPrefix_upto: "c \<notin> set p \<Longrightarrow> hasPrefix (u @ c # t) p \<longleftrightarrow> hasPrefix u p"
  by (induction u p rule: hasPrefix.induct) auto

lemma strIndex_break:
  assumes "c \<notin> set p" "p \<noteq> []"
  shows "strIndex (u @ c # t) p = (case strIndex u p of Some i \<Rightarrow> Some i
     | None \<Rightarrow> map_option (\<lambda>k. Suc (length u + k)) (strIndex t p))"
proof (induction u)
  case Nil
  have "\<not> hasPrefix (c # t) p" using assms by (cases p) auto
  then show ?case using assms by (auto simp: option.map_comp comp_def)
next
  case (Cons x u)
  have "hasPrefix (x # u @ c # t) p \<longleftrightarrow> hasPrefix (x # u) p" using hasPrefix_upto[OF assms(1), of "x # u" t] by simp
  then show ?case using Cons by (auto simp: option.map_comp comp_def split: option.split)
qed

lemma hasPrefix_take: "hasPrefix s p \<Longrightarrow> length p \<le> n \<Longrightarrow> hasPrefix (take n s) p"
  by (auto simp: hasPrefix_iff)

lemma hasPrefix_mono: "hasPrefix u p \<Longrightarrow> hasPrefix (u @ v) p"
  by (auto simp: hasPrefix_iff)

lemma strIndex_prefix_None: "strIndex (u @ v) p = None \<Longrightarrow> strIndex u p = None"
proof (induction u)
  case Nil
  then show ?case by (cases v) (auto split: if_splits)
next
  case (Cons x u)
  then show ?case using hasPrefix_mono[of "x # u" p v] by (auto split: if_splits)
qed

lemma strIndex_least: "p \<noteq> [] \<Longrightarrow> strIndex s p = Some i \<Longrightarrow> strIndex (take i s) p = None"
proof (induction s arbitrary: i)
  case (Cons c s)
  show ?case
  proof (cases "hasPrefix (c # s) p")
    case False
    then obtain j where j: "i = Suc j" "strIndex s p = Some j" using Cons.prems by auto
    have "\<not> hasPrefix (c # take j s) p" using False hasPrefix_mono[of "c # take j s" p "drop j s"] by auto
    then show ?thesis using j Cons.IH[OF Cons.prems(1) j(2)] by simp
  qed (use Cons.prems in auto)
qed simp

section \<open>The section of a shared file\<close>

definition wrapped :: "string \<Rightarrow> string \<Rightarrow> string \<Rightarrow> string" where
  \<comment> \<open>the section between what stands before and after it\<close>
  "wrapped pre sect post = pre @ nl # sect @ (if post = [] then [] else nl # post)"

definition marker_free :: "string \<Rightarrow> bool" where
  "marker_free s \<longleftrightarrow> strIndex s copilotBeginMarker = None \<and> strIndex s copilotEndMarker = None"

lemma markers [simp]:
  "nl \<notin> set copilotBeginMarker" "copilotBeginMarker \<noteq> []" "nl \<notin> set copilotEndMarker" "copilotEndMarker \<noteq> []"
  by (simp_all add: copilotBeginMarker_def copilotEndMarker_def)

lemma strIndex_here [simp]: "strIndex (p @ s) p = Some 0" "strIndex p p = Some 0"
proof -
  show "strIndex (p @ s) p = Some 0" for s
    using hasPrefix_append[of p s] by (cases "p @ s") auto
  from this[of "[]"] show "strIndex p p = Some 0" by simp
qed

lemma upsert_between:
  assumes "strIndex existing copilotBeginMarker = Some i"
    "strIndex (drop (i + length copilotBeginMarker) existing) copilotEndMarker = Some j"
  shows "upsertCopilotSection existing sect = wrapped (trimRight (take i existing) nl) sect
    (trimLeft (drop (i + length copilotBeginMarker + j + length copilotEndMarker) existing) nl)"
  using assms by (simp add: upsertCopilotSection_def wrapped_def Let_def)

lemma ends_with_nl: "\<exists>t. ensureTrailingNewline p = t @ [nl] \<and> (p = t \<or> p = t @ [nl])"
  by (auto simp: ensureTrailingNewline_def hasSuffix_iff)

lemma section_shape:
  assumes "marker_free prompt"
  shows "\<exists>body. renderCopilotSection prompt = copilotBeginMarker @ nl # body @ nl # copilotEndMarker @ [nl]
    \<and> strIndex body copilotEndMarker = None"
proof -
  obtain t where t: "ensureTrailingNewline prompt = t @ [nl]" "prompt = t \<or> prompt = t @ [nl]"
    using ends_with_nl by blast
  then have "strIndex t copilotEndMarker = None"
    using assms strIndex_prefix_None[of t "[nl]"] by (auto simp: marker_free_def)
  then show ?thesis using t by (auto simp: renderCopilotSection_def)
qed

lemma find_section:
  assumes "strIndex pre copilotBeginMarker = None" "marker_free prompt"
  shows "strIndex (wrapped pre (renderCopilotSection prompt) post) copilotBeginMarker = Some (Suc (length pre))"
    "\<exists>j. strIndex (drop (Suc (length pre) + length copilotBeginMarker) (wrapped pre (renderCopilotSection prompt) post))
        copilotEndMarker = Some j
      \<and> drop (Suc (length pre) + length copilotBeginMarker + j + length copilotEndMarker)
          (wrapped pre (renderCopilotSection prompt) post) = nl # (if post = [] then [] else nl # post)"
proof -
  obtain body where b: "renderCopilotSection prompt = copilotBeginMarker @ nl # body @ nl # copilotEndMarker @ [nl]"
      "strIndex body copilotEndMarker = None" using section_shape[OF assms(2)] by blast
  show "strIndex (wrapped pre (renderCopilotSection prompt) post) copilotBeginMarker = Some (Suc (length pre))"
    using assms(1) by (simp add: wrapped_def b strIndex_break)
  let ?rest = "nl # (if post = [] then [] else nl # post)"
  have e: "drop (Suc (length pre) + length copilotBeginMarker) (wrapped pre (renderCopilotSection prompt) post)
      = [] @ nl # body @ nl # copilotEndMarker @ ?rest"
    by (simp add: wrapped_def b)
  have "strIndex ([] @ nl # body @ nl # copilotEndMarker @ ?rest) copilotEndMarker = Some (Suc (Suc (length body)))"
    using b(2) by (simp only: strIndex_break[OF markers(3,4)]) (simp add: strIndex_break)
  moreover have "drop (Suc (length pre) + length copilotBeginMarker + Suc (Suc (length body)) + length copilotEndMarker)
      (wrapped pre (renderCopilotSection prompt) post) = ?rest"
  proof -
    let ?X = "pre @ nl # copilotBeginMarker @ nl # body @ nl # copilotEndMarker"
    have "wrapped pre (renderCopilotSection prompt) post = ?X @ ?rest" by (simp add: wrapped_def b)
    moreover have "Suc (length pre) + length copilotBeginMarker + Suc (Suc (length body)) + length copilotEndMarker
        = length ?X" by simp
    ultimately show ?thesis by (metis append_eq_conv_conj)
  qed
  ultimately show "\<exists>j. strIndex (drop (Suc (length pre) + length copilotBeginMarker) (wrapped pre (renderCopilotSection prompt) post))
        copilotEndMarker = Some j
      \<and> drop (Suc (length pre) + length copilotBeginMarker + j + length copilotEndMarker)
          (wrapped pre (renderCopilotSection prompt) post) = ?rest"
    unfolding e by blast
qed

lemma trimLeft_again:
  "trimLeft (c # s) c = trimLeft s c" "trimLeft [] c = []" "trimLeft (trimLeft s c) c = trimLeft s c"
  by (simp_all add: trimLeft_def)

text \<open>C36: Updating the section of a shared instructions file replaces what stood between the markers and nothing
  else: the text before and after it is kept up to the line breaks next to it, and updating the result
  again changes nothing.\<close>

theorem upsert_keeps_rest:
  assumes "strIndex existing copilotBeginMarker = Some i"
    "strIndex (drop (i + length copilotBeginMarker) existing) copilotEndMarker = Some j"
    "marker_free prompt" "sect = renderCopilotSection prompt" "updated = upsertCopilotSection existing sect"
  shows "updated = wrapped (trimRight (take i existing) nl) sect
      (trimLeft (drop (i + length copilotBeginMarker + j + length copilotEndMarker) existing) nl)
    \<and> upsertCopilotSection updated sect = updated"
proof -
  let ?pre = "trimRight (take i existing) nl"
  let ?post = "trimLeft (drop (i + length copilotBeginMarker + j + length copilotEndMarker) existing) nl"
  have u: "updated = wrapped ?pre sect ?post" using upsert_between[OF assms(1,2)] assms(5) by simp
  obtain n where n: "take i existing = ?pre @ replicate n nl" using trimRight_split by blast
  have "strIndex (take i existing) copilotBeginMarker = None" using strIndex_least[OF _ assms(1)] by simp
  then have pre: "strIndex ?pre copilotBeginMarker = None" using n strIndex_prefix_None by metis
  obtain k where k: "strIndex (drop (Suc (length ?pre) + length copilotBeginMarker) updated) copilotEndMarker = Some k"
      "drop (Suc (length ?pre) + length copilotBeginMarker + k + length copilotEndMarker) updated
        = nl # (if ?post = [] then [] else nl # ?post)"
    using find_section(2)[OF pre assms(3), of ?post] u assms(4) by auto
  have "strIndex updated copilotBeginMarker = Some (Suc (length ?pre))"
    using find_section(1)[OF pre assms(3)] u assms(4) by simp
  from upsert_between[OF this k(1), of sect]
  have "upsertCopilotSection updated sect = wrapped (trimRight (take (Suc (length ?pre)) updated) nl) sect
      (trimLeft (nl # (if ?post = [] then [] else nl # ?post)) nl)" unfolding k(2) .
  moreover have "trimRight (take (Suc (length ?pre)) updated) nl = ?pre"
    by (simp add: u wrapped_def)
  moreover have "trimLeft (nl # (if ?post = [] then [] else nl # ?post)) nl = ?post"
    by (simp add: trimLeft_again)
  ultimately show ?thesis using u by simp
qed

text \<open>A section whose end marker is missing takes the rest of the file with it.\<close>

lemma unclosed_section_drops_rest:
  assumes "strIndex existing copilotBeginMarker = Some i"
    "strIndex (drop (i + length copilotBeginMarker) existing) copilotEndMarker = None"
  shows "upsertCopilotSection existing sect = trimRight (take i existing) nl @ nl # sect"
  using assms by (simp add: upsertCopilotSection_def)

section \<open>Managed files\<close>

lemma managed_first_line: "hasManagedFirstLine (renderManagedPrompt prompt)"
proof -
  have "takeWhile (\<lambda>c. c \<noteq> nl) (renderManagedPrompt prompt) = managedPromptMarker"
    by (simp add: renderManagedPrompt_def managedPromptMarker_def)
  moreover have "trimSpace managedPromptMarker = managedPromptMarker" by code_simp
  ultimately show ?thesis by (simp add: hasManagedFirstLine_def)
qed

text \<open>A run never overwrites a file that is not its own: without \<^verbatim>\<open>--force\<close> the prompt is written only
  where there was no file or one that starts with the marker, a refusal changes nothing, no other file is
  touched, and what is written starts with the marker, so that the next run may replace it.\<close>

theorem managed_prompt_guarded:
  assumes "writeManagedPromptFile path prompt force d = (err, d')"
  shows "(err \<noteq> None \<longrightarrow> d' = d)
    \<and> (err = None \<longrightarrow> map_of (dk_files d') path = Some (renderManagedPrompt prompt)
         \<and> (force \<or> (\<forall>old. map_of (dk_files d) path = Some old \<longrightarrow> hasManagedFirstLine old))
         \<and> (\<forall>p. p \<noteq> path \<longrightarrow> map_of (dk_files d') p = map_of (dk_files d) p)
         \<and> (\<forall>again f. dk_readErr d path = None \<and> dk_writeErr d path = None \<longrightarrow>
              fst (writeManagedPromptFile path again f d') = None))"
  using assms managed_first_line
  by (cases "dk_writeErr d path")
    (auto simp: writeManagedPromptFile_def readExisting_def write_prompt_def
      split: option.splits sum.splits if_splits, metis)

end
