(* ===== verification/Nicknames.thy ===== *)
theory Nicknames
  imports Client
begin

text \<open>
  The nickname command (\<^verbatim>\<open>nickname.go\<close>) and the relative times of \<^verbatim>\<open>util.go\<close>.
  The nickname file is what loading it answers: an error, or a map, nil when the file holds
  \<^verbatim>\<open>null\<close>.
\<close>

section \<open>The command\<close>

datatype nick_result = Nick int string "diag list" "(string, nickname) gomap option" | NickCrash
  \<comment> \<open>exit code, output, error output, the map written\<close>

definition arrow_text :: string where "arrow_text = '' '' @ utf8_arrow @ '' ''"

definition nick_fail :: "int \<Rightarrow> string \<Rightarrow> nick_result" where
  "nick_fail code text = Nick code [] [Say text] None"

definition nick_line :: "string \<times> nickname \<Rightarrow> string" where
  "nick_line kn = (case kn of (k, n) \<Rightarrow>
     line (k @ [CHR 0x09] @ nk_Address n @ [CHR 0x09] @
       (if nk_Mode n = ''stable'' then ''(stable'' @ arrow_text @ nk_AgentID n @ '')'' else ''(follows)'')))"

definition nick_show :: "string \<Rightarrow> nickname \<Rightarrow> string" where
  "nick_show k n =
     (if nk_Mode n = ''stable''
      then line (k @ arrow_text @ ''agent_id '' @ nk_AgentID n @ '' (stable)'') @ line (''  address: '' @ nk_Address n)
      else line (k @ arrow_text @ nk_Address n @ '' (follows)''))"

definition save_nicknames :: "string option \<Rightarrow> string \<Rightarrow> (string, nickname) gomap \<Rightarrow> nick_result" where
  "save_nicknames wrErr out m = (case wrErr of Some err \<Rightarrow> nick_fail 1 err | None \<Rightarrow> Nick 0 out [] (Some m))"

definition nick_assign ::
  "(string \<Rightarrow> string + response) \<Rightarrow> string option \<Rightarrow> bool \<Rightarrow> string \<Rightarrow> string \<Rightarrow> (string, nickname) gomap option \<Rightarrow> nick_result" where
  "nick_assign resolve wrErr follow nick address loaded =
     (let put = (\<lambda>n. case loaded of None \<Rightarrow> NickCrash
            | Some m \<Rightarrow> save_nicknames wrErr (line nick) (AList.update nick n m))
      in if follow then put \<lparr>nk_Mode = ''follow'', nk_AgentID = [], nk_Address = address\<rparr>
         else (case resolve address of
             Inl err \<Rightarrow> nick_fail 1 err
           | Inr r \<Rightarrow>
               if \<not> OK r then nick_fail (Code r) (Error r)
               else (case Data r of
                   Some (JObj m) \<Rightarrow> put \<lparr>nk_Mode = ''stable'', nk_AgentID = strVal m ''agent_id'', nk_Address = address\<rparr>
                 | _ \<Rightarrow> NickCrash)))"

definition cmdNickname ::
  "(string \<Rightarrow> string + response) \<Rightarrow> string + (string, nickname) gomap option \<Rightarrow> string option \<Rightarrow> string list \<Rightarrow> nick_result" where
  "cmdNickname resolve load wrErr args =
     (let known = (case load of Inr (Some m) \<Rightarrow> m | _ \<Rightarrow> []);
          loading = (\<lambda>k. case load of Inl err \<Rightarrow> nick_fail 1 err | Inr loaded \<Rightarrow> k loaded)
      in case args of
           [] \<Rightarrow> loading (\<lambda>_. Nick 0 (concat (map nick_line (sort_key fst known))) [] None)
         | a # rest \<Rightarrow>
             if a = ''-d'' then
               (case rest of [] \<Rightarrow> nick_fail 1 ''usage: lalia nickname -d <nick>''
                | nick # _ \<Rightarrow> loading (\<lambda>_.
                    if map_of known nick = None then nick_fail 5 (''nickname not found: '' @ nick)
                    else save_nicknames wrErr [] (AList.delete nick known)))
             else if rest = [] then loading (\<lambda>_.
               (case map_of known a of None \<Rightarrow> nick_fail 5 (''nickname not found: '' @ a)
                | Some n \<Rightarrow> Nick 0 (nick_show a n) [] None))
             else
               let follow = ''--follow'' \<in> set args; remaining = remove1 ''--follow'' args
               in if length remaining < 2 then nick_fail 1 ''usage: lalia nickname [--follow] <nick> <address>''
                  else loading (nick_assign resolve wrErr follow (remaining ! 0) (remaining ! 1)))"

section \<open>Relative times\<close>

definition humanizeDuration :: "time \<Rightarrow> time \<Rightarrow> string" where
  \<comment> \<open>of \<open>t\<close> at the time \<open>n\<close>\<close>
  "humanizeDuration n t =
     (let d = n - t
      in if t = zero_time then ''never''
         else if d < 0 then ''in future''
         else if d < 5 * second then ''just now''
         else if d < 60 * second then itoa (d div second) @ ''s ago''
         else if d < 3600 * second then itoa (d div (60 * second)) @ ''m ago''
         else if d < 24 * 3600 * second then itoa (d div (3600 * second)) @ ''h ago''
         else take 10 (rfc3339 t))"

section \<open>What a nickname stands for\<close>

lemma opResolve_answer:
  assumes "OK (opResolve e req s)" "strVal (Args req) ''address'' = addr"
  shows "\<exists>i. ResolveAddress e addr s = Inr i \<and> opResolve e req s = okResponse (JObj [(''agent_id'', JStr i)])"
  using assms by (auto simp: opResolve_def Let_def split: if_splits sum.splits)

text \<open>A nickname assigned without \<^verbatim>\<open>--follow\<close> is bound to the agent its address meant at that moment: whatever
  happens to names and addresses later, it resolves to that agent as long as that agent is registered, and
  to an error afterwards; other nicknames are as before.\<close>

theorem stable_nickname_sticks:
  assumes "cmdNickname resolve (Inr (Some m)) None [nick, addr] = Nick 0 out err (Some m')"
    "resolve = (\<lambda>a. Inr (opResolve e \<lparr>Op = ''resolve'', Args = [(''address'', JStr a)]\<rparr> s))"
    "nick \<notin> {''-d'', ''--follow''}" "addr \<noteq> ''--follow''" "nicks e' = m'"
  shows "\<exists>i. ResolveAddress e addr s = Inr i
    \<and> ResolveAddress e' nick s' = (if map_of (agents s') i = None then Inl (StaleNickname nick i) else Inr i)
    \<and> (\<forall>k. k \<noteq> nick \<longrightarrow> map_of m' k = map_of m k)"
proof -
  let ?r = "opResolve e \<lparr>Op = ''resolve'', Args = [(''address'', JStr addr)]\<rparr> s"
  have flag: "''--follow'' \<noteq> nick" using assms(3) by auto
  have r: "nick_assign resolve None False nick addr (Some m) = Nick 0 out err (Some m')"
    using assms(1,3,4) not_sym[OF assms(4)] flag by (simp add: cmdNickname_def Let_def)
  then have "OK ?r" by (auto simp: nick_assign_def assms(2) nick_fail_def split: if_splits)
  then obtain i where i: "ResolveAddress e addr s = Inr i" "?r = okResponse (JObj [(''agent_id'', JStr i)])"
    using opResolve_answer[of e "\<lparr>Op = ''resolve'', Args = [(''address'', JStr addr)]\<rparr>" s addr]
    by (auto simp: strVal_def)
  have "m' = AList.update nick \<lparr>nk_Mode = ''stable'', nk_AgentID = i, nk_Address = addr\<rparr> m"
    using r i(2) by (simp add: nick_assign_def assms(2) okResponse_def save_nicknames_def strVal_def)
  then show ?thesis using i(1) assms(5) by (auto simp: ResolveAddress_def split: option.split)
qed

end
