(* ===== verification/Examples_Daemon.thy ===== *)
theory Examples_Daemon
  imports Examples Run_Harness Nicknames
begin

text \<open>
  The properties of the whole daemon, of the writer, of a restart and of the command line,
  applied to the workspace of \<^verbatim>\<open>Examples\<close>.
\<close>

section \<open>The writer\<close>

definition busy_demo :: state where
  \<comment> \<open>with one write in flight\<close>
  "busy_demo = enqueueWrite ''a.txt'' (Text ''x'') ''add'' demo"

lemma demo_pipe: "pipe_inv demo" "live_store demo" "alive demo" "queue demo = Some empty_db" "writes demo = []"
  by (simp_all add: pipe_inv_def queue_ok_def ops_ok_def live_store_def alive_def demo_def empty_state_def empty_db_def)


text \<open>A write that fails when the daemon runs and at two restarts is set aside.\<close>

definition unlucky :: "nat \<Rightarrow> state" where
  "unlucky n = ((\<lambda>s. flushPendingWrites (\<lambda>_. CommitFail) (after_crash s)) ^^ n)
     (runWriter AddFail (enqueueWrite ''b.txt'' (Text ''y'') ''add'' demo))"

lemma unlucky_faults: "faults demo = []" "faults (enqueueWrite ''b.txt'' (Text ''y'') ''add'' demo) = []"
  "faults (unlucky 0) = []" "faults (unlucky 1) = []" "faults (unlucky 2) = []"
  by code_simp+

lemma unlucky_calm: "calm_step\<^sup>*\<^sup>* demo (unlucky 2)"
proof -
  have c: "calm_step (unlucky n) (unlucky (Suc n))" if "faults (unlucky n) = []" "faults (unlucky (Suc n)) = []" for n
    using that pipe_step.crash[of "unlucky n" "\<lambda>_. CommitFail"] by (simp add: calm_step_def unlucky_def)
  have "calm_step demo (enqueueWrite ''b.txt'' (Text ''y'') ''add'' demo)"
    using unlucky_faults pipe_step.enqueue by (simp add: calm_step_def)
  moreover have "calm_step (enqueueWrite ''b.txt'' (Text ''y'') ''add'' demo) (unlucky 0)"
    using unlucky_faults pipe_step.turn[of "enqueueWrite ''b.txt'' (Text ''y'') ''add'' demo" AddFail]
    by (simp add: calm_step_def unlucky_def)
  moreover have "calm_step (unlucky 0) (unlucky 1)" "calm_step (unlucky 1) (unlucky 2)"
    using c[of 0] c[of 1] unlucky_faults by (simp_all add: numeral_2_eq_2)
  ultimately show ?thesis by (meson converse_rtranclp_into_rtranclp rtranclp.rtrancl_refl)
qed


text \<open>Three writes to a file, the second of which repeats the first.\<close>

definition busy_writer :: state where
  "busy_writer = enqueueWrite ''a.txt'' (Text ''z'') ''c'' (enqueueWrite ''a.txt'' (Text ''x'') ''b'' (enqueueWrite ''a.txt'' (Text ''x'') ''a'' demo))"


section \<open>The daemon\<close>

lemma demo_inv: "daemon_inv demo"
  using demo_wf demo_both demo_tasks by (simp add: daemon_invI)

theorem daemon_safe_witness:
  "wf_registry (fold apply_event [Tick demo_env, StopNow, Turn IOok] demo)"
proof -
  have "filter (\<lambda>(i, a). expired demo_env a) (agents demo) = []" "\<not> panicked (requestStop demo)" "\<not> stopped demo"
    by code_simp+
  then have "daemon.legal [Tick demo_env, StopNow, Turn IOok] demo"
    using demo_pipe(3) by (simp add: sweep_def alive_def)
  then show ?thesis using daemon_safe[OF demo_wf demo_rooms demo_chan demo_tasks _ refl] by blast
qed

definition signed_req :: "string \<Rightarrow> request" where
  "signed_req op = \<lparr>Op = op, Args = [(''from'', JStr ''bob''), (''sig'', JStr ''00'')]\<rparr>"

theorem dispatch_authenticates_witness:
  "\<exists>r. dispatch demo_env (signed_req ''channels'') demo = (Done r, demo) \<and> Code r = CodeUnauthorized"
proof -
  have a: "agentByName demo ''bob'' = Some (demo_agent ''01B'' ''bob'' ''peer'' 8)"
    "hexDecode (ag_Pubkey (demo_agent ''01B'' ''bob'' ''peer'' 8)) = Inr [CHR 0xAB]"
    "strVal (Args (signed_req ''channels'')) ''from'' = ''bob''"
    "Op (signed_req ''channels'') \<notin> set unauthenticated_ops" by code_simp+
  from dispatch_authenticates[OF a(3) _ a(4), of demo_env demo] a(1,2)
  show ?thesis by (auto simp: publicKeySize_def)
qed

definition waiting :: state where
  \<comment> \<open>\<^verbatim>\<open>sv\<close> is blocked in a read\<close>
  "waiting = demo\<lparr>channels := [(channelKey ''bob'' ''sv'', (newChannel ''bob'' ''sv'')\<lparr>c_waiter := [(''sv'', 3)]\<rparr>)],
     blocked := [(3, WaitPeer ''sv'' (channelKey ''bob'' ''sv''))], next_chan := 4\<rparr>"

theorem stop_releases_peers_witness:
  "bufs (requestStop waiting) 3 = [closing]
    \<and> (\<exists>r. fst (wake demo_env 3 (requestStop waiting)) = Some r \<and> Code r = CodePeerClosed \<and> \<not> OK r)"
proof -
  have w: "keys_ok (channels waiting)" "distinct (peer_waiters waiting)" "3 \<in> set (peer_waiters waiting)" by code_simp+
  have "bufs waiting 3 = []" "map_of (blocked waiting) 3 = Some (WaitPeer ''sv'' (channelKey ''bob'' ''sv''))"
    by (simp_all add: waiting_def demo_def empty_state_def)
  with stop_releases_peers[OF w(1,2) refl, of 3] w(3) show ?thesis by auto
qed

theorem stop_leaves_panic_witness:
  "panicked (snd (dispatch demo_env (ask ''agents'' [(''from'', ''bob'')]) (requestStop demo)))"
proof -
  have "agentByName demo ''bob'' = Some (demo_agent ''01B'' ''bob'' ''peer'' 8)" by code_simp
  from stop_leaves_panic[OF demo_pipe(3) refl this, of "ask ''agents'' [(''from'', ''bob'')]"]
  show ?thesis by (simp add: ask_def strVal_def)
qed

section \<open>A registration and what follows\<close>

definition zoe_sign :: "string \<Rightarrow> json \<Rightarrow> string" where
  "zoe_sign priv m = CHR ''s'' # take 32 priv"

definition demo_probe :: probe where
  "demo_probe = \<lparr>pr_getwd = Some ''/w'', pr_canon = (\<lambda>p. p), pr_git = (\<lambda>_. []), pr_env = (\<lambda>_. [])\<rparr>"

definition demo_client :: client where
  "demo_client = \<lparr>cl_probe = demo_probe, cl_pid = 5, cl_read = (\<lambda>_. Inl []), cl_json = (\<lambda>_. Inl []),
     cl_prompt = (\<lambda>_. ''be kind''), cl_keyErr = (\<lambda>_. ''no key'')\<rparr>"

definition joined :: state where
  \<comment> \<open>one agent has registered\<close>
  "joined = snd (opRegister demo_env (ask ''register'' [(''name'', ''zoe'')]) empty_state)"

definition settled :: state where
  \<comment> \<open>and its record is on disk\<close>
  "settled = runWriter IOok joined"

lemma empty_inv: "daemon_inv empty_state"
  by (auto simp: daemon_inv_def task_inv_def both_inv_def wf_registry_def agents_ok_def rooms_inv_def tasks_inv_def chan_inv_def
      chan_mirror_def mirror_at_def qbox_def box_def empty_db_def empty_state_def)

lemma joined_inv: "daemon_inv joined"
  unfolding joined_def by (rule registry_ops_keep(1)[OF empty_inv]) (simp add: empty_state_def)

lemma settled_inv: "daemon_inv settled"
  unfolding settled_def using books_same_keeps[OF runWriter_frame(1) joined_inv]
    runWriter_frame(2)[OF daemon_invD(2)[OF joined_inv]] by blast

definition zoe_unregisters :: request where
  "zoe_unregisters = \<lparr>Op = ''unregister'', Args = [(''from'', JStr ''zoe''),
     (''sig'', JStr (hexEncode (CHR ''s'' # replicate 32 (CHR ''k''))))]\<rparr>"


theorem unregister_resurrects_witness:
  "map_of (files (runWriter IOok (snd (dispatch demo_env zoe_unregisters settled)))) (agent_path ''01C'') \<noteq> None"
proof -
  obtain a where a: "agentByName settled ''zoe'' = Some a" "ag_AgentID a = ''01C''"
  proof -
    have "(case agentByName settled ''zoe'' of None \<Rightarrow> False | Some a \<Rightarrow> ag_AgentID a = ''01C'')" by code_simp
    then show thesis using that by (auto split: option.splits)
  qed
  obtain r where "dispatch demo_env zoe_unregisters settled = (Done r, snd (dispatch demo_env zoe_unregisters settled))"
  proof -
    have "(case fst (dispatch demo_env zoe_unregisters settled) of Done r \<Rightarrow> True | Blocks ch \<Rightarrow> False)" by code_simp
    then show thesis using that by (cases "dispatch demo_env zoe_unregisters settled") (auto split: outcome.splits)
  qed
  moreover have "alive settled" "Op zoe_unregisters = ''unregister''" "strVal (Args zoe_unregisters) ''from'' = ''zoe''"
    "id_ok ''01C''" by code_simp+
  moreover have "writes settled = []" by code_simp
  moreover have "auth_gate demo_env zoe_unregisters settled = None" by code_simp
  moreover have "busy_with ''zoe'' settled = None" by code_simp
  ultimately show ?thesis
    using unregister_resurrects[OF settled_inv, of a zoe_unregisters "''zoe''" demo_env r] a by auto
qed

section \<open>Restarts\<close>

definition zoe :: agent where
  "zoe = the (map_of (agents settled) ''01C'')"

lemma settled_agents: "agents settled = [(''01C'', zoe)]" by code_simp
lemma settled_files: "files settled = [(agent_path ''01C'', AgentFile zoe)]" by code_simp
lemma zoe_name:  "ag_Name zoe = ''zoe''" by code_simp
lemma zoe_fresh: "stale demo_env zoe = False" by code_simp
lemma zoe_dir: "pathDir (agent_path ''01C'') = ''registry''"
  by code_simp
lemmas settled_registry = settled_agents settled_files zoe_name zoe_fresh zoe_dir

lemma joined_agents: "agents joined = [(''01C'', zoe)]" by code_simp
lemma joined_files: "files joined = []" by code_simp
lemma joined_flushed: "files (flushed (migrated None True joined)) = [(agent_path ''01C'', AgentFile zoe)]" by code_simp
lemma joined_fault: "\<not> q_fault (after_crash joined)" by code_simp


definition told_demo :: state where
  \<comment> \<open>a message waits for \<^verbatim>\<open>sv\<close>\<close>
  "told_demo = snd (opTell demo_env (ask ''tell'' [(''from'', ''bob''), (''peer'', ''sv''), (''body'', ''hi'')]) demo)"

definition conversation :: channel where
  "conversation = the (map_of (channels told_demo) (channelKey ''bob'' ''sv''))"

lemma told_stored: "\<not> Option.is_none (queue told_demo)" by code_simp
lemma told_channel:  "map_of (channels told_demo) (channelKey ''bob'' ''sv'') = Some conversation" by code_simp
lemma sv_is_peer:  "is_peer conversation ''sv''" by code_simp
lemma sv_mail: "mbox conversation ''sv'' = [\<lparr>Seq = 1, From = ''bob'', TS = 1000, Body = ''hi''\<rparr>]" by code_simp
lemma told_rows:  "plain_rows (the (queue told_demo))" by code_simp
lemma told_PeerA: "plain_name (PeerA conversation)" by code_simp
lemma told_PeerB: "plain_name (PeerB conversation)" by code_simp
lemma told_live:  "live_store told_demo" by code_simp
lemma told_queue: "queue told_demo = Some (the (queue told_demo))" using told_stored by (cases "queue told_demo") simp_all
lemmas told_facts = told_queue told_channel sv_is_peer sv_mail told_rows told_PeerA told_PeerB told_live
theorem mailbox_survives_restart_witness:
  "\<exists>c. map_of (channels (newState demo_env None True (\<lambda>_. IOok) (\<lambda>_. ([], True)) told_demo)) (channelKey ''bob'' ''sv'') = Some c
    \<and> map Body (mbox c ''sv'') = [''hi'']"
proof -
  have "chan_inv told_demo" unfolding told_demo_def using opTell_keeps[OF demo_both] by (simp add: both_inv_def)
  moreover have "wall_clock (TS m)" if "m \<in> set (mbox conversation ''sv'')" for m
    using that by (simp add: told_facts(4) wall_clock_def second_def)
  ultimately show ?thesis
    using mailbox_survives_restart[OF _ told_facts(8,1,2,3) _ told_facts(5,6,7)] told_facts(4)
    by (fastforce simp: restored_def)
qed

definition spoken :: state where
  \<comment> \<open>\<^verbatim>\<open>bob\<close> told \<^verbatim>\<open>eve\<close> something, and she read it\<close>
  "spoken = snd (opRead demo_env (ask ''read'' [(''from'', ''eve''), (''peer'', ''bob'')])
     (snd (opTell demo_env (ask ''tell'' [(''from'', ''bob''), (''peer'', ''eve''), (''body'', ''first'')]) demo)))"

definition restarted :: state where
  "restarted = newState demo_env None True (\<lambda>_. IOok) (\<lambda>_. ([], True)) spoken"

lemma spoken_queue: "queue spoken = Some (the (queue spoken))"
proof -
  have "\<not> Option.is_none (queue spoken)" by code_simp
  then show ?thesis by (cases "queue spoken") simp_all
qed

lemma spoken_twice: "chan_seq spoken (channelKey ''bob'' ''eve'') = 1" by code_simp

lemma restarted_ok: "alive restarted" by code_simp

lemma restarted_queue: "queue restarted = Some (the (queue restarted))"
proof -
  have "\<not> Option.is_none (queue restarted)" by code_simp
  then show ?thesis by (cases "queue restarted") simp_all
qed

lemma no_mail: "plain_rows (the (queue spoken))" "plain_name ''bob''" "plain_name ''eve''"
  "box (the (queue spoken)) (''bob'', ''peer'', ''eve'') = []" "box (the (queue spoken)) (''eve'', ''peer'', ''bob'') = []"
  by code_simp+

theorem read_channel_renumbered_witness:
  "chan_seq spoken (channelKey ''bob'' ''eve'') = 1 \<and> (\<exists>k c t. getOrCreateChannel ''bob'' ''eve'' restarted = (k, c, t)
    \<and> fst (tell demo_env k c ''bob'' ''hi'' t) = okResponse (JObj [(''seq'', JNum 1), (''peer'', JStr ''eve'')]))"
proof -
  obtain k c t where g: "getOrCreateChannel ''bob'' ''eve'' restarted = (k, c, t)" by (metis prod_cases3)
  obtain resp u where u: "tell demo_env k c ''bob'' ''hi'' t = (resp, u)" by fastforce
  have "resp = okResponse (JObj [(''seq'', JNum 1), (''peer'', JStr ''eve'')])"
    using read_channel_renumbered[OF spoken_queue no_mail(1-3) _ no_mail(4,5) restarted_def g u restarted_ok restarted_queue]
    by simp
  then show ?thesis using g u spoken_twice by auto
qed

definition demo_note :: roomMessage where
  "demo_note = \<lparr>rm_Seq = 1, rm_Room = ''api'', rm_From = ''sv'', rm_TS = 0, rm_Body = ''do it''\<rparr>"

definition stored_db :: db where
  "stored_db = empty_db\<lparr>d_rooms := [\<lparr>rr_name = ''api'', rr_desc = [], rr_createdBy = ''sv'',
       rr_createdAt = ''1970-01-01T00:00:00Z'', rr_archived = False\<rparr>],
     d_members := [(''api'', ''sv''), (''api'', ''bob'')],
     d_mailbox := [\<lparr>mb_recipient = ''bob'', mb_kind = ''room'', mb_target = ''api'', mb_seq = 1, mb_fromName = ''sv'',
       mb_ts = rfc3339 0, mb_body = ''do it''\<rparr>]\<rparr>"

definition stored :: state where
  \<comment> \<open>a room with one message, unread by \<^verbatim>\<open>bob\<close>\<close>
  "stored = empty_state\<lparr>queue := Some stored_db, rooms := [(''api'', demo_room\<lparr>r_mailbox := [(''bob'', [demo_note])]\<rparr>)],
     files := [(room_msg_path ''api'' 1 ''sv'', Text (renderRoomMsg demo_note))]\<rparr>"

lemma stored_rec: "hd (d_rooms stored_db) \<in> set (d_rooms stored_db)" "rr_name (hd (d_rooms stored_db)) = ''api''"
  "keys_ok (d_dropped stored_db)" "room_durable stored_db (demo_room\<lparr>r_mailbox := [(''bob'', [demo_note])]\<rparr>) ''bob''"
  "storable demo_note" "pathDir (room_msg_path ''api'' 1 ''sv'') = pathJoin [''rooms'', ''api'']"
  "hasSuffix (pathBase (room_msg_path ''api'' 1 ''sv'')) ''.md''" "pathBase (room_msg_path ''api'' 1 ''sv'') \<noteq> ''ROOM.md''"
  "pathBase (room_msg_path ''api'' 1 ''sv'') \<noteq> ''MEMBERS.md''"
  by code_simp+

lemma stored_rooms: "rooms_inv stored"
  by (auto simp: rooms_inv_def stored_def room_ok_def rbox_ok_def rbox_def get_or_def drops_def boxes_bounded_def keys_ok_def
      roomMailboxLimit_def demo_room_def demo_note_def empty_state_def split: if_splits)

theorem room_mail_survives_restart_witness:
  "\<exists>r. map_of (rooms (newState demo_env None True (\<lambda>_. IOok) (\<lambda>_. ([], True)) stored)) ''api'' = Some r
    \<and> map rm_Body (rbox r ''bob'') = [''do it'']"
proof -
  let ?r = "demo_room\<lparr>r_mailbox := [(''bob'', [demo_note])]\<rparr>"
  have r: "map_of (rooms stored) ''api'' = Some ?r" "queue stored = Some stored_db" by (simp_all add: stored_def)
  have b: "rbox ?r ''bob'' = [demo_note]" by (simp add: rbox_def get_or_def)
  have "durable_in stored ?r ''bob''" using stored_rec(4) by (simp add: durable_in_def r(2))
  moreover have "wall_clock (rm_TS m)" if "m \<in> set (rbox ?r ''bob'')" for m
    using that unfolding b by (simp add: demo_note_def wall_clock_def second_def)
  ultimately obtain r' where
    "map_of (rooms (newState demo_env None True (\<lambda>_. IOok) (\<lambda>_. ([], True)) stored)) ''api'' = Some r'"
    "rbox r' ''bob'' = map restored_room [demo_note]"
    using room_mail_survives_restart[OF stored_rooms r(2,1) _ stored_rec(1,2,3)] b by metis
  then show ?thesis by (simp add: restored_room_def demo_note_def)
qed

definition unflushed :: state where
  \<comment> \<open>the same before the writer had its turn\<close>
  "unflushed = stored\<lparr>files := [], queue := Some (snd (q_insert (room_msg_path ''api'' 1 ''sv'') (Text (renderRoomMsg demo_note)) ''m'' stored_db))\<rparr>"

definition room_again :: state where
  "room_again = newState demo_env None True (\<lambda>_. IOok) (\<lambda>_. ([], True)) unflushed"

lemma unflushed_files: "files (flushed (migrated None True unflushed)) = [(room_msg_path ''api'' 1 ''sv'', Text (renderRoomMsg demo_note))]"
  by code_simp

lemma unflushed_facts: "\<not> q_fault (after_crash unflushed)" "OK (fst (opPost demo_env (ask ''post'' [(''from'', ''bob''), (''room'', ''api''), (''body'', ''ok'')]) room_again))"
  by code_simp+

theorem room_log_reloads_witness:
  "(\<exists>r. map_of (rooms room_again) ''api'' = Some r \<and> map rm_Body (r_log r) = [''do it''] \<and> r_seq r = 1)
    \<and> fst (opPost demo_env (ask ''post'' [(''from'', ''bob''), (''room'', ''api''), (''body'', ''ok'')]) room_again)
        = okResponse (JObj [(''room'', JStr ''api''), (''seq'', JNum 2)])"
proof -
  let ?d = "snd (q_insert (room_msg_path ''api'' 1 ''sv'') (Text (renderRoomMsg demo_note)) ''m'' stored_db)"
  have q: "queue unflushed = Some ?d" "hd (d_rooms stored_db) \<in> set (d_rooms ?d)"
    using stored_rec(1) by (simp_all add: unflushed_def q_insert_def)
  have disk: "log_on_disk ''api'' [demo_note] (flushed (migrated None True unflushed))"
    unfolding log_on_disk_def unflushed_files using stored_rec(6-9) by (auto simp: demo_note_def)
  have box: "\<forall>row \<in> set (d_mailbox ?d). mb_kind row = ''room'' \<and> mb_target row = ''api'' \<longrightarrow> mb_seq row \<le> last_seq [demo_note]"
    by (simp add: q_insert_def stored_db_def last_seq_def demo_note_def)
  have body: "trimRight ''do it'' nl = ''do it''" by code_simp
  have "(\<exists>r'. map_of (rooms room_again) ''api'' = Some r' \<and> r_log r' = map reloaded [demo_note] \<and> r_seq r' = last_seq [demo_note])
    \<and> (strVal (Args (ask ''post'' [(''from'', ''bob''), (''room'', ''api''), (''body'', ''ok'')])) ''room'' = ''api''
        \<and> OK (fst (opPost demo_env (ask ''post'' [(''from'', ''bob''), (''room'', ''api''), (''body'', ''ok'')]) room_again)) \<longrightarrow>
        fst (opPost demo_env (ask ''post'' [(''from'', ''bob''), (''room'', ''api''), (''body'', ''ok'')]) room_again)
          = okResponse (JObj [(''room'', JStr ''api''), (''seq'', JNum (last_seq [demo_note] + 1))]))"
    by (rule room_log_reloads[OF q stored_rec(2) unflushed_facts(1) _ _ disk _ _ box room_again_def])
      (use stored_rec(5) in \<open>simp_all add: reaches_disk_def\<close>)
  then show ?thesis using unflushed_facts(2)
    by (auto simp: ask_def strVal_def reloaded_def body demo_note_def last_seq_def)
qed

section \<open>The command line\<close>

theorem flags_read_back_witness:
  "positionalArgs [''bob'', ''--as'', ''sv'', ''--room'', ''hello''] [''--room''] [''--as''] = [''bob'', ''hello'']
    \<and> parseFlag [''bob'', ''--as'', ''sv'', ''--room'', ''hello''] ''--as'' = ''sv''"
  using flags_read_back[of "[''--room'']" "[''--as'']" "[Word ''bob'', Valued ''--as'' ''sv'', Switch ''--room'', Word ''hello'']"
      "[''bob'', ''--as'', ''sv'', ''--room'', ''hello'']" "''--as''" "''--room''"]
  by (simp add: words_def values_of_def first_of_def)

theorem upsert_keeps_rest_witness:
  "upsertCopilotSection (''top'' @ [nl] @ copilotBeginMarker @ ''old'' @ copilotEndMarker @ [nl] @ ''tail'') (renderCopilotSection ''new'')
    = wrapped ''top'' (renderCopilotSection ''new'') ''tail''"
proof -
  let ?s = "''top'' @ [nl] @ copilotBeginMarker @ ''old'' @ copilotEndMarker @ [nl] @ ''tail''"
  have a: "strIndex ?s copilotBeginMarker = Some 4" "marker_free ''new''"
    "strIndex (drop (4 + length copilotBeginMarker) ?s) copilotEndMarker = Some 3"
    "trimRight (take 4 ?s) nl = ''top''"
    "trimLeft (drop (4 + length copilotBeginMarker + 3 + length copilotEndMarker) ?s) nl = ''tail''"
    by code_simp+
  from upsert_keeps_rest[OF a(1,3,2) refl refl] a(4,5) show ?thesis by metis
qed

theorem managed_prompt_guarded_witness:
  "snd (writeManagedPromptFile ''LALIA.md'' ''be kind'' False
     \<lparr>dk_files = [(''LALIA.md'', ''mine'')], dk_readErr = (\<lambda>_. None), dk_writeErr = (\<lambda>_. None)\<rparr>)
   = \<lparr>dk_files = [(''LALIA.md'', ''mine'')], dk_readErr = (\<lambda>_. None), dk_writeErr = (\<lambda>_. None)\<rparr>"
proof -
  let ?d = "\<lparr>dk_files = [(''LALIA.md'', ''mine'')], dk_readErr = (\<lambda>_. None), dk_writeErr = (\<lambda>_. None)\<rparr> :: disk"
  have "\<not> Option.is_none (fst (writeManagedPromptFile ''LALIA.md'' ''be kind'' False ?d))" by code_simp
  then have "fst (writeManagedPromptFile ''LALIA.md'' ''be kind'' False ?d) \<noteq> None" by (auto simp: Option.is_none_def)
  then show ?thesis using managed_prompt_guarded[OF surjective_pairing, of "''LALIA.md''" "''be kind''" False ?d] by blast
qed

theorem stable_nickname_sticks_witness:
  "ResolveAddress (demo_env\<lparr>nicks := [(''rob'', \<lparr>nk_Mode = ''stable'', nk_AgentID = ''01B'', nk_Address = ''bob@p''\<rparr>)]\<rparr>) ''rob'' empty_state
    = Inl (StaleNickname ''rob'' ''01B'')"
proof -
  let ?m = "[(''rob'', \<lparr>nk_Mode = ''stable'', nk_AgentID = ''01B'', nk_Address = ''bob@p''\<rparr>)]"
  let ?resolve = "\<lambda>a. Inr (opResolve demo_env \<lparr>Op = ''resolve'', Args = [(''address'', JStr a)]\<rparr> demo)"
  have "cmdNickname ?resolve (Inr (Some [])) None [''rob'', ''bob@p''] = Nick 0 (line ''rob'') [] (Some ?m)" by code_simp
  from stable_nickname_sticks[OF this refl, of "demo_env\<lparr>nicks := ?m\<rparr>" empty_state]
  obtain i where i: "ResolveAddress demo_env ''bob@p'' demo = Inr i"
    "ResolveAddress (demo_env\<lparr>nicks := ?m\<rparr>) ''rob'' empty_state = Inl (StaleNickname ''rob'' i)"
    by (auto simp: empty_state_def)
  have "ResolveAddress demo_env ''bob@p'' demo = Inr ''01B''" by code_simp
  then show ?thesis using i by simp
qed

end
