(* ===== verification/Agents_Table.thy ===== *)
theory Agents_Table
  imports Nicknames "HOL-Library.Multiset"
begin

text \<open>
  The listing of agents (\<^verbatim>\<open>cmdAgents\<close> of \<^verbatim>\<open>client.go\<close>): a flat table, or the
  agents grouped by repository. A repository's agents are sorted by worktree, the repositories by
  their number of agents; Go's sort is not stable, so the order of equal ones is unspecified, and
  so is the order of the map of repositories: here it is the order of the rows.
\<close>

section \<open>Fields of a row\<close>

type_synonym row = "(string, json) gomap"

definition time_field :: "row \<Rightarrow> string \<Rightarrow> time option" where
  \<comment> \<open>\<^verbatim>\<open>time.Parse\<close> of a field asserted to be a string; a text that does not parse is the zero time\<close>
  "time_field m k = (case jget m k of JStr s \<Rightarrow> Some (case parseRFC3339 s of None \<Rightarrow> zero_time | Some t \<Rightarrow> t) | _ \<Rightarrow> None)"

fun each_row :: "('a \<Rightarrow> string option) \<Rightarrow> 'a list \<Rightarrow> string option" where
  \<comment> \<open>the rows' texts in order, unless one of them panics\<close>
  "each_row f [] = Some []"
| "each_row f (x # xs) = (case (f x, each_row f xs) of (Some a, Some b) \<Rightarrow> Some (a @ b) | _ \<Rightarrow> None)"

fun row_objs :: "json list \<Rightarrow> row list option" where
  \<comment> \<open>\<^verbatim>\<open>row.(map[string]any)\<close> of every row\<close>
  "row_objs [] = Some []"
| "row_objs (x # xs) = (case (obj_of x, row_objs xs) of (Some m, Some ms) \<Rightarrow> Some (m # ms) | _ \<Rightarrow> None)"

definition sep :: string where "sep = ''  ''"

definition cols :: "string list \<Rightarrow> string" where
  \<comment> \<open>the columns of one line\<close>
  "cols cs = line (joinWith sep cs)"

section \<open>The flat table\<close>

definition flat_header :: "bool \<Rightarrow> string" where
  "flat_header wide =
     (if wide then cols [padTo 26 ''agent_id'', padTo 16 ''name'', padTo 28 ''project'', padTo 12 ''harness'',
          padTo 12 ''branch'', padTo 10 ''role'', padTo 12 ''started'', padTo 12 ''last_seen'', padTo 7 ''lease'', ''cwd'']
      else cols [padTo 16 ''name'', padTo 20 ''project'', padTo 12 ''harness'', padTo 12 ''branch'', padTo 12 ''role'',
          padTo 12 ''last_seen'', ''lease''])"

definition flat_row :: "time \<Rightarrow> bool \<Rightarrow> row \<Rightarrow> string option" where
  "flat_row n wide m =
     (case (time_field m ''last_seen_at'', time_field m ''started_at'') of
        (Some seen, Some started) \<Rightarrow>
          let lease = str_of (jget m ''lease_status'')
          in Some (if wide then cols [fmtS 26 (jget m ''agent_id''), fmtS 16 (jget m ''name''), fmtS 28 (jget m ''project''),
                 fmtS 12 (jget m ''harness''), fmtS 12 (jget m ''branch''), fmtS 10 (jget m ''role''),
                 padTo 12 (take 10 (rfc3339 started)), padTo 12 (humanizeDuration n seen), padTo 7 lease, fmtS 0 (jget m ''cwd'')]
             else cols [fmtS 16 (jget m ''name''), fmtS 20 (jget m ''project''), fmtS 12 (jget m ''harness''),
                 fmtS 12 (jget m ''branch''), fmtS 12 (jget m ''role''), padTo 12 (humanizeDuration n seen), lease])
      | _ \<Rightarrow> None)"

section \<open>Grouped by repository\<close>

type_synonym repos = "(string, string \<times> row list) gomap"  \<comment> \<open>path to name and agents\<close>

fun group_agents :: "row list \<Rightarrow> repos \<Rightarrow> row list \<Rightarrow> (repos \<times> row list) option" where
  \<comment> \<open>the repositories, and the agents outside of any\<close>
  "group_agents [] gs outside = Some (gs, outside)"
| "group_agents (m # ms) gs outside =
     (let root = str_of (jget m ''main_repo_root'')
      in if root = [] then group_agents ms gs (outside @ [m])
         else case map_of gs root of
           None \<Rightarrow> (case jget m ''project'' of
               JStr p \<Rightarrow> group_agents ms (AList.update root (p, [m]) gs) outside
             | _ \<Rightarrow> None)
         | Some (nm, ags) \<Rightarrow> group_agents ms (AList.update root (nm, ags @ [m]) gs) outside)"

definition by_size :: "repos \<Rightarrow> repos" where
  "by_size gs = sort_key (\<lambda>(path, nm, ags). - int (length ags)) gs"

definition is_main :: "row \<Rightarrow> bool" where
  "is_main m \<longleftrightarrow> str_of (jget m ''worktree_kind'') = ''main''"

definition by_worktree :: "row list \<Rightarrow> row list" where
  \<comment> \<open>the main checkout first, the others by the name of their worktree\<close>
  "by_worktree ags = (let by_name = sort_key (\<lambda>m. str_of (jget m ''worktree''))
     in by_name (filter is_main ags) @ by_name (filter (\<lambda>m. \<not> is_main m) ags))"

definition repo_row :: "time \<Rightarrow> bool \<Rightarrow> row \<Rightarrow> string option" where
  "repo_row n wide m =
     (case time_field m ''last_seen_at'' of
        None \<Rightarrow> None
      | Some seen \<Rightarrow>
          let kind = str_of (jget m ''worktree_kind'');
              detail = (if kind = ''secondary'' then '' ('' @ fmtS 0 (jget m ''worktree'') @ '')'' else [])
          in Some ((if kind = ''main'' then ''  main:     '' else ''  worktree: '')
               @ cols [fmtS 16 (jget m ''name''), fmtS 14 (jget m ''branch''), padTo 7 (str_of (jget m ''lease_status'')),
                    fmtS 12 (jget m ''harness''), padTo 10 (humanizeDuration n seen) @ detail]
               @ (if wide then line (''            id:'' @ fmtS 0 (jget m ''agent_id'') @ ''  cwd:'' @ fmtS 0 (jget m ''cwd''))
                  else [])))"

definition show_repo :: "time \<Rightarrow> bool \<Rightarrow> string \<times> string \<times> row list \<Rightarrow> string option" where
  "show_repo n wide g = (case g of (path, nm, ags) \<Rightarrow>
     map_option (\<lambda>rows. line (''repo: '' @ path @ '' ('' @ nm @ '')'') @ rows) (each_row (repo_row n wide) (by_worktree ags)))"

definition outside_row :: "time \<Rightarrow> bool \<Rightarrow> row \<Rightarrow> string option" where
  "outside_row n wide m =
     (case time_field m ''last_seen_at'' of
        None \<Rightarrow> None
      | Some seen \<Rightarrow>
          let project = str_of (jget m ''project'');
              project = (if project \<noteq> [] then '' (--project='' @ project @ '')'' else [])
          in Some (sep @ cols [fmtS 16 (jget m ''name''), ''(cwd: '' @ fmtS 20 (jget m ''cwd'') @ project @ '')'',
                 padTo 7 (str_of (jget m ''lease_status'')), fmtS 12 (jget m ''harness''), humanizeDuration n seen]
               @ (if wide then line (''            id:'' @ fmtS 0 (jget m ''agent_id'')) else [])))"

definition show_groups :: "time \<Rightarrow> bool \<Rightarrow> repos \<times> row list \<Rightarrow> string option" where
  "show_groups n wide go = (case go of (gs, outside) \<Rightarrow>
     (case (each_row (show_repo n wide) (by_size gs), each_row (outside_row n wide) outside) of
        (Some a, Some b) \<Rightarrow> Some (a @ (if outside \<noteq> [] then line ''outside:'' @ b else []))
      | _ \<Rightarrow> None))"

section \<open>The command\<close>

definition show_agents :: "time \<Rightarrow> (json list \<Rightarrow> string) \<Rightarrow> string list \<Rightarrow> json list \<Rightarrow> string option" where
  \<comment> \<open>\<open>indent\<close> is \<^verbatim>\<open>json.MarshalIndent\<close>\<close>
  "show_agents n indent args rows =
     (let wide = parseBoolFlag args ''--wide''
      in if parseBoolFlag args ''--json'' then Some (line (indent rows))
         else if parseBoolFlag args ''--flat'' then
           Option.bind (row_objs rows) (\<lambda>ms. map_option ((@) (flat_header wide)) (each_row (flat_row n wide) ms))
         else Option.bind (row_objs rows) (\<lambda>ms. Option.bind (group_agents ms [] []) (show_groups n wide)))"

definition cmdAgents :: "time \<Rightarrow> (json list \<Rightarrow> string) \<Rightarrow> string list \<Rightarrow> prog" where
  "cmdAgents n indent args = Call ''agents'' [] (\<lambda>r. handle r
     (\<lambda>d. case d of
        JArr rows \<Rightarrow> (case show_agents n indent args rows of None \<Rightarrow> Crash | Some out \<Rightarrow> prints out)
      | _ \<Rightarrow> quiet d))"

lemma honest_agents [simp]: "honest (cmdAgents n indent args)"
  unfolding cmdAgents_def by (rule honest_call) (simp split: json.split option.split)

section \<open>Every agent is listed once\<close>

definition rows_in :: "repos \<Rightarrow> row list \<Rightarrow> row multiset" where
  \<comment> \<open>the rows of a grouping\<close>
  "rows_in gs outside = mset (concat (map (\<lambda>(path, nm, ags). ags) gs)) + mset outside"

definition grouping_ok :: "repos \<Rightarrow> row list \<Rightarrow> bool" where
  \<comment> \<open>a repository has agents, all of them its own\<close>
  "grouping_ok gs outside \<longleftrightarrow> keys_ok gs
     \<and> (\<forall>path nm ags. map_of gs path = Some (nm, ags) \<longrightarrow> path \<noteq> [] \<and> ags \<noteq> []
          \<and> (\<forall>m \<in> set ags. str_of (jget m ''main_repo_root'') = path))
     \<and> (\<forall>m \<in> set outside. str_of (jget m ''main_repo_root'') = [])"

lemma rows_in_new: "map_of gs root = None \<Longrightarrow> rows_in (AList.update root (p, [m]) gs) outside = add_mset m (rows_in gs outside)"
  by (induction gs) (auto simp: rows_in_def split: if_splits)

lemma rows_in_more:
  "map_of gs root = Some (nm, ags) \<Longrightarrow>
     rows_in (AList.update root (nm, ags @ [m]) gs) outside = add_mset m (rows_in gs outside)"
  by (induction gs) (auto simp: rows_in_def split: if_splits)

lemma grouping_ok_update:
  assumes "grouping_ok gs outside" "str_of (jget m ''main_repo_root'') = root" "root \<noteq> []"
    "ags = (case map_of gs root of None \<Rightarrow> [] | Some (nm, ags) \<Rightarrow> ags)"
  shows "grouping_ok (AList.update root (nm', ags @ [m]) gs) outside"
  using assms by (auto simp: grouping_ok_def split: option.splits if_splits)

lemma group_agents_partition:
  assumes "group_agents ms gs outside = Some (gs', outside')" "grouping_ok gs outside"
  shows "rows_in gs' outside' = mset ms + rows_in gs outside \<and> grouping_ok gs' outside'"
  using assms
proof (induction ms gs outside rule: group_agents.induct)
  case (2 m ms gs outside)
  define root where "root = str_of (jget m ''main_repo_root'')"
  note step = 2(4)[unfolded group_agents.simps Let_def, folded root_def]
  show ?case
  proof (cases "root = []")
    case True
    then have "grouping_ok gs (outside @ [m])" using 2(5) by (auto simp: grouping_ok_def root_def)
    then show ?thesis using 2(1)[OF refl] True step by (auto simp: root_def rows_in_def)
  next
    case False
    show ?thesis
    proof (cases "map_of gs root")
      case None
      then obtain p where p: "jget m ''project'' = JStr p"
        "group_agents ms (AList.update root (p, [m]) gs) outside = Some (gs', outside')"
        using step False by (auto split: json.splits)
      have "grouping_ok (AList.update root (p, [m]) gs) outside"
        using grouping_ok_update[OF 2(5) root_def[symmetric] False, of "[]"] None by simp
      moreover have "rows_in (AList.update root (p, [m]) gs) outside = add_mset m (rows_in gs outside)"
        using None by (rule rows_in_new)
      ultimately show ?thesis using 2(2)[OF root_def False None p(1) p(2)] by simp
    next
      case (Some g)
      obtain nm ags where g: "g = (nm, ags)" by (cases g)
      have "grouping_ok (AList.update root (nm, ags @ [m]) gs) outside"
        using grouping_ok_update[OF 2(5) root_def[symmetric] False, of ags] Some g by simp
      moreover have "rows_in (AList.update root (nm, ags @ [m]) gs) outside = add_mset m (rows_in gs outside)"
        using Some[unfolded g] by (rule rows_in_more)
      moreover have "group_agents ms (AList.update root (nm, ags @ [m]) gs) outside = Some (gs', outside')"
        using step Some g False by simp
      ultimately show ?thesis using 2(3)[OF root_def False Some g[symmetric]] by simp
    qed
  qed
qed simp

section \<open>What the daemon's rows print\<close>

definition agent_row :: "env \<Rightarrow> agent \<Rightarrow> row" where
  "agent_row e a = (case agent_json e a of JObj m \<Rightarrow> m | _ \<Rightarrow> [])"

lemma agent_row_fields:
  "time_field (agent_row e a) ''last_seen_at'' \<noteq> None" "time_field (agent_row e a) ''started_at'' \<noteq> None"
  "jget (agent_row e a) ''project'' = JStr (ag_Project a)"
  "jget (agent_row e a) ''main_repo_root'' = JStr (ag_MainRepoRoot a)"
  by (simp_all add: agent_row_def agent_json_def time_field_def jget_def get_or_def)

lemma row_objs_agents: "row_objs (map (agent_json e) xs) = Some (map (agent_row e) xs)"
  by (induction xs) (simp_all add: obj_of_def agent_json_def agent_row_def)

lemma each_row_total: "(\<And>x. x \<in> set xs \<Longrightarrow> f x \<noteq> None) \<Longrightarrow> each_row f xs = Some (concat (map (\<lambda>x. the (f x)) xs))"
  by (induction xs) (fastforce split: option.splits)+

lemma group_agents_total:
  "(\<And>m. m \<in> set ms \<Longrightarrow> \<exists>p. jget m ''project'' = JStr p) \<Longrightarrow> group_agents ms gs outside \<noteq> None"
proof (induction ms gs outside rule: group_agents.induct)
  case (2 m ms gs outside)
  obtain p where p: "jget m ''project'' = JStr p" using 2(4)[of m] by auto
  have rest: "\<And>m'. m' \<in> set ms \<Longrightarrow> \<exists>p. jget m' ''project'' = JStr p" using 2(4) by simp
  show ?case
    using 2(1)[OF refl _ rest] 2(2)[OF refl _ _ p rest] 2(3)[OF refl _ _ _ rest] p
    by (simp add: Let_def split: option.split prod.split)
qed simp

lemma mset_by_worktree [simp]: "mset (by_worktree ags) = mset ags"
  by (induction ags) (simp_all add: by_worktree_def Let_def)

lemma set_by_worktree [simp]: "set (by_worktree ags) = set ags"
  by (metis mset_by_worktree set_mset_mset)

lemma rows_in_by_size [simp]: "rows_in (by_size gs) outside = rows_in gs outside"
proof -
  have "mset (concat (map h (sort_key k gs))) = mset (concat (map h gs))" for h :: "_ \<Rightarrow> row list" and k :: "_ \<Rightarrow> int"
    by (simp add: mset_concat) (metis mset_map mset_sort sum_mset_sum_list)
  then show ?thesis by (simp add: rows_in_def by_size_def)
qed

lemma rows_total:
  "time_field m ''last_seen_at'' \<noteq> None \<Longrightarrow> repo_row n wide m \<noteq> None"
  "time_field m ''last_seen_at'' \<noteq> None \<Longrightarrow> outside_row n wide m \<noteq> None"
  "time_field m ''last_seen_at'' \<noteq> None \<Longrightarrow> time_field m ''started_at'' \<noteq> None \<Longrightarrow> flat_row n wide m \<noteq> None"
  by (auto simp: repo_row_def outside_row_def flat_row_def Let_def split: option.split)

lemma show_groups_total:
  assumes "\<And>m. m \<in># rows_in gs outside \<Longrightarrow> time_field m ''last_seen_at'' \<noteq> None"
  shows "show_groups n wide (gs, outside) = Some
    (concat (map (\<lambda>g. the (show_repo n wide g)) (by_size gs))
     @ (if outside \<noteq> [] then line ''outside:'' @ concat (map (\<lambda>m. the (outside_row n wide m)) outside) else []))"
proof -
  have "show_repo n wide g \<noteq> None" if g: "g \<in> set (by_size gs)" for g
  proof -
    obtain path nm ags where ags: "g = (path, nm, ags)" by (cases g)
    have "time_field m ''last_seen_at'' \<noteq> None" if "m \<in> set (by_worktree ags)" for m
      using assms[of m] that g ags by (force simp: rows_in_def by_size_def)
    then have "\<And>m. m \<in> set (by_worktree ags) \<Longrightarrow> repo_row n wide m \<noteq> None" by (rule rows_total)
    then have "each_row (repo_row n wide) (by_worktree ags) \<noteq> None" by (simp add: each_row_total del: set_by_worktree)
    then show ?thesis by (simp add: show_repo_def ags)
  qed
  moreover have "outside_row n wide m \<noteq> None" if "m \<in> set outside" for m
    using assms[of m] that by (intro rows_total) (simp add: rows_in_def)
  ultimately show ?thesis by (simp add: show_groups_def each_row_total)
qed

text \<open>C35: The listing of agents never fails: whatever the flags, the command prints and exits
  with zero, and leaves the state as it is. The flat table has one line per registered agent, and the
  grouped view is a partition: every agent stands once, under the repository it belongs to or
  outside of any, no repository is empty or listed twice, and sorting loses nobody.\<close>

theorem agents_lists_everyone:
  assumes "rows = map (agent_row e) (map snd (agents s))" "wide \<longleftrightarrow> parseBoolFlag args ''--wide''"
  shows "\<exists>out gs outside. drive (cmdAgents n indent args) c sign e s = (Finished 0 out [], s)
    \<and> group_agents rows [] [] = Some (gs, outside) \<and> grouping_ok gs outside
    \<and> rows_in (by_size gs) outside = mset rows \<and> (\<forall>path nm ags. (path, nm, ags) \<in> set gs \<longrightarrow> mset (by_worktree ags) = mset ags)
    \<and> (\<not> parseBoolFlag args ''--json'' \<longrightarrow> out =
        (if parseBoolFlag args ''--flat'' then flat_header wide @ concat (map (\<lambda>m. the (flat_row n wide m)) rows)
         else concat (map (\<lambda>g. the (show_repo n wide g)) (by_size gs))
           @ (if outside \<noteq> [] then line ''outside:'' @ concat (map (\<lambda>m. the (outside_row n wide m)) outside) else [])))"
proof -
  let ?js = "map (agent_json e) (map snd (agents s))"
  have d: "dispatch e \<lparr>Op = ''agents'', Args = []\<rparr> s = (Done (opAgents e s), s)"
    by (simp add: dispatch_def auth_gate_def strVal_def renewLease_def run_op_def answer_def)
  have objs: "row_objs ?js = Some rows" unfolding assms(1) by (rule row_objs_agents)
  obtain gs outside where g: "group_agents rows [] [] = Some (gs, outside)"
    using group_agents_total[of rows "[]" "[]"] agent_row_fields(3) assms(1) by fastforce
  have ok: "rows_in gs outside = mset rows" "grouping_ok gs outside"
    using group_agents_partition[OF g] by (auto simp: grouping_ok_def rows_in_def)
  have seen: "time_field m ''last_seen_at'' \<noteq> None" "time_field m ''started_at'' \<noteq> None" if "m \<in> set rows" for m
    using that agent_row_fields(1,2) unfolding assms(1) by auto
  then have "\<And>m. m \<in> set rows \<Longrightarrow> flat_row n wide m \<noteq> None" by (intro rows_total) simp_all
  note flat = each_row_total[of rows "flat_row n wide", OF this]
  have groups: "show_groups n wide (gs, outside) = Some
    (concat (map (\<lambda>g. the (show_repo n wide g)) (by_size gs))
     @ (if outside \<noteq> [] then line ''outside:'' @ concat (map (\<lambda>m. the (outside_row n wide m)) outside) else []))"
    by (rule show_groups_total) (use seen(1) ok(1) in auto)
  have shown: "show_agents n indent args ?js = Some
      (if parseBoolFlag args ''--json'' then line (indent ?js)
       else if parseBoolFlag args ''--flat'' then flat_header wide @ concat (map (\<lambda>m. the (flat_row n wide m)) rows)
       else concat (map (\<lambda>g. the (show_repo n wide g)) (by_size gs))
         @ (if outside \<noteq> [] then line ''outside:'' @ concat (map (\<lambda>m. the (outside_row n wide m)) outside) else []))"
  unfolding show_agents_def objs by (simp add: g assms(2)[symmetric] flat groups)
  let ?out = "the (show_agents n indent args ?js)"
  have "drive (cmdAgents n indent args) c sign e s = (Finished 0 ?out [], s)"
    using shown by (simp add: cmdAgents_def request_for_def strVal_def d opAgents_def okResponse_def handle_def prints_def)
  then show ?thesis using g ok shown by (intro exI[of _ ?out] exI[of _ gs] exI[of _ outside]) simp
qed

end
