(* ===== verification/Handler_Walk.thy ===== *)
theory Handler_Walk
  imports Daemon
begin

text \<open>
  What holds across every handler. A locale states what a relation between states must satisfy to
  hold from before a request to after it: that it is a preorder, does not see the parts of the state
  outside some view, and allows the few operations that may change the view: a write enqueued, a
  channel opened, a reader released. Every handler but those that tell and read peers, the sweeper and every blocked
  read is then covered at once; with telling and reading allowed too, every request. \<open>Durability\<close>
  interprets the second for the write pipeline, \<open>Mail_Order\<close> the first for the
  conversations of peers, where telling and reading are what there is to say.
\<close>

section \<open>The contract\<close>

definition core :: "db \<Rightarrow> queueRow list \<times> queueRow list \<times> int" where
  \<comment> \<open>the tables of the write queue\<close>
  "core d = (d_queue d, d_dead d, d_nextID d)"

lemma core_ops [simp]:
  "core (mailboxAppend a b c i f t x d) = core d" "core (mailboxDeleteOne a b c i d) = core d"
  "core (mailboxConsumeAll a b c d) = core d" "core (mailboxDropOldest a b c i d) = core d"
  "core (roomUpsert a b c t d) = core d" "core (roomAddMember a b d) = core d"
  "core (roomRemoveMember a b d) = core d" "core (roomSetArchived a v d) = core d"
  by (simp_all add: core_def mailboxAppend_def mailboxDeleteOne_def mailboxConsumeAll_def mailboxDropOldest_def
      roomUpsert_def roomAddMember_def roomRemoveMember_def roomSetArchived_def Let_def)

lemma getOrCreate_stored: "getOrCreateChannel a b s = (k, c, t) \<Longrightarrow> map_of (channels t) k = Some c"
  by (auto simp: getOrCreateChannel_def Let_def split: option.splits)

locale quiet_walk =
  fixes view :: "state \<Rightarrow> 'v" and R :: "state \<Rightarrow> state \<Rightarrow> bool"
  assumes same_view: "view t = view s \<Longrightarrow> R s t"
    and chained: "R s t \<Longrightarrow> R t u \<Longrightarrow> R s u"
    and view_rooms: "view (put_room n r s) = view s"
    and view_goroutines: "view (send w v s) = view s" "view (unblock w s) = view s" "view (snd (block pd s)) = view s"
      "view (s\<lparr>bufs := bs\<rparr>) = view s" "view (s\<lparr>stopped := down\<rparr>) = view s"
    and view_agents: "view (put_agent ag s) = view s" "view (indexAgent ag s) = view s" "view (unindexAgent i s) = view s"
      "view (snd (ensureKey e n s)) = view s" "view (removeKey n s) = view s" "view (removeAgentFile i s) = view s"
    and view_tasks: "view (put_tasks pid l s) = view s"
    and view_store: "(\<And>q. core (dbop q) = core q) \<Longrightarrow> view (with_queue dbop s) = view s"
    and enqueues: "R s (enqueueWrite p c m s)"
    and delivers: "R s (snd (deliverAny d kd g msg s))"
    and opens: "R s (snd (snd (getOrCreateChannel a b s)))"
    and releasing: "map_of (channels s) k = Some ch \<Longrightarrow> R s (releaseWaiter k ch n reason s)"
    and timing_out: "map_of (channels s) k = Some ch \<Longrightarrow> R s (snd (chanRead_timeout k ch n s))"
    and forgetting: "R s (s\<lparr>anyWaiter := AList.delete n (anyWaiter s)\<rparr>)"
begin

lemma view_cong: "view t = view t' \<Longrightarrow> R s t = R s t'"
  by (metis chained same_view)

lemma reflexive [simp]: "R s s"
  by (rule same_view) simp

lemma memory [simp]:
  "R s (put_room n r t) = R s t" "R s (send ch v t) = R s t" "R s (unblock ch t) = R s t"
  "R s (snd (block p t)) = R s t" "R s (t\<lparr>bufs := bs\<rparr>) = R s t" "R s (t\<lparr>stopped := b\<rparr>) = R s t"
  "R s (put_agent a t) = R s t" "R s (indexAgent a t) = R s t" "R s (unindexAgent i t) = R s t"
  "R s (snd (ensureKey e nm t)) = R s t" "R s (removeKey nm t) = R s t" "R s (removeAgentFile i t) = R s t"
  "R s (put_tasks pid l t) = R s t"
  by (rule view_cong; simp add: view_rooms view_goroutines view_agents view_tasks)+

lemma store [simp]:
  "R s (with_queue (mailboxAppend a b c i f ts x) t) = R s t" "R s (with_queue (mailboxDeleteOne a b c i) t) = R s t"
  "R s (with_queue (mailboxConsumeAll a b c) t) = R s t" "R s (with_queue (mailboxDropOldest a b c i) t) = R s t"
  "R s (with_queue (roomUpsert a b c ts) t) = R s t" "R s (with_queue (roomAddMember a b) t) = R s t"
  "R s (with_queue (roomRemoveMember a b) t) = R s t" "R s (with_queue (roomSetArchived a v) t) = R s t"
  by (rule view_cong; simp add: view_store)+

lemma writes_on [simp]: "R s t \<Longrightarrow> R s (enqueueWrite p c m t)"
  by (rule chained[OF _ enqueues])

lemma delivers_on [simp]: "R s t \<Longrightarrow> R s (snd (deliverAny d kd g m t))"
  by (rule chained[OF _ delivers])

lemma forgets_on [simp]: "R s t \<Longrightarrow> anyWaiter t = w \<Longrightarrow> R s (t\<lparr>anyWaiter := AList.delete n w\<rparr>)"
  using chained forgetting by blast

lemma opened: "getOrCreateChannel a b s = (k, c, t) \<Longrightarrow> R s t \<and> map_of (channels t) k = Some c"
  using opens[of s a b] getOrCreate_stored[of a b s k c t] by simp

section \<open>The handlers\<close>

lemma loops: "(\<And>x u. x \<in> set xs \<Longrightarrow> R s u \<Longrightarrow> R s (f x u)) \<Longrightarrow> R s t \<Longrightarrow> R s (fold f xs t)"
  by (rule fold_keeps)

lemma persisting [simp]:
  "R s t \<Longrightarrow> R s (persistAgent a t)" "R s t \<Longrightarrow> R s (persistRoomMembers r t)" "R s t \<Longrightarrow> R s (persistRoomDefinition r t)"
  "R s t \<Longrightarrow> R s (persistTaskList l t)" "R s t \<Longrightarrow> R s (room_write n m t)"
  by (simp_all add: persistAgent_def persistRoomMembers_def persistRoomDefinition_def persistTaskList_def room_write_def)

lemma rooms_handlers:
  "R s (snd (opRoomCreate e req s))" "R s (snd (opJoin req s))" "R s (snd (opLeave req s))"
  by (simp_all add: opRoomCreate_def opJoin_def opLeave_def Let_def split: option.split)

lemma deliver: "R s t \<Longrightarrow> R s (snd (deliver_room p m r t))"
proof -
  have "R s (snd (fold (deliver_member p m) ns (r', t)))" if "R s t" for ns r' t
    using that
  proof (induction ns arbitrary: r' t)
    case (Cons n ns)
    have "R s (snd (deliver_member p m n (r', t)))"
      using Cons.prems by (auto simp: deliver_member_cases split: option.split bool.split)
    then show ?case using Cons.IH[of "snd (deliver_member p m n (r', t))" "fst (deliver_member p m n (r', t))"] by simp
  qed simp
  then show "R s t \<Longrightarrow> R s (snd (deliver_room p m r t))" by (simp add: deliver_room_def)
qed

lemma posts: "R s (snd (opPost e req s))" "R s t \<Longrightarrow> R s (internalPost e n f b t)"
  by (simp_all add: opPost_def internalPost_def Let_def case_prod_unfold deliver split: option.split)

lemma room_reads: "R s (snd (roomRead e f n t s))"
  by (simp add: roomRead_def Let_def case_prod_unfold split: option.split)

lemma releases: "R s t \<Longrightarrow> R s (release_all ns reason t)"
proof -
  have "R s u \<Longrightarrow> R s (case map_of (channels u) k of None \<Rightarrow> u
      | Some c \<Rightarrow> if is_peer c n then releaseWaiter k c n reason u else u)" for k n u
    by (auto intro: chained releasing split: option.split)
  then show "R s t \<Longrightarrow> R s (release_all ns reason t)"
    unfolding release_all_def by (intro loops)
qed

lemma evictions: "R s t \<Longrightarrow> R s (evict_rooms ns t)"
  unfolding evict_rooms_def by (intro loops; simp add: Let_def case_prod_unfold split: option.split)

lemma registry_handlers:
  "R s (snd (opRegister e req s))" "R s (snd (opUnregister e req s))" "R s (snd (opRenew e req s))"
  "R s (renewLease e n s)" "R s (sweep e s)"
proof -
  show "R s (snd (opRegister e req s))"
    by (simp add: opRegister_def Let_def case_prod_unfold split: option.split sum.split)
  show "R s (snd (opUnregister e req s))"
    by (simp add: opUnregister_def Let_def evictions releases split: option.split)
  show "R s (snd (opRenew e req s))" "R s (renewLease e n s)"
    by (simp_all add: opRenew_def renewLease_def Let_def split: option.split)
  have "R s (fold unindexAgent ids s)" for ids by (rule loops) simp_all
  then have "R s (fold removeAgentFile ids (evict_rooms ns (release_all ns ''lease expired'' (fold unindexAgent ids s))))" for ids ns
    by (intro loops) (simp_all add: evictions releases)
  then show "R s (sweep e s)" using sweep_parts[of e s] by auto
qed

lemma room_upkeep:
  "R s t \<Longrightarrow> R s (ensureRoomWithMembers e n by ms t)" "R s t \<Longrightarrow> R s (snd (archiveRoom n t))"
  "R s t \<Longrightarrow> R s (snd (unarchiveRoom n t))" "R s t \<Longrightarrow> R s (on_room n persistRoomMembers t)"
  "R s t \<Longrightarrow> R s (on_room n persistRoomDefinition t)"
proof -
  have p: "R s u \<Longrightarrow> R s (persist_members n ms u)" for n ms u
    unfolding persist_members_def by (rule loops) simp_all
  show "R s t \<Longrightarrow> R s (ensureRoomWithMembers e n by ms t)"
    by (simp add: ensureRoomWithMembers_def Let_def p split: option.split)
qed (simp_all add: archiveRoom_def unarchiveRoom_def on_room_def Let_def split: option.split)

lemma gc: "R s (snd (opRoomsGC req s))"
proof -
  have "R s t \<Longrightarrow> R s (snd (archive_all cs t))" for cs t
    by (induction cs arbitrary: t) (auto simp: case_prod_unfold room_upkeep)
  then show ?thesis by (simp add: opRoomsGC_def Let_def case_prod_unfold split: option.split)
qed

lemma row_changes: "R s t \<Longrightarrow> R s (change_row e pid n f l t)" "R s t \<Longrightarrow> R s (drop_row e pid n t)"
  by (simp_all add: change_row_def drop_row_def Let_def split: option.split)

lemma task_handlers:
  "R s (snd (opTaskUnassign e req s))" "R s (snd (opTaskReassign e req s))" "R s (snd (opTaskStatus e req s))"
  "R s (snd (opTaskClaim e req s))" "R s (snd (opTaskUnpublish e req s))" "R s (snd (opTaskHandoff e req s))"
proof -
  show "R s (snd (opTaskUnassign e req s))" "R s (snd (opTaskStatus e req s))"
    by (simp_all add: opTaskUnassign_def opTaskStatus_def Let_def case_prod_unfold row_changes split: sum.split)
  show "R s (snd (opTaskClaim e req s))" "R s (snd (opTaskUnpublish e req s))"
    by (simp_all add: opTaskClaim_def opTaskUnpublish_def Let_def case_prod_unfold row_changes room_upkeep split: sum.split)
  have r: "R s t \<Longrightarrow> R s (on_room n (\<lambda>r. put_room n (drop_member o1 r)) t)" for n o1 t
    by (simp add: on_room_def split: option.split)
  show "R s (snd (opTaskReassign e req s))"
    by (simp add: opTaskReassign_def reassign_rooms_def Let_def case_prod_unfold row_changes room_upkeep r split: sum.split)
  have "R s t \<Longrightarrow> R s (fold (hand_room a b) ns t)" for a b ns t
    by (rule loops) (simp_all add: hand_room_def on_room_def Let_def split: option.split)
  then show "R s (snd (opTaskHandoff e req s))" by (simp add: opTaskHandoff_def Let_def split: sum.split)
qed

lemma publishing: "R s (snd (opTaskPublish e req s))"
proof -
  have one: "R s t \<Longrightarrow> R s (snd (publish_one e g f pid ar wr ws t))" for g f pid ar wr ws t
    by (simp add: publish_one_def publish_install_def Let_def case_prod_unfold room_upkeep posts split: sum.split)
  have "R s t \<Longrightarrow> R s (snd (snd (publish_all e i f pid ar wr wss t)))" for i f pid ar wr wss t
    by (induction wss arbitrary: i t) (simp_all add: case_prod_unfold one split: sum.split)
  then show ?thesis
    by (simp add: opTaskPublish_def Let_def case_prod_unfold split: sum.split option.split)
qed

lemma quiet_ops:
  assumes "Op req \<notin> {''tell'', ''read'', ''read-any''}"
  shows "R s (snd (run_op e req s))"
  using assms by (simp add: run_op_def answer_def Let_def rooms_handlers posts registry_handlers gc task_handlers publishing)

lemma across_blocked: "R s (snd (wake e ch s))" "R s (snd (time_out ch s))"
proof -
  show "R s (snd (wake e ch s))"
    by (simp add: wake_def roomRead_recv_def Let_def case_prod_unfold split: option.split list.split pending.split payload.split)
  have "R s (snd (chanRead_timeout k c n (unblock ch s)))" if "map_of (channels (unblock ch s)) k = Some c" for k c n
    using chained[OF _ timing_out[OF that]] by simp
  then show "R s (snd (time_out ch s))"
    by (simp add: time_out_def roomRead_timeout_def readAny_timeout_def Let_def case_prod_unfold split: option.split pending.split)
qed

end

locale handler_walk = quiet_walk view R for view :: "state \<Rightarrow> 'v" and R +
  assumes telling: "map_of (channels s) k = Some ch \<Longrightarrow> R s (snd (tell e k ch f b s))"
    and reading: "map_of (channels s) k = Some ch \<Longrightarrow> R s (snd (chanRead k ch f tmo s))"
    and reading_any: "R s (snd (opReadAny req s))"
begin

lemma tells: "R s (snd (opTell e req s))"
proof -
  have "R s (snd (tell e k c f b u))" if "getOrCreateChannel a p s = (k, c, u)" for a p k c u f b
    using opened[OF that] chained telling by blast
  then show ?thesis by (simp add: opTell_def Let_def split: option.split sum.split prod.split)
qed

lemma reads: "R s (snd (opRead e req s))"
proof -
  have "R s (snd (chanRead k c f t u))" if "getOrCreateChannel a p s = (k, c, u)" for a p k c u f t
    using opened[OF that] chained reading by blast
  then show ?thesis by (simp add: opRead_def Let_def room_reads split: option.split sum.split prod.split)
qed

lemma across_dispatch: "R s (snd (dispatch e req s))"
proof -
  have "R t (snd (run_op e req t))" for t
  proof (cases "Op req \<in> {''tell'', ''read'', ''read-any''}")
    case True
    then show ?thesis using tells reads reading_any by (auto simp: run_op_def answer_def Let_def)
  qed (rule quiet_ops)
  then show ?thesis by (auto simp: dispatch_def intro: chained registry_handlers split: option.split)
qed

end

end
