(* ===== verification/Durability.thy ===== *)
theory Durability
  imports Handler_Walk
begin

text \<open>
  The daemon and its write pipeline together. A locale states what a relation between states must
  satisfy to hold from before a handler to after it: that it is a preorder, ignores the parts of the
  state that are not the pipeline, and allows a write to be enqueued. Every handler, the sweeper and
  every blocked read is then covered at once; interpreting the locale gives the durability of
  acknowledged writes over whole executions, crashes and restarts included.
\<close>

section \<open>The pipeline's view of the state\<close>

definition pipe_view :: "state \<Rightarrow> (queueRow list \<times> queueRow list \<times> int) option \<times> writeOp list \<times> (string \<times> content) list
    \<times> bool list \<times> bool \<times> bool \<times> bool" where
  "pipe_view s = (map_option core (queue s), writes s, commits s, faults s, panicked s, writes_closed s, db_closed s)"

lemma pipe_view_store: "(\<And>d. core (f d) = core d) \<Longrightarrow> pipe_view (with_queue f s) = pipe_view s"
  by (cases "queue s") (simp_all add: pipe_view_def with_queue_def)

lemma pipe_view_memory [simp]:
  "pipe_view (put_room n r s) = pipe_view s" "pipe_view (put_channel k c s) = pipe_view s"
  "pipe_view (send ch v s) = pipe_view s" "pipe_view (unblock ch s) = pipe_view s"
  "pipe_view (snd (deliverAny t kd g m s)) = pipe_view s" "pipe_view (removeAgentFile i s) = pipe_view s"
  "pipe_view (removeKey n s) = pipe_view s" "pipe_view (put_agent a s) = pipe_view s"
  "pipe_view (indexAgent a s) = pipe_view s" "pipe_view (put_tasks pid l s) = pipe_view s"
  "pipe_view (s\<lparr>agents := x1\<rparr>) = pipe_view s" "pipe_view (s\<lparr>nameIdx := x2\<rparr>) = pipe_view s"
  "pipe_view (s\<lparr>anyWaiter := x3\<rparr>) = pipe_view s" "pipe_view (s\<lparr>bufs := x4\<rparr>) = pipe_view s"
  "pipe_view (s\<lparr>blocked := x5\<rparr>) = pipe_view s" "pipe_view (s\<lparr>next_chan := x6\<rparr>) = pipe_view s"
  "pipe_view (s\<lparr>keys := x7\<rparr>) = pipe_view s" "pipe_view (s\<lparr>files := x8\<rparr>) = pipe_view s"
  "pipe_view (s\<lparr>stopped := x9\<rparr>) = pipe_view s" "pipe_view (s\<lparr>tasks := x10\<rparr>) = pipe_view s"
  by (simp_all add: pipe_view_def removeAgentFile_def removeKey_def put_agent_def indexAgent_def put_tasks_def)

lemma pipe_view_parts [simp]:
  "pipe_view (unindexAgent i s) = pipe_view s"
  "pipe_view (releaseWaiter k c n reason s) = pipe_view s"
  "pipe_view (snd (ensureKey e n s)) = pipe_view s"
  by (auto simp: unindexAgent_def releaseWaiter_def ensureKey_def Let_def split: option.splits if_splits)

lemma pipe_view_block: "pipe_view (snd (block p s)) = pipe_view s"
  by (simp add: block_def)

lemma pipe_view_channel: "getOrCreateChannel a b s = (k, c, s') \<Longrightarrow> pipe_view s' = pipe_view s"
  by (auto simp: getOrCreateChannel_def Let_def split: option.splits)

section \<open>The walk over the handlers for the pipeline\<close>

text \<open>For a relation that only sees the pipeline, the contract comes down to one law.\<close>

locale handler_closed =
  fixes R :: "state \<Rightarrow> state \<Rightarrow> bool"
  assumes same_pipe: "pipe_view t = pipe_view s \<Longrightarrow> R s t"
    and pipe_chained: "R s t \<Longrightarrow> R t u \<Longrightarrow> R s u"
    and pipe_enqueues: "R s (enqueueWrite p c m s)"
begin

lemma tell_R: "R s (snd (tell e k c f b s))"
proof (cases "peerOf c f")
  case None
  then show ?thesis by (simp add: tell_def same_pipe)
next
  case (Some peer)
  let ?m = "\<lparr>Seq = c_seq c + 1, From = f, TS = now e, Body = b\<rparr>"
  let ?c = "c\<lparr>c_seq := c_seq c + 1, c_log := c_log c @ [?m]\<rparr>"
  let ?w = "enqueueWrite (channel_path ?c (c_seq c + 1) f) (Text (renderChannelMsg ?m))
     (''peer msg '' @ itoa (c_seq c + 1) @ '' '' @ f @ utf8_arrow @ peer) s"
  have "pipe_view (snd (tell e k c f b s)) = pipe_view ?w"
    using Some by (simp add: tell_def Let_def case_prod_unfold pipe_view_store split: option.split)
  then show ?thesis using pipe_chained[OF pipe_enqueues same_pipe] by blast
qed

end

sublocale handler_closed \<subseteq> handler_walk pipe_view R
proof
  show "R s (snd (tell e k ch f b s))" for s k ch e f b by (rule tell_R)
  show "R s (snd (chanRead k ch f t s))" for s k ch f t
    by (rule same_pipe) (simp add: chanRead_def Let_def case_prod_unfold pipe_view_store pipe_view_block split: option.split list.split)
  show "R s (snd (opReadAny req s))" for s req
    by (rule same_pipe) (simp add: opReadAny_def Let_def case_prod_unfold pipe_view_store pipe_view_block split: option.split)
  show "R s (snd (snd (getOrCreateChannel a b s)))" for s a b
    by (rule same_pipe) (metis pipe_view_channel prod.collapse)
qed (use pipe_chained in \<open>auto intro: same_pipe pipe_enqueues simp: pipe_view_store pipe_view_block chanRead_timeout_def\<close>)

section \<open>The pipeline across handlers, crashes and restarts\<close>

lemma core_cong:
  "core d' = core d \<Longrightarrow> queue_ok d' = queue_ok d" "core d' = core d \<Longrightarrow> ops_ok d' ws = ops_ok d ws"
  "core d' = core d \<Longrightarrow> pairs d' = pairs d"
  by (simp_all add: core_def queue_ok_def ops_ok_def pairs_def)

lemma pipe_view_inv:
  assumes "pipe_view t = pipe_view s"
  shows "pipe_inv t = pipe_inv s \<and> secured t = secured s"
proof (cases "queue s")
  case None
  then show ?thesis using assms by (simp add: pipe_view_def pipe_inv_def secured_unqueued)
next
  case (Some d)
  then obtain d' where d: "queue t = Some d'" "core d' = core d" "writes t = writes s" "commits t = commits s"
    using assms by (auto simp: pipe_view_def)
  then show ?thesis using Some by (simp add: pipe_inv_def secured_queue core_cong[OF d(2)])
qed

definition secures :: "state \<Rightarrow> state \<Rightarrow> bool" where
  "secures s t \<longleftrightarrow> (pipe_inv s \<longrightarrow> pipe_inv t \<and> secured s \<subseteq> secured t)"

definition stays_up :: "state \<Rightarrow> state \<Rightarrow> bool" where
  \<comment> \<open>a daemon that can write goes on writing, and no handler makes a statement err\<close>
  "stays_up s t \<longleftrightarrow> (alive s \<and> queue s \<noteq> None \<longrightarrow> alive t \<and> queue t \<noteq> None \<and> (faults s = [] \<longrightarrow> faults t = []))"

interpretation pipeline: handler_closed secures
proof
  fix s t assume "pipe_view t = pipe_view s"
  from pipe_view_inv[OF this] show "secures s t" by (simp add: secures_def)
next
  fix s p c m
  show "secures s (enqueueWrite p c m s)" using enqueue_keeps by (simp add: secures_def)
qed (unfold secures_def, blast)

interpretation staying: handler_closed stays_up
proof
  fix s t assume "pipe_view t = pipe_view s"
  then show "stays_up s t" by (auto simp: stays_up_def pipe_view_def alive_def)
next
  fix s p c m
  show "stays_up s (enqueueWrite p c m s)"
    using alive_enqueueWrite[of s p c m] by (auto simp: stays_up_def alive_def enqueueWrite_queue enqueueWrite_faults)
qed (simp add: stays_up_def)

text \<open>A new daemon flushes what the last one left and then only reads.\<close>

lemma load_view: "pipe_view (loadRegistry e mig s) = pipe_view s" "pipe_view (loadTaskLists s) = pipe_view s"
  "pipe_view (loadRooms s) = pipe_view s" "pipe_view (replayMailbox e s) = pipe_view s"
proof -
  have a: "pipe_view (load_agent e m x s) = pipe_view s" for m x s
    by (simp add: load_agent_def Let_def split: prod.split content.split)
  have "pipe_view (load_agents e mig k xs s) = pipe_view s" for k xs
    by (induction xs arbitrary: k s) (simp_all add: a)
  then show "pipe_view (loadRegistry e mig s) = pipe_view s" by (simp add: loadRegistry_def)
  show "pipe_view (loadTaskLists s) = pipe_view s"
    unfolding loadTaskLists_def by (rule fold_same) (simp add: load_list_def Let_def split: prod.split content.split)
  show "pipe_view (loadRooms s) = pipe_view s"
    by (simp add: loadRooms_def load_room_def Let_def fold_same[where g = pipe_view] split: option.split)
  have "pipe_view (replay_row e row s) = pipe_view s" for row s
    using pipe_view_channel[of "mb_recipient row" "mb_target row" s]
    by (auto simp: replay_row_def split: prod.split option.split)
  moreover have "pipe_view (replay_dropped row s) = pipe_view s" for row s
    by (simp add: replay_dropped_def split: prod.split option.split)
  ultimately show "pipe_view (replayMailbox e s) = pipe_view s"
    by (simp add: replayMailbox_def fold_same[where g = pipe_view] split: option.split)
qed

lemma put_file_crash: "put_file p c (after_crash s) = after_crash (put_file p c s)"
  by (simp add: put_file_def after_crash_def)

lemma migrated_crash: "\<exists>u. migrated plans te (after_crash s) = after_crash u \<and> pipe_view u = pipe_view s"
proof -
  have put: "pipe_view (put_file p c u) = pipe_view u" for p c u by (simp add: put_file_def)
  have "\<exists>u. fold (\<lambda>(p, c). put_file p c) ws (after_crash s) = after_crash u \<and> pipe_view u = pipe_view s" for ws
    by (induction ws arbitrary: s) (auto simp: put_file_crash put, metis put)
  then show ?thesis by (auto simp: migrated_def split: option.split)
qed

lemma newState_keeps:
  assumes "pipe_inv s"
  shows "pipe_inv (newState e plans te io mig s) \<and> secured s \<subseteq> secured (newState e plans te io mig s)"
proof -
  obtain u where u: "migrated plans te (after_crash s) = after_crash u" "pipe_view u = pipe_view s"
    using migrated_crash by blast
  then have inv: "pipe_inv u" "secured u = secured s" using pipe_view_inv[OF u(2)] assms by auto
  have "pipe_view (newState e plans te io mig s) = pipe_view (flushPendingWrites io (after_crash u))"
    by (simp add: newState_def Let_def load_view u(1))
  then show ?thesis using pipe_view_inv crash_keeps[OF inv(1), of io] inv(2) by metis
qed

inductive lives :: "state \<Rightarrow> state \<Rightarrow> bool" where
  \<comment> \<open>an event, or the end of the process at any moment and a new one\<close>
  event: "allowed ev s \<Longrightarrow> lives s (apply_event ev s)"
| restart: "lives s (newState e plans te io mig s)"

inductive_cases livesE [elim]: "lives s t"

lemma release_channel_fields [simp]:
  "staged (release_channel k s) = staged s" "faults (release_channel k s) = faults s"
  "queue (release_channel k s) = queue s" "writes (release_channel k s) = writes s"
  "commits (release_channel k s) = commits s" "panicked (release_channel k s) = panicked s"
  "writes_closed (release_channel k s) = writes_closed s" "db_closed (release_channel k s) = db_closed s"
  by (simp_all add: release_channel_def case_prod_unfold fold_same[where g = staged] fold_same[where g = faults] fold_same[where g = queue] fold_same[where g = writes]
      fold_same[where g = commits] fold_same[where g = panicked] fold_same[where g = writes_closed]
      fold_same[where g = db_closed] split: option.split)

lemma requestStop_fields:
  "staged (requestStop s) = staged s" "faults (requestStop s) = faults s"
  "queue (requestStop s) = queue s" "writes (requestStop s) = writes s" "commits (requestStop s) = commits s"
  "db_closed (requestStop s) = db_closed s" "panicked (requestStop s) \<longleftrightarrow> panicked s \<or> writes_closed s"
  "writes_closed (requestStop s)"
  by (simp_all add: requestStop_def Let_def fold_same[where g = staged] fold_same[where g = faults] fold_same[where g = queue] fold_same[where g = writes]
      fold_same[where g = commits] fold_same[where g = panicked] fold_same[where g = writes_closed]
      fold_same[where g = db_closed])

lemma requestStop_view:
  "pipe_inv (requestStop s) = pipe_inv s" "secured (requestStop s) = secured s"
  by (simp_all add: pipe_inv_def secured_def requestStop_fields)

lemma faults_irrelevant: "pipe_inv (s\<lparr>faults := fs\<rparr>) = pipe_inv s" "secured (s\<lparr>faults := fs\<rparr>) = secured s"
  by (simp_all add: pipe_inv_def secured_def)

lemma lives_keeps: "lives s t \<Longrightarrow> pipe_inv s \<Longrightarrow> pipe_inv t \<and> secured s \<subseteq> secured t"
proof (induction rule: lives.induct)
  case (event ev s)
  then show ?case
    using pipeline.across_dispatch[of s] pipeline.across_blocked[of s] pipeline.registry_handlers(5)[of s] runWriter_keeps[of s]
    by (cases ev) (auto simp: requestStop_view secures_def faults_irrelevant)
next
  case (restart s e plans te io mig)
  then show ?case by (rule newState_keeps)
qed

lemma lives_reach: "lives\<^sup>*\<^sup>* s t \<Longrightarrow> pipe_inv s \<Longrightarrow> pipe_inv t \<and> secured s \<subseteq> secured t"
  by (induction rule: rtranclp_induct) (use lives_keeps in blast)+

section \<open>Acknowledged mail\<close>

lemma dispatch_OK:
  assumes "dispatch e req s = (Done resp, s1)" "OK resp" "Op req \<in> {''post'', ''tell''}"
  shows "run_op e req (renewLease e (strVal (Args req) ''from'') s) = (Done resp, s1)"
proof -
  have "\<not> OK r" if "auth_gate e req s = Some r" for r
    using that by (auto simp: auth_gate_def Let_def unauthorized_code split: option.splits if_splits)
  then have "auth_gate e req s = None"
    using assms by (cases "auth_gate e req s") (auto simp: dispatch_def)
  then show ?thesis using assms(1) by (simp add: dispatch_def)
qed

lemma run_op_mail:
  "Op req = ''post'' \<Longrightarrow> run_op e req s = (Done resp, t) \<longleftrightarrow> opPost e req s = (resp, t)"
  "Op req = ''tell'' \<Longrightarrow> run_op e req s = (Done resp, t) \<longleftrightarrow> opTell e req s = (resp, t)"
  by (auto simp: run_op_def answer_def)

text \<open>A handler whose last act on the pipeline is a write.\<close>

definition wrote_last :: "string \<Rightarrow> content \<Rightarrow> state \<Rightarrow> bool" where
  "wrote_last p c s \<longleftrightarrow> writes s \<noteq> [] \<and> wo_relPath (last (writes s)) = p \<and> wo_content (last (writes s)) = c"

definition last_queued :: "state \<Rightarrow> bool" where
  \<comment> \<open>the durability signal of the last write\<close>
  "last_queued s \<longleftrightarrow> 0 < wo_queueID (last (writes s))"

lemma writes_last:
  assumes "pipe_inv u" "alive u" "queue u \<noteq> None" "pipe_view s1 = pipe_view (enqueueWrite p c m u)"
  shows "wrote_last p c s1" "faults u = [] \<Longrightarrow> last_queued s1"
proof -
  obtain d where d: "queue u = Some d" "0 < d_nextID d" using assms(1,3) by (auto simp: pipe_inv_def queue_ok_def)
  have "writes s1 = writes u @ [new_op p c m u]"
    using assms(2,4) by (simp add: pipe_view_def alive_def enqueueWrite_writes)
  then show "wrote_last p c s1" "faults u = [] \<Longrightarrow> last_queued s1"
    using d assms(2) by (simp_all add: wrote_last_def last_queued_def new_op_def q_fault_def alive_def)
qed

lemma post_writes:
  assumes "opPost e req s = (resp, s1)" "OK resp" "pipe_inv s" "alive s" "queue s \<noteq> None"
    "strVal (Args req) ''room'' = room" "strVal (Args req) ''from'' = from" "strVal (Args req) ''body'' = body"
  shows "\<exists>r. map_of (rooms s) room = Some r \<and> resp = okResponse (JObj [(''room'', JStr room), (''seq'', JNum (r_seq r + 1))])
    \<and> wrote_last (room_msg_path room (r_seq r + 1) from) (Text (renderRoomMsg (posted e r from body))) s1
    \<and> (faults s = [] \<longrightarrow> last_queued s1)"
proof -
  obtain r where r: "map_of (rooms s) room = Some r" using assms by (auto simp: opPost_def from_room_required_def Let_def split: if_splits option.splits)
  let ?m = "posted e r from body"
  let ?t = "put_room room (fst (deliver_room True ?m (room_logged r ?m) s)) (snd (deliver_room True ?m (room_logged r ?m) s))"
  have s1: "s1 = room_write room ?m ?t" "resp = okResponse (JObj [(''room'', JStr room), (''seq'', JNum (rm_Seq ?m))])"
    using assms r by (auto simp: opPost_def from_room_required_def Let_def case_prod_unfold split: if_splits)
  have "alive ?t" "queue ?t \<noteq> None" "faults s = [] \<longrightarrow> faults ?t = []"
    using staying.deliver[OF staying.reflexive, of s True ?m "room_logged r ?m"] assms(4,5)
    by (simp_all add: stays_up_def)
  moreover have "pipe_inv ?t"
    using pipeline.deliver[OF pipeline.reflexive, of s True ?m "room_logged r ?m"] assms(3) pipe_view_inv[of ?t] by (simp add: secures_def)
  ultimately show ?thesis using r s1 writes_last[of ?t s1] by (auto simp: room_write_def posted_def)
qed

lemma tell_writes:
  assumes "opTell e req s = (resp, s1)" "OK resp" "pipe_inv s" "alive s" "queue s \<noteq> None"
    "strVal (Args req) ''from'' = from" "strVal (Args req) ''body'' = body"
  shows "\<exists>c n peer. resp = okResponse (JObj [(''seq'', JNum n), (''peer'', JStr peer)])
    \<and> wrote_last (channel_path c n from) (Text (renderChannelMsg \<lparr>Seq = n, From = from, TS = now e, Body = body\<rparr>)) s1
    \<and> (faults s = [] \<longrightarrow> last_queued s1)"
proof -
  obtain k c s0 where t: "tell e k c from body s0 = (resp, s1)" "pipe_view s0 = pipe_view s"
  proof -
    have "agentByName s from \<noteq> None" "from \<noteq> []"
      using assms by (auto simp: opTell_def Let_def split: if_splits option.splits)
    moreover obtain p where "resolvePeerName e (strVal (Args req) ''peer'') s = Inr p"
      using assms by (auto simp: opTell_def Let_def peer_not_registered_def split: if_splits option.splits sum.splits)
    moreover obtain k c s0 where "getOrCreateChannel from p s = (k, c, s0)" by (metis prod.collapse)
    moreover have "from \<noteq> strVal (Args req) ''peer''" "strVal (Args req) ''peer'' \<noteq> []"
      using assms by (auto simp: opTell_def Let_def split: if_splits)
    ultimately show ?thesis
      using that[of k c s0] assms pipe_view_channel[of "from" p s k c s0] by (auto simp: opTell_def Let_def)
  qed
  have s0: "pipe_inv s0" "alive s0" "queue s0 \<noteq> None" "faults s0 = faults s"
    using assms(3-5) t(2) pipe_view_inv[OF t(2)] by (auto simp: pipe_view_def alive_def)
  obtain peer where p: "peerOf c from = Some peer" using t assms(2) by (auto simp: tell_def not_participant_def split: option.splits)
  let ?m = "\<lparr>Seq = c_seq c + 1, From = from, TS = now e, Body = body\<rparr>"
  let ?c = "c\<lparr>c_seq := c_seq c + 1, c_log := c_log c @ [?m]\<rparr>"
  let ?w = "enqueueWrite (channel_path ?c (c_seq c + 1) from) (Text (renderChannelMsg ?m))
     (''peer msg '' @ itoa (c_seq c + 1) @ '' '' @ from @ utf8_arrow @ peer) s0"
  have r: "resp = okResponse (JObj [(''seq'', JNum (c_seq c + 1)), (''peer'', JStr peer)])" and v: "pipe_view s1 = pipe_view ?w"
    using t(1) p by (auto simp: tell_def Let_def case_prod_unfold pipe_view_store split: option.splits if_splits)
  note w = writes_last[OF s0(1-3) v, unfolded s0(4)]
  show ?thesis
    by (rule exI[of _ ?c], rule exI[of _ "c_seq c + 1"], rule exI[of _ peer]) (use r w in blast)
qed


end
