(* ===== verification/Queue_Open.thy ===== *)
theory Queue_Open
  imports Go_Strings "HOL-Library.Sublist"
begin

text \<open>
  Opening the side store (\<^verbatim>\<open>openQueue\<close> of \<^verbatim>\<open>queue.go\<close>): the tables it
  creates, and the migration of databases that predate a column. A schema maps the name of a table
  to its columns; what SQLite answers to the two kinds of statement used here is written out, and a
  statement may also fail for reasons of its own.
\<close>

section \<open>Statements\<close>

type_synonym schema = "(string, string list) gomap"

datatype stmt =
    CreateTable string "string list"   \<comment> \<open>\<^verbatim>\<open>IF NOT EXISTS\<close>\<close>
  | AddColumn string string

definition duplicate_column :: "string \<Rightarrow> string" where
  "duplicate_column c = ''duplicate column name: '' @ c"

definition no_such_table :: "string \<Rightarrow> string" where
  "no_such_table t = ''no such table: '' @ t"

fun exec_stmt :: "stmt \<Rightarrow> schema \<Rightarrow> string + schema" where
  "exec_stmt (CreateTable t cs) sch = Inr (if map_of sch t = None then AList.update t cs sch else sch)"
| "exec_stmt (AddColumn t c) sch =
     (case map_of sch t of
        None \<Rightarrow> Inl (no_such_table t)
      | Some cs \<Rightarrow> if c \<in> set cs then Inl (duplicate_column c)
          else Inr (AList.update t (cs @ [c]) sch))"

definition tolerated :: "stmt \<Rightarrow> string \<Rightarrow> bool" where
  \<comment> \<open>the error of the migration that counts as success\<close>
  "tolerated st err \<longleftrightarrow> (case st of AddColumn t c \<Rightarrow> contains err ''duplicate column'' | _ \<Rightarrow> False)"

fun exec_all :: "(nat \<Rightarrow> string option) \<Rightarrow> nat \<Rightarrow> (stmt \<times> string) list \<Rightarrow> schema \<Rightarrow> string option \<times> schema" where
  \<comment> \<open>the error that ends the opening, if any; \<open>io\<close> answers the failures that are not SQL's\<close>
  "exec_all io k [] sch = (None, sch)"
| "exec_all io k ((st, label) # sts) sch =
     (case (case io k of Some err \<Rightarrow> Inl err | None \<Rightarrow> exec_stmt st sch) of
        Inr sch' \<Rightarrow> exec_all io (Suc k) sts sch'
      | Inl err \<Rightarrow> if tolerated st err then exec_all io (Suc k) sts sch
          else (Some (label @ '': '' @ err), sch))"

section \<open>The database\<close>

definition queue_tables :: "(string \<times> string list \<times> string) list" where
  \<comment> \<open>name, columns, and what the error is labelled with\<close>
  "queue_tables =
     [(''queue'', [''id'', ''rel_path'', ''content'', ''commit_msg'', ''attempts''], ''create queue table''),
      (''queue_dead'', [''id'', ''rel_path'', ''content'', ''commit_msg'', ''attempts'', ''failed_at''],
         ''create queue_dead table''),
      (''mailbox_rooms'', [''name'', ''desc'', ''created_by'', ''created_at'', ''archived''],
         ''create mailbox_rooms table''),
      (''mailbox_room_members'', [''room'', ''member''], ''create mailbox_room_members table''),
      (''mailbox'', [''id'', ''recipient'', ''kind'', ''target'', ''seq'', ''from_name'', ''ts'', ''body''],
         ''create mailbox table''),
      (''mailbox_dropped'', [''recipient'', ''kind'', ''target'', ''dropped''], ''create mailbox_dropped table'')]"

definition open_stmts :: "(stmt \<times> string) list" where
  \<comment> \<open>in the order of the source: the column is added right after its table\<close>
  "open_stmts = (let create = map (\<lambda>(t, cs, label). (CreateTable t cs, label)) queue_tables
     in take 3 create @ [(AddColumn ''mailbox_rooms'' ''archived'', ''migrate mailbox_rooms.archived'')] @ drop 3 create)"

definition openQueue :: "(nat \<Rightarrow> string option) \<Rightarrow> schema \<Rightarrow> string option \<times> schema" where
  \<comment> \<open>\<open>io 0\<close> is the opening of the file itself\<close>
  "openQueue io sch =
     (case io 0 of Some err \<Rightarrow> (Some (''open queue db: '' @ err), sch) | None \<Rightarrow> exec_all io 1 open_stmts sch)"

section \<open>The migration\<close>

definition table_ok :: "schema \<Rightarrow> string \<times> string list \<Rightarrow> bool" where
  "table_ok sch tc \<longleftrightarrow> (case tc of (t, cs) \<Rightarrow> \<exists>cs'. map_of sch t = Some cs' \<and> set cs \<subseteq> set cs')"

definition columns_kept :: "schema \<Rightarrow> schema \<Rightarrow> bool" where
  \<comment> \<open>no table is dropped, and none loses or reorders a column\<close>
  "columns_kept sch sch' \<longleftrightarrow> (\<forall>t cs. map_of sch t = Some cs \<longrightarrow> (\<exists>cs'. map_of sch' t = Some cs' \<and> prefix cs cs'))"

definition earlier_version :: "schema \<Rightarrow> bool" where
  \<comment> \<open>a table that is there has its columns, but for the one the migration adds\<close>
  "earlier_version sch \<longleftrightarrow> (\<forall>(t, cs, label) \<in> set queue_tables. \<forall>cs'. map_of sch t = Some cs' \<longrightarrow>
     set cs - (if t = ''mailbox_rooms'' then {''archived''} else {}) \<subseteq> set cs')"

lemma earlier_versionD:
  "earlier_version sch \<Longrightarrow> (t, cs, label) \<in> set queue_tables \<Longrightarrow> map_of sch t = Some cs' \<Longrightarrow>
     set cs - (if t = ''mailbox_rooms'' then {''archived''} else {}) \<subseteq> set cs'"
  unfolding earlier_version_def by fastforce

lemma earlier_versionI:
  "(\<And>t cs label cs'. (t, cs, label) \<in> set queue_tables \<Longrightarrow> map_of sch t = Some cs' \<Longrightarrow>
     set cs - (if t = ''mailbox_rooms'' then {''archived''} else {}) \<subseteq> set cs') \<Longrightarrow> earlier_version sch"
  unfolding earlier_version_def by blast

lemma columns_kept_refl [simp]: "columns_kept sch sch"
  by (simp add: columns_kept_def)

lemma columns_kept_trans: "columns_kept a b \<Longrightarrow> columns_kept b c \<Longrightarrow> columns_kept a c"
  unfolding columns_kept_def by (meson prefix_order.trans)

lemma exec_stmt_keeps: "exec_stmt st sch = Inr sch' \<Longrightarrow> columns_kept sch sch'"
  by (cases st) (auto simp: columns_kept_def split: if_splits option.splits)

lemma exec_all_keeps: "columns_kept sch (snd (exec_all io k sts sch))"
proof (induction io k sts sch rule: exec_all.induct)
  case (2 io k st label sts sch)
  show ?case
    using 2 exec_stmt_keeps[of st sch] columns_kept_trans
    by (auto split: sum.split option.split)
qed simp

lemma table_ok_kept: "table_ok sch tc \<Longrightarrow> columns_kept sch sch' \<Longrightarrow> table_ok sch' tc"
  unfolding table_ok_def columns_kept_def by (fastforce dest: set_mono_prefix split: prod.splits)

text \<open>What a list of statements leaves behind when nothing fails outside SQL.\<close>

definition stmt_done :: "stmt \<Rightarrow> schema \<Rightarrow> bool" where
  "stmt_done st sch \<longleftrightarrow> (case st of CreateTable t cs \<Rightarrow> map_of sch t \<noteq> None
     | AddColumn t c \<Rightarrow> \<exists>cs. map_of sch t = Some cs \<and> c \<in> set cs)"

lemma tolerated_duplicate [simp]: "tolerated (AddColumn t c) (duplicate_column c)"
  by (simp add: tolerated_def contains_def duplicate_column_def)

lemma exec_stmt_done:
  "stmt_done st sch \<Longrightarrow> exec_all (\<lambda>_. None) k ((st, label) # sts) sch = exec_all (\<lambda>_. None) (Suc k) sts sch"
  by (cases st) (auto simp: stmt_done_def)

lemma stmt_done_kept: "stmt_done st sch \<Longrightarrow> columns_kept sch sch' \<Longrightarrow> stmt_done st sch'"
  by (cases st) (fastforce simp: stmt_done_def columns_kept_def dest: set_mono_prefix)+

lemma exec_all_done: "list_all (\<lambda>(st, label). stmt_done st sch) sts \<Longrightarrow> exec_all (\<lambda>_. None) k sts sch = (None, sch)"
proof (induction sts arbitrary: k)
  case (Cons x sts)
  then show ?case using exec_stmt_done[of "fst x" sch k "snd x" sts] by (cases x) (simp del: exec_all.simps(2))
qed simp

lemma exec_stmt_does: "exec_stmt st sch = Inr sch' \<Longrightarrow> stmt_done st sch'"
  by (cases st) (auto simp: stmt_done_def split: if_splits option.splits)

lemma exec_all_does:
  assumes "exec_all (\<lambda>_. None) k sts sch = (None, sch')" "\<And>t c label. (AddColumn t c, label) \<in> set sts \<Longrightarrow> \<not> tolerated (AddColumn t c) (no_such_table t)"
  shows "list_all (\<lambda>(st, label). stmt_done st sch') sts"
  using assms
proof (induction sts arbitrary: k sch)
  case (Cons x sts)
  obtain st label where x: "x = (st, label)" by (cases x)
  show ?case
  proof (cases "exec_stmt st sch")
    case (Inr u)
    have run: "exec_all (\<lambda>_. None) (Suc k) sts u = (None, sch')" using Cons.prems(1) x Inr by simp
    then have kept: "columns_kept u sch'" using exec_all_keeps[of u "\<lambda>_. None" "Suc k" sts] by simp
    have "list_all (\<lambda>(st, label). stmt_done st sch') sts"
      by (rule Cons.IH[OF run]) (use Cons.prems(2) in \<open>metis list.set_intros(2)\<close>)
    then show ?thesis using stmt_done_kept[OF exec_stmt_does[OF Inr] kept] x by simp
  next
    case (Inl err)
    then obtain t c where st: "st = AddColumn t c" by (cases st) auto
    have "\<not> tolerated (AddColumn t c) (no_such_table t)" using Cons.prems(2)[of t c label] x st by simp
    then have "map_of sch t \<noteq> None" using Cons.prems(1) x Inl st by (auto split: if_splits option.splits)
    then have dup: "stmt_done st sch" "err = duplicate_column c" using Inl st by (auto simp: stmt_done_def split: if_splits)
    then have run: "exec_all (\<lambda>_. None) (Suc k) sts sch = (None, sch')" using Cons.prems(1) x exec_stmt_done[of st sch k label sts] by simp
    have "list_all (\<lambda>(st, label). stmt_done st sch') sts" by (rule Cons.IH[OF run]) (use Cons.prems(2) in \<open>metis list.set_intros(2)\<close>)
    moreover have "columns_kept sch sch'" using exec_all_keeps[of sch "\<lambda>_. None" "Suc k" sts] run by simp
    ultimately show ?thesis using stmt_done_kept[OF dup(1)] x by simp
  qed
qed simp

lemma open_stmts_cases:
  assumes "(st, label) \<in> set open_stmts"
  obtains t cs where "st = CreateTable t cs" "(t, cs, label) \<in> set queue_tables"
    | "st = AddColumn ''mailbox_rooms'' ''archived''"
  using assms unfolding open_stmts_def Let_def set_append Un_iff
  by (elim disjE) (auto dest!: in_set_takeD in_set_dropD)

lemma queue_tables_unique: "(t, x) \<in> set queue_tables \<Longrightarrow> (t, y) \<in> set queue_tables \<Longrightarrow> x = y"
proof (rule eq_key_imp_eq_value)
  show "distinct (map fst queue_tables)" by (simp add: queue_tables_def)
qed

lemma open_stmts_version:
  assumes "exec_stmt st sch = Inr u" "(st, label) \<in> set open_stmts" "earlier_version sch"
  shows "earlier_version u"
  using assms(2)
proof (cases rule: open_stmts_cases)
  case (1 t cs)
  then have u: "u = (if map_of sch t = None then AList.update t cs sch else sch)" using assms(1) by simp
  show ?thesis
  proof (rule earlier_versionI)
    fix t2 cs2 l2 cs' assume t2: "(t2, cs2, l2) \<in> set queue_tables" "map_of u t2 = Some cs'"
    show "set cs2 - (if t2 = ''mailbox_rooms'' then {''archived''} else {}) \<subseteq> set cs'"
    proof (cases "t2 = t \<and> map_of sch t = None")
      case True
      then show ?thesis using queue_tables_unique[of t "(cs2, l2)" "(cs, label)"] t2 1(2) u by auto
    next
      case False
      then show ?thesis using earlier_versionD[OF assms(3) t2(1)] t2(2) u by (simp split: if_splits)
    qed
  qed
next
  case 2
  then obtain cs where cs: "map_of sch ''mailbox_rooms'' = Some cs" "u = AList.update ''mailbox_rooms'' (cs @ [''archived'']) sch"
    using assms(1) by (auto split: option.splits if_splits)
  show ?thesis
  proof (rule earlier_versionI)
    fix t2 cs2 l2 cs' assume t2: "(t2, cs2, l2) \<in> set queue_tables" "map_of u t2 = Some cs'"
    then obtain old where "map_of sch t2 = Some old" "set old \<subseteq> set cs'"
      using cs by (cases "t2 = ''mailbox_rooms''") fastforce+
    then show "set cs2 - (if t2 = ''mailbox_rooms'' then {''archived''} else {}) \<subseteq> set cs'"
      using earlier_versionD[OF assms(3) t2(1)] by blast
  qed
qed

lemma exec_all_version:
  "set sts \<subseteq> set open_stmts \<Longrightarrow> earlier_version sch \<Longrightarrow> earlier_version (snd (exec_all io k sts sch))"
proof (induction io k sts sch rule: exec_all.induct)
  case (2 io k st label sts sch)
  then show ?case using open_stmts_version[of st sch _ label] by (auto split: sum.split option.split)
qed simp

lemma exec_all_append:
  "exec_all io k (xs @ ys) sch = (case exec_all io k xs sch of (None, u) \<Rightarrow> exec_all io (k + length xs) ys u | r \<Rightarrow> r)"
  by (induction io k xs sch rule: exec_all.induct) (auto split: sum.split option.split prod.split)

lemma exec_creates: "fst (exec_all (\<lambda>_. None) k (map (\<lambda>(t, cs, label). (CreateTable t cs, label)) ts) sch) = None"
  by (induction ts arbitrary: k sch) auto

lemma openQueue_succeeds: "fst (exec_all (\<lambda>_. None) 1 open_stmts sch) = None"
proof -
  let ?c = "\<lambda>(t, cs, label). (CreateTable t cs, label)" and ?add = "AddColumn ''mailbox_rooms'' ''archived''"
  have split: "open_stmts = map ?c (take 3 queue_tables) @ [(?add, ''migrate mailbox_rooms.archived'')] @ map ?c (drop 3 queue_tables)"
    by (simp add: open_stmts_def take_map drop_map)
  obtain u where u: "exec_all (\<lambda>_. None) 1 (map ?c (take 3 queue_tables)) sch = (None, u)"
    using exec_creates[of 1 "take 3 queue_tables" sch] by (metis prod.collapse)
  have "list_all (\<lambda>(st, label). stmt_done st u) (map ?c (take 3 queue_tables))"
    by (rule exec_all_does[OF u]) auto
  then have "map_of u ''mailbox_rooms'' \<noteq> None" by (simp add: stmt_done_def queue_tables_def)
  then have "fst (exec_all (\<lambda>_. None) k [(?add, l)] u) = None" for k l by (auto split: if_splits)
  then have v: "exec_all (\<lambda>_. None) k [(?add, l)] u = (None, snd (exec_all (\<lambda>_. None) k [(?add, l)] u))" for k l
    by (simp only: prod_eq_iff fst_conv snd_conv)
  show ?thesis unfolding split exec_all_append u prod.case option.case by (subst v) (simp only: prod.case option.case exec_creates)
qed

text \<open>C34: Opening the side store migrates: on an empty file, or a database of any
  earlier version, it succeeds, every table has at least the columns the statements of
  \<^verbatim>\<open>queue.go\<close> name, no table and no column that was there is lost or moved, and opening the
  result again changes nothing.\<close>

theorem openQueue_migrates:
  assumes "earlier_version sch"
  shows "\<exists>sch'. openQueue (\<lambda>_. None) sch = (None, sch') \<and> columns_kept sch sch'
    \<and> (\<forall>(t, cs, label) \<in> set queue_tables. table_ok sch' (t, cs)) \<and> openQueue (\<lambda>_. None) sch' = (None, sch')"
proof -
  obtain res sch' where run: "exec_all (\<lambda>_. None) 1 open_stmts sch = (res, sch')" by fastforce
  have tol: "\<not> tolerated (AddColumn t c) (no_such_table t)" if "(AddColumn t c, label) \<in> set open_stmts" for t c label
    using that by (auto simp: open_stmts_def queue_tables_def tolerated_def no_such_table_def contains_def)
  have res: "res = None" using openQueue_succeeds[of sch] run by simp
  have kept: "columns_kept sch sch'" using exec_all_keeps[of sch "\<lambda>_. None" 1 open_stmts] run by simp
  have fin: "list_all (\<lambda>(st, label). stmt_done st sch') open_stmts"
    using exec_all_does[OF run[unfolded res] tol] .
  have "table_ok sch' (t, cs)" if "(t, cs, label) \<in> set queue_tables" for t cs label
  proof -
    have "(CreateTable t cs, label) \<in> set open_stmts"
      using that by (auto simp: open_stmts_def queue_tables_def)
    then have "stmt_done (CreateTable t cs) sch'" using fin by (force simp: list_all_iff)
    then obtain cs' where cs': "map_of sch' t = Some cs'" by (auto simp: stmt_done_def)
    have "stmt_done (AddColumn ''mailbox_rooms'' ''archived'') sch'"
      using fin by (simp add: list_all_iff open_stmts_def Let_def)
    then have "t = ''mailbox_rooms'' \<Longrightarrow> ''archived'' \<in> set cs'" using cs' by (simp add: stmt_done_def)
    moreover have "earlier_version sch'" using exec_all_version[OF subset_refl assms, of "\<lambda>_. None" 1] run by simp
    ultimately have "set cs \<subseteq> set cs'" using earlier_versionD[OF _ that cs'] by (auto split: if_splits)
    then show ?thesis using cs' by (simp add: table_ok_def)
  qed
  then show ?thesis
    using run res kept exec_all_done[OF fin, of 1] by (auto simp: openQueue_def)
qed

end
