(* ===== verification/Daemon_Process.thy ===== *)
theory Daemon_Process
  imports Client Durability Queue_Open
begin

text \<open>
  The daemon's process (\<^verbatim>\<open>daemon.go\<close>, \<^verbatim>\<open>ensureWorkspace\<close> of
  \<^verbatim>\<open>writer.go\<close>) and how a client reaches it (the head of \<^verbatim>\<open>client.go\<close>): the
  socket and the pid file, the start with its errors, connections, the signal that ends the accept
  loop, and the wait for the writer. What the operating system answers is an argument; the runtime
  directory is a map from paths to contents.
\<close>

section \<open>Places\<close>

definition leschDir :: "(string \<Rightarrow> string) \<Rightarrow> string \<Rightarrow> string" where
  "leschDir getenv home = or_else (getenv ''LALIA_HOME'') (pathJoin [home, ''.lalia''])"

definition socketPath :: "(string \<Rightarrow> string) \<Rightarrow> string \<Rightarrow> string" where
  "socketPath getenv home = pathJoin [leschDir getenv home, ''sock'']"

definition pidPath :: "(string \<Rightarrow> string) \<Rightarrow> string \<Rightarrow> string" where
  "pidPath getenv home = pathJoin [leschDir getenv home, ''pid'']"

definition workspacePath :: "(string \<Rightarrow> string) \<Rightarrow> string \<Rightarrow> string" where
  "workspacePath getenv home =
     or_else (getenv ''LALIA_WORKSPACE'') (pathJoin [home, ''.local'', ''state'', ''lalia'', ''workspace''])"

section \<open>Starting\<close>

record ws_io =
  wi_mkdir :: "string option"                       \<comment> \<open>the error of making the directory\<close>
  wi_repo :: bool                                   \<comment> \<open>whether \<^verbatim>\<open>.git/HEAD\<close> is there\<close>
  wi_init :: "(string \<times> string) option"             \<comment> \<open>output and error of \<^verbatim>\<open>git init\<close>\<close>
  wi_readme :: "string option"                      \<comment> \<open>the error of writing the readme\<close>

definition git_in :: "string \<Rightarrow> string list \<Rightarrow> string list" where
  "git_in ws args = ''git'' # ''-C'' # ws # args"

definition ensureWorkspace :: "ws_io \<Rightarrow> string \<Rightarrow> string option \<times> string list list" where
  \<comment> \<open>the error, if any, and the commands that were run; only the first one's error counts\<close>
  "ensureWorkspace io ws =
     (case wi_mkdir io of
        Some err \<Rightarrow> (Some err, [])
      | None \<Rightarrow>
          if wi_repo io then (None, [])
          else let init = [git_in ws [''init'', ''-q'', ''-b'', ''main'']]
            in case wi_init io of
                 Some (out, err) \<Rightarrow> (Some (''git init: '' @ out @ '': '' @ err), init)
               | None \<Rightarrow>
                   let config = init @ [git_in ws [''config'', ''user.email'', ''daemon@lalia.local''],
                         git_in ws [''config'', ''user.name'', ''lalia'']]
                   in case wi_readme io of
                        Some err \<Rightarrow> (Some err, config)
                      | None \<Rightarrow> (None, config @ [git_in ws [''add'', ''README.md''],
                            git_in ws [''commit'', ''-q'', ''-m'', ''init workspace'']]))"

definition init_state ::
  "ws_io \<Rightarrow> string \<Rightarrow> string option \<Rightarrow> (nat \<Rightarrow> string option) \<Rightarrow> schema \<Rightarrow> state \<Rightarrow> string + state" where
  \<comment> \<open>the errors of \<^verbatim>\<open>newState\<close> that come before anything is loaded; \<open>s\<close> is what loading gives\<close>
  "init_state wio ws migErr qio sch s =
     (case fst (ensureWorkspace wio ws) of
        Some err \<Rightarrow> Inl err
      | None \<Rightarrow>
         (case migErr of
            Some err \<Rightarrow> Inl (''migrate plans to tasks: '' @ err)
          | None \<Rightarrow>
             (case fst (openQueue qio sch) of
                Some err \<Rightarrow> Inl (''write queue: '' @ err)
              | None \<Rightarrow> Inr s)))"

section \<open>Connections\<close>

definition handleConn ::
  "env \<Rightarrow> (string \<Rightarrow> string + request) \<Rightarrow> string option \<Rightarrow> state \<Rightarrow> outcome option \<times> state" where
  \<comment> \<open>a line of the connection, or none; \<open>parse\<close> is \<^verbatim>\<open>json.Unmarshal\<close>\<close>
  "handleConn e parse input s =
     (case input of
        None \<Rightarrow> (None, s)
      | Some l \<Rightarrow>
          (case parse l of
             Inl err \<Rightarrow> (Some (Done \<lparr>OK = False, Data = None, Error = ''bad request: '' @ err, Code = 0\<rparr>), s)
           | Inr req \<Rightarrow> (case dispatch e req s of (out, s) \<Rightarrow> (Some out, s))))"

section \<open>The process\<close>

record host =
  ho_mkdir :: "string option"
  ho_running :: bool                 \<comment> \<open>a daemon answers on the socket\<close>
  ho_pid :: "string option"          \<comment> \<open>the error of writing the pid file\<close>
  ho_listen :: "string option"

datatype ended = Exited int "string list" | Panicked "string list"  \<comment> \<open>with what was written to the log\<close>

definition waitWriterDone :: "(nat \<Rightarrow> ioResult) \<Rightarrow> state \<Rightarrow> state" where
  \<comment> \<open>the writer takes what is left, finds the channel closed, and closes the database\<close>
  "waitWriterDone io s = drain io (Suc (length (writes s))) s"

definition serve :: "event list \<Rightarrow> state \<Rightarrow> state" where
  "serve es s = fold apply_event es s"

definition signalled :: "state \<Rightarrow> state" where
  "signalled s = (if panicked s then s else requestStop s)"

definition runDaemon ::
  "(string \<Rightarrow> string) \<Rightarrow> string \<Rightarrow> host \<Rightarrow> int \<Rightarrow> string + state \<Rightarrow> event list \<Rightarrow> (nat \<Rightarrow> ioResult)
     \<Rightarrow> (string, string) gomap \<Rightarrow> ended \<times> (string, string) gomap \<times> state option" where
  \<comment> \<open>the events are those before the signal; a panic leaves the files where they are\<close>
  "runDaemon getenv home h pid init es io dir =
     (let sock = socketPath getenv home; pidf = pidPath getenv home
      in case ho_mkdir h of
           Some err \<Rightarrow> (Exited 1 [err], dir, None)
         | None \<Rightarrow>
           if ho_running h then (Exited 0 [''another lalia daemon is already running''], dir, None)
           else case ho_pid h of
             Some err \<Rightarrow> (Exited 1 [err], dir, None)
           | None \<Rightarrow>
               let dir = AList.delete sock (AList.update pidf (itoa pid @ [nl]) dir)
               in case ho_listen h of
                    Some err \<Rightarrow> (Exited 1 [''listen: '' @ err], AList.delete pidf dir, None)
                  | None \<Rightarrow>
                      let dir = AList.update sock [] dir;
                          gone = AList.delete pidf (AList.delete sock dir)
                      in case init of
                           Inl err \<Rightarrow> (Exited 1 [''state init: '' @ err], gone, None)
                         | Inr s \<Rightarrow>
                             let banner = ''lalia daemon pid='' @ itoa pid @ '' socket='' @ sock @ '' workspace=''
                                   @ workspacePath getenv home;
                                 s = waitWriterDone io (signalled (serve es s))
                             in if panicked s then (Panicked [banner], dir, Some s)
                                else (Exited 0 [banner], gone, Some s))"

section \<open>Reaching the daemon\<close>

definition dialOrSpawn :: "bool \<Rightarrow> string option \<Rightarrow> (nat \<Rightarrow> bool) \<Rightarrow> string + nat" where
  \<comment> \<open>the number of dials after the spawn that it took\<close>
  "dialOrSpawn first spawned later =
     (if first then Inr 0
      else case spawned of
        Some err \<Rightarrow> Inl (''spawn daemon: '' @ err)
      | None \<Rightarrow> (case find later [0..<50] of Some i \<Rightarrow> Inr (Suc i) | None \<Rightarrow> Inl ''daemon did not start after spawn''))"

definition spawnDaemon :: "string option \<Rightarrow> string + string \<Rightarrow> (string list \<Rightarrow> string option) \<Rightarrow> string option" where
  \<comment> \<open>the directory, the path of the executable, the start of the process\<close>
  "spawnDaemon mkdirErr exe start =
     (case mkdirErr of Some err \<Rightarrow> Some err
      | None \<Rightarrow> (case exe of Inl err \<Rightarrow> Some err | Inr path \<Rightarrow> start [path, ''--daemon'']))"

definition ask_daemon ::
  "client \<Rightarrow> (string \<Rightarrow> json \<Rightarrow> string) \<Rightarrow> (string, string) gomap \<Rightarrow> string + nat \<Rightarrow> (request \<Rightarrow> string + response)
     \<Rightarrow> string \<Rightarrow> (string, json) gomap \<Rightarrow> string + response" where
  \<comment> \<open>connect, sign, and exchange a line for a line\<close>
  "ask_daemon c sign ks conn exchange op args =
     (case conn of
        Inl err \<Rightarrow> Inl err
      | Inr _ \<Rightarrow> (case request_for c sign ks op args of Inl err \<Rightarrow> Inl err | Inr req \<Rightarrow> exchange req))"

primrec run_with :: "(string \<Rightarrow> (string, json) gomap \<Rightarrow> string + response) \<Rightarrow> prog \<Rightarrow> (int \<times> string \<times> diag list) option" where
  \<comment> \<open>a command against whatever answers its requests; \<open>None\<close> is a crash\<close>
  "run_with ask (Exit code out err) = Some (code, out, err)"
| "run_with ask Crash = None"
| "run_with ask (Call op args k) = run_with ask (k (ask op args))"

section \<open>Draining\<close>

lemma runWriter_closing:
  "db_closed s \<Longrightarrow> db_closed (runWriter io s)"
  "\<not> panicked s \<Longrightarrow> writes s = [] \<Longrightarrow> writes_closed s \<Longrightarrow> db_closed (runWriter io s)"
  by (simp_all add: runWriter_def split: list.split)

lemma drain_closed: "db_closed s \<Longrightarrow> db_closed (drain io n s)"
  by (induction n arbitrary: io s) (simp_all add: runWriter_closing)

lemma drain_closes:
  "\<not> panicked s \<Longrightarrow> writes_closed s \<Longrightarrow> length (writes s) < n \<Longrightarrow> db_closed (drain io n s)"
proof (induction n arbitrary: io s)
  case 0
  from 0(3) show ?case by (rule notE[OF not_less_zero])
next
  case (Suc n)
  show ?case
  proof (cases "writes s")
    case Nil
    then show ?thesis using Suc.prems by (simp add: drain_closed runWriter_closing(2))
  next
    case (Cons w ws)
    then show ?thesis using Suc.prems by (simp add: Suc.IH runWriter_pops)
  qed
qed

lemma drain_last: "drain (\<lambda>_. io) (Suc n) s = runWriter io (drain (\<lambda>_. io) n s)"
  by (induction n arbitrary: s) simp_all

lemma legal_lives: "daemon.legal es s \<Longrightarrow> lives\<^sup>*\<^sup>* s (serve es s)"
proof (induction es arbitrary: s)
  case (Cons ev es)
  have "lives s (apply_event ev s)" using Cons.prems by (intro lives.event) simp
  moreover have "lives\<^sup>*\<^sup>* (apply_event ev s) (serve es (apply_event ev s))" using Cons by simp
  ultimately show ?case by (simp add: serve_def converse_rtranclp_into_rtranclp)
qed (simp add: serve_def)

lemma legal_append: "daemon.legal (xs @ ys) s \<longleftrightarrow> daemon.legal xs s \<and> daemon.legal ys (serve xs s)"
  by (induction xs arbitrary: s) (simp_all add: serve_def)

lemma legal_secured:
  assumes "daemon.legal es s" "pipe_inv s"
  shows "pipe_inv (serve es s)" "secured (serve (take k es) s) \<subseteq> secured (serve es s)"
proof -
  have l: "daemon.legal (take k es) s" "daemon.legal (drop k es) (serve (take k es) s)"
    using assms(1) legal_append[of "take k es" "drop k es" s] by simp_all
  have inv: "pipe_inv (serve (take k es) s)" using lives_reach[OF legal_lives[OF l(1)] assms(2)] by simp
  have "serve es s = serve (drop k es) (serve (take k es) s)"
    by (metis append_take_drop_id fold_append comp_apply serve_def)
  then show "pipe_inv (serve es s)" "secured (serve (take k es) s) \<subseteq> secured (serve es s)"
    using lives_reach[OF legal_lives[OF l(2)] inv] by simp_all
qed

section \<open>Shutting down\<close>


text \<open>The daemon is alone on its socket and tidy: a second one sees the first and leaves
  without touching a file; one that starts leaves neither socket nor pid file behind, whichever step of
  the start fails after the pid file is written, and nothing else in the directory changes; only a panic
  leaves the two behind, where the next start finds and replaces the socket.\<close>

theorem runDaemon_tidy:
  assumes "runDaemon getenv home h pid init es io dir = (res, dir', st)"
    "sock = socketPath getenv home" "pidf = pidPath getenv home"
  shows "(ho_mkdir h = None \<and> ho_running h \<longrightarrow>
        res = Exited 0 [''another lalia daemon is already running''] \<and> dir' = dir \<and> st = None)
    \<and> (ho_mkdir h = None \<and> \<not> ho_running h \<and> ho_pid h = None \<and> (\<forall>log. res \<noteq> Panicked log) \<longrightarrow>
        map_of dir' sock = None \<and> map_of dir' pidf = None)
    \<and> (\<forall>log. res = Panicked log \<longrightarrow> map_of dir' sock = Some [])
    \<and> (\<forall>p. p \<noteq> sock \<and> p \<noteq> pidf \<longrightarrow> map_of dir' p = map_of dir p)"
  using assms by (auto simp: runDaemon_def Let_def split: option.splits sum.splits if_splits)

section \<open>Commands without a daemon\<close>

lemma fails_run_with: "fails p \<Longrightarrow> run_with ask p \<noteq> Some (0, out, err)"
  by (induction p) auto

text \<open>A command that cannot reach the daemon says so: the client gives up exactly when the
  first dial fails and the daemon cannot be spawned or none of fifty more dials succeeds, and then every
  command that needs the daemon ends with a failure, whatever it would have printed.\<close>

theorem unreachable_daemon_reported:
  assumes "command c name args = Some p" "conn = dialOrSpawn first spawned later" "p = Call op cargs k"
  shows "((\<exists>msg. conn = Inl msg) \<longleftrightarrow> \<not> first \<and> (spawned \<noteq> None \<or> (\<forall>i < 50. \<not> later i)))
    \<and> ((\<exists>msg. conn = Inl msg) \<longrightarrow> run_with (ask_daemon c sign ks conn exchange) p \<noteq> Some (0, out, err))"
proof -
  have "honest p" using assms(1) by (rule command_honest)
  then have "fails (k (Inl msg))" for msg using assms(3) by simp
  then have "run_with (ask_daemon c sign ks (Inl msg) exchange) p \<noteq> Some (0, out, err)" for msg
    using fails_run_with by (simp add: assms(3) ask_daemon_def)
  moreover have "(\<exists>msg. conn = Inl msg) \<longleftrightarrow> \<not> first \<and> (spawned \<noteq> None \<or> (\<forall>i < 50. \<not> later i))"
    unfolding assms(2) dialOrSpawn_def by (auto simp: find_None_iff find_Some_iff split: option.split)
  ultimately show ?thesis by auto
qed

end
