(* ===== verification/Main_Program.thy ===== *)
theory Main_Program
  imports Agents_Table Run_Harness Daemon_Process
begin

text \<open>
  The program as it is started (\<^verbatim>\<open>main.go\<close>): which command the arguments name, and
  what holds of all of them. The version, the help texts and the instant are arguments.
\<close>

section \<open>Running a harness\<close>

definition cmdRun ::
  "client \<Rightarrow> exec \<Rightarrow> (string \<Rightarrow> int option) \<Rightarrow> string + string \<Rightarrow> string list \<Rightarrow> disk \<Rightarrow> (int \<times> diag list) \<times> disk" where
  \<comment> \<open>the exit code and the error output; \<open>codeOf\<close> is the exit code an error of a process carries\<close>
  "cmdRun c exec codeOf cwd args d =
     (if length args < 2 then
        ((1, [Say ''usage: lalia run <peer|worker|supervisor> --claude-code|--codex|--copilot [--force] [args...]'']), d)
      else case parseRunArgs (tl args) of
        Inl err \<Rightarrow> ((1, [Say err]), d)
      | Inr (harness, force, rest) \<Rightarrow>
          (case runHarness c exec cwd (hd args) harness force rest d of
             (None, d) \<Rightarrow> ((0, []), d)
           | (Some err, d) \<Rightarrow> ((case codeOf err of Some n \<Rightarrow> n | None \<Rightarrow> 1, [Say err]), d)))"

section \<open>The switch\<close>

datatype program =
    Requests prog            \<comment> \<open>a command that talks to the daemon, or only prints\<close>
  | Nicks "string list"      \<comment> \<open>\<^verbatim>\<open>cmdNickname\<close> on the rest of the arguments\<close>
  | Runs "string list"       \<comment> \<open>\<^verbatim>\<open>cmdRun\<close>\<close>
  | Serves                   \<comment> \<open>\<^verbatim>\<open>runDaemon\<close>\<close>

definition main_program ::
  "client \<Rightarrow> time \<Rightarrow> (json list \<Rightarrow> string) \<Rightarrow> string \<Rightarrow> string \<Rightarrow> string \<Rightarrow> string list \<Rightarrow> program" where
  "main_program c n indent version usageText protocolHelp argv =
     (case argv of
        [] \<Rightarrow> Requests (Exit 1 [] [Say usageText])
      | a # args \<Rightarrow>
          if a = ''--version'' \<or> a = ''-v'' then Requests (prints (line version))
          else if a = ''--daemon'' then Serves
          else if a = ''run'' then Runs args
          else if a = ''agents'' then Requests (cmdAgents n indent args)
          else if a = ''nickname'' then Nicks args
          else if a = ''protocol'' then Requests (prints protocolHelp)
          else if a = ''help'' \<or> a = ''-h'' \<or> a = ''--help'' then Requests (Exit 0 [] [Say usageText])
          else case command c a args of
            Some p \<Rightarrow> Requests p
          | None \<Rightarrow> Requests (Exit 1 [] [Say (''unknown command: '' @ a), Say usageText]))"

lemma main_honest: "main_program c n indent version usageText protocolHelp argv = Requests p \<Longrightarrow> honest p"
proof (cases argv)
  case Nil
  then show "main_program c n indent version usageText protocolHelp argv = Requests p \<Longrightarrow> honest p"
    by (auto simp: main_program_def)
next
  case (Cons a args)
  assume m: "main_program c n indent version usageText protocolHelp argv = Requests p"
  consider "p = prints (line version)" | "p = cmdAgents n indent args" | "p = prints protocolHelp"
    | lines code where "p = Exit code [] lines" | "command c a args = Some p"
    using m unfolding main_program_def Cons list.case
    by (simp split: if_split_asm option.split_asm) metis+
  then show "honest p" by cases (simp_all add: command_honest)
qed


end
