(* ===== verification/Keystores.thy ===== *)
theory Keystores
  imports Signing
begin

text \<open>
  The two key stores (\<^verbatim>\<open>keystore.go\<close>, \<^verbatim>\<open>keystore_darwin.go\<close>,
  \<^verbatim>\<open>keystore_other.go\<close>). What the rest of the program relies on is a locale: a store
  behaves as a map from names to keys. The file store, whose operations are those of
  \<open>Signing\<close>, interprets it for names that are one path element. The keychain store runs the
  command line tool \<^verbatim>\<open>security\<close>, which is an argument.
\<close>

section \<open>What a key store promises\<close>

datatype key_op = SaveKey string string | DeleteKey string

fun op_name :: "key_op \<Rightarrow> string" where
  "op_name (SaveKey n k) = n"
| "op_name (DeleteKey n) = n"

fun op_on_map :: "key_op \<Rightarrow> (string \<Rightarrow> string option) \<Rightarrow> string \<Rightarrow> string option" where
  \<comment> \<open>the abstract store\<close>
  "op_on_map (SaveKey n k) m = m(n := Some k)"
| "op_on_map (DeleteKey n) m = m(n := None)"

fun key_sized :: "key_op \<Rightarrow> bool" where
  "key_sized (SaveKey n k) \<longleftrightarrow> length k = privateKeySize"
| "key_sized (DeleteKey n) \<longleftrightarrow> True"

locale keystore =
  fixes load :: "'s \<Rightarrow> string \<Rightarrow> string option"
    and save :: "'s \<Rightarrow> string \<Rightarrow> string \<Rightarrow> 's"
    and remove :: "'s \<Rightarrow> string \<Rightarrow> 's"
    and valid :: "string \<Rightarrow> bool"
  assumes load_save: "length k = privateKeySize \<Longrightarrow> load (save s n k) n = Some k"
    and load_remove: "load (remove s n) n = None"
    and save_other: "valid m \<Longrightarrow> valid n \<Longrightarrow> m \<noteq> n \<Longrightarrow> load (save s n k) m = load s m"
    and remove_other: "valid m \<Longrightarrow> valid n \<Longrightarrow> m \<noteq> n \<Longrightarrow> load (remove s n) m = load s m"
begin

fun run_op_on :: "key_op \<Rightarrow> 's \<Rightarrow> 's" where
  "run_op_on (SaveKey n k) s = save s n k"
| "run_op_on (DeleteKey n) s = remove s n"

lemma simulates:
  "valid m \<Longrightarrow> valid (op_name p) \<Longrightarrow> key_sized p \<Longrightarrow> load (run_op_on p s) m = op_on_map p (load s) m"
  by (cases p) (auto simp: load_save load_remove save_other remove_other)

lemma simulates_all:
  assumes "valid m" "\<forall>p \<in> set ps. valid (op_name p) \<and> key_sized p"
  shows "load (fold run_op_on ps s) m = fold op_on_map ps (load s) m"
proof -
  have cong: "fold op_on_map qs f m = fold op_on_map qs g m" if "f m = g m" for qs f g
    using that
  proof (induction qs arbitrary: f g)
    case (Cons q qs)
    then have "op_on_map q f m = op_on_map q g m" by (cases q) auto
    then show ?case using Cons.IH[of "op_on_map q f" "op_on_map q g"] by simp
  qed simp
  show ?thesis using assms(2)
  proof (induction ps arbitrary: s)
    case (Cons p ps)
    then have "load (fold run_op_on (p # ps) s) m = fold op_on_map ps (load (run_op_on p s)) m" by simp
    also have "\<dots> = fold op_on_map ps (op_on_map p (load s)) m"
      by (rule cong) (use simulates[OF assms(1)] Cons.prems in simp)
    finally show ?case by simp
  qed simp
qed

end

section \<open>Key files\<close>

definition one_element :: "string \<Rightarrow> bool" where
  \<comment> \<open>a name that does not leave its directory\<close>
  "one_element n \<longleftrightarrow> slash \<notin> set n"

lemma keyPath_plain: "one_element n \<Longrightarrow> keyPath n = ''keys/'' @ n @ ''.key''"
proof -
  assume "one_element n"
  then have "plain_elem (n @ ''.key'')" by (intro plain_suffixed) (simp_all add: one_element_def)
  moreover have "plain_elem ''keys''" by (simp add: plain_elem_def)
  ultimately show ?thesis by (simp add: keyPath_def pathJoin_plain)
qed

lemma keyPath_inj: "one_element m \<Longrightarrow> one_element n \<Longrightarrow> keyPath m = keyPath n \<Longrightarrow> m = n"
  by (simp add: keyPath_plain)

text \<open>Names are not restricted, and others share files or leave the directory.\<close>

lemma keyPath_aliases: "keyPath ''x/../ann'' = keyPath ''ann''" "keyPath ''../ann'' = ''ann.key''"
  by code_simp+

interpretation key_files: keystore key_load key_save key_delete one_element
proof
  fix k s n assume "length (k :: string) = privateKeySize"
  then show "key_load (key_save s n k) n = Some k" by (simp add: key_load_def key_save_def)
next
  fix s n show "key_load (key_delete s n) n = None" by (simp add: key_load_def key_delete_def)
next
  fix m n :: string and s k assume "one_element m" "one_element n" "m \<noteq> n"
  then have "keyPath m \<noteq> keyPath n" using keyPath_inj by blast
  then show "key_load (key_save s n k) m = key_load s m" "key_load (key_delete s n) m = key_load s m"
    by (simp_all add: key_load_def key_save_def key_delete_def)
qed

definition file_op :: "key_op \<Rightarrow> (string, string) gomap \<Rightarrow> (string, string) gomap" where
  "file_op p ks = (case p of SaveKey n k \<Rightarrow> key_save ks n k | DeleteKey n \<Rightarrow> key_delete ks n)"

lemma file_op_run: "file_op = key_files.run_op_on"
  by (intro HOL.ext) (simp add: file_op_def split: key_op.split)

text \<open>C33: The directory of key files implements a map from names to keys: after any
  sequence of saves and deletes under names that are one path element, loading a name answers what
  the same sequence leaves in a map, whatever was in the directory before.\<close>

theorem key_files_refine_map:
  assumes "one_element m" "\<forall>p \<in> set ps. one_element (op_name p) \<and> key_sized p"
  shows "key_load (fold file_op ps ks) m = fold op_on_map ps (key_load ks) m"
  unfolding file_op_run by (rule key_files.simulates_all[OF assms])

section \<open>The keychain\<close>

type_synonym 'w tool = "string list \<Rightarrow> 'w \<Rightarrow> (string \<times> string option) \<times> 'w"
  \<comment> \<open>arguments and world to output, error and world\<close>

definition keychainService :: string where "keychainService = ''lalia''"

definition keychain_load :: "'w tool \<Rightarrow> string \<Rightarrow> 'w \<Rightarrow> (string + string) \<times> 'w" where
  "keychain_load security n w =
     (case security [''find-generic-password'', ''-s'', keychainService, ''-a'', n, ''-w''] w of
        ((out, Some err), w) \<Rightarrow> (Inl (''keychain load '' @ n @ '': '' @ err), w)
      | ((out, None), w) \<Rightarrow>
          ((case hexDecode (trimSpace out) of
              Inl err \<Rightarrow> Inl (''keychain decode '' @ n @ '': '' @ hexError_text err)
            | Inr b \<Rightarrow> if length b \<noteq> privateKeySize
                then Inl (''keychain key '' @ n @ '' malformed: size '' @ itoa (int (length b))) else Inr b), w))"

definition utf8_dash :: string where "utf8_dash = [CHR 0xE2, CHR 0x80, CHR 0x94]"

definition tool_failed :: "string \<Rightarrow> string \<Rightarrow> string \<Rightarrow> string \<Rightarrow> string" where
  "tool_failed what n err out = what @ n @ '': '' @ err @ '' '' @ utf8_dash @ '' '' @ trimSpace out"

definition keychain_save :: "'w tool \<Rightarrow> string \<Rightarrow> string \<Rightarrow> 'w \<Rightarrow> string option \<times> 'w" where
  "keychain_save security n key w =
     (case security [''add-generic-password'', ''-s'', keychainService, ''-a'', n, ''-w'', hexEncode key, ''-U''] w of
        ((out, Some err), w) \<Rightarrow> (Some (tool_failed ''keychain save '' n err out), w)
      | ((out, None), w) \<Rightarrow> (None, w))"

definition keychain_delete :: "'w tool \<Rightarrow> string \<Rightarrow> 'w \<Rightarrow> string option \<times> 'w" where
  "keychain_delete security n w =
     (case security [''delete-generic-password'', ''-s'', keychainService, ''-a'', n] w of
        ((out, None), w) \<Rightarrow> (None, w)
      | ((out, Some err), w) \<Rightarrow>
          if contains out ''could not be found'' \<or> contains out ''44'' then (None, w)
          else (Some (tool_failed ''keychain delete '' n err out), w))"

datatype backend = FileStore | KeychainStore

definition newKeychainBackend :: "bool \<Rightarrow> bool \<Rightarrow> backend option" where
  \<comment> \<open>on macOS, and with the tool in the path\<close>
  "newKeychainBackend darwin tool = (if darwin \<and> tool then Some KeychainStore else None)"

definition newKeystore :: "(string \<Rightarrow> string) \<Rightarrow> bool \<Rightarrow> bool \<Rightarrow> backend" where
  "newKeystore getenv darwin tool =
     (if getenv ''LALIA_KEYSTORE'' = ''keychain''
      then (case newKeychainBackend darwin tool of Some b \<Rightarrow> b | None \<Rightarrow> FileStore)
      else FileStore)"

lemma hexDigit_not_space: "d < 16 \<Longrightarrow> \<not> isSpace (hexDigit d)"
  using of_char_hexDigit[of d] by (auto simp: isSpace_def split: if_splits)

lemma hexEncode_not_space: "c \<in> set (hexEncode s) \<Longrightarrow> \<not> isSpace c"
proof (induction s rule: hexEncode.induct)
  case (2 d s)
  have "(of_char d :: nat) < 256" by simp
  then have "(of_char d :: nat) div 16 < 16" by linarith
  then show ?case using 2 by (auto simp: hexDigit_not_space)
qed simp

lemma trimSpace_clean: "(\<And>c. c \<in> set s \<Longrightarrow> \<not> isSpace c) \<Longrightarrow> trimSpace (s @ [nl]) = s"
proof -
  assume s: "\<And>c. c \<in> set s \<Longrightarrow> \<not> isSpace c"
  have nl: "isSpace nl" by (simp add: isSpace_def)
  have front: "dropWhile isSpace (s @ [nl]) = (if s = [] then [] else s @ [nl])"
    using s nl by (cases s) auto
  have "dropWhile isSpace (rev s) = rev s" using s by (cases "rev s") (auto simp: dropWhile_eq_Cons_conv)
  then show ?thesis using nl by (simp add: trimSpace_def front)
qed

text \<open>A key saved in the keychain is the key loaded from it: with a tool that, after
  adding a password, finds it and prints it on a line, saving without an error and loading the same name
  answers the key, byte for byte; and when the keychain is not asked for, or the platform or
  the tool is missing, the file store is used.\<close>

theorem keychain_roundtrip:
  assumes "length k = privateKeySize"
    "\<And>h w out w'. security [''add-generic-password'', ''-s'', keychainService, ''-a'', n, ''-w'', h, ''-U''] w = ((out, None), w') \<Longrightarrow>
       security [''find-generic-password'', ''-s'', keychainService, ''-a'', n, ''-w''] w' = ((h @ [nl], None), w')"
    "keychain_save security n k w = (None, w')"
  shows "keychain_load security n w' = (Inr k, w')
    \<and> (newKeystore env darwin tool = KeychainStore \<longleftrightarrow> env ''LALIA_KEYSTORE'' = ''keychain'' \<and> darwin \<and> tool)"
proof -
  obtain out where "security [''add-generic-password'', ''-s'', keychainService, ''-a'', n, ''-w'', hexEncode k, ''-U''] w
      = ((out, None), w')"
    using assms(3) by (auto simp: keychain_save_def split: prod.splits option.splits)
  then have "security [''find-generic-password'', ''-s'', keychainService, ''-a'', n, ''-w''] w' = ((hexEncode k @ [nl], None), w')"
    by (rule assms(2))
  then show ?thesis
    using assms(1) trimSpace_clean[of "hexEncode k"] hexEncode_not_space
    by (simp add: keychain_load_def newKeystore_def newKeychainBackend_def)
qed

end
