(* ===== verification/Replies.thy ===== *)
theory Replies
  imports Client
begin

text \<open>
  The shape of what the daemon answers: every reply of every handler is either a plain success or
  an error with a code, a message, a reason and a hint, which the client decodes as it was made.
\<close>

section \<open>Well-formed replies\<close>

definition error_codes :: "int list" where
  "error_codes = [CodeError, CodePeerClosed, CodeNotFound, CodeUnauthorized, CodeSupervisorBusy,
     CodeProjectIdentityMismatch, CodePIDConflict, CodeSessionConflict]"

definition reply_ok :: "response \<Rightarrow> bool" where
  "reply_ok r \<longleftrightarrow> (if OK r then Code r = CodeOK \<and> Error r = []
     else \<exists>c reason hint ctx. r = errorResponse c reason hint (Error r) ctx
       \<and> c \<in> set error_codes \<and> reason \<noteq> [] \<and> Error r \<noteq> [])"

lemma reply_okResponse [reply]: "reply_ok (okResponse d)"
  by (simp add: reply_ok_def okResponse_def)

lemma reply_errorResponse [reply]:
  "c \<in> set error_codes \<Longrightarrow> reason \<noteq> [] \<Longrightarrow> m \<noteq> [] \<Longrightarrow> reply_ok (errorResponse c reason hint m ctx)"
  by (auto simp: reply_ok_def)

lemma reply_codes [reply]:
  "CodeError \<in> set error_codes" "CodeNotFound \<in> set error_codes" "CodeUnauthorized \<in> set error_codes"
  "CodePeerClosed \<in> set error_codes" "CodeSupervisorBusy \<in> set error_codes"
  "CodeProjectIdentityMismatch \<in> set error_codes" "CodePIDConflict \<in> set error_codes"
  "CodeSessionConflict \<in> set error_codes"
  by (simp_all add: error_codes_def)

lemma reply_shared [reply]:
  "reply_ok missing_from" "reply_ok missing_project" "m \<noteq> [] \<Longrightarrow> reply_ok (missing_params h m c)"
  "reason \<noteq> [] \<Longrightarrow> m \<noteq> [] \<Longrightarrow> reply_ok (not_found reason h m c)"
  "reason \<noteq> [] \<Longrightarrow> m \<noteq> [] \<Longrightarrow> reply_ok (unauthorized reason h m c)"
  "reply_ok (room_not_found h r c)" "reply_ok (no_such_room r)" "reply_ok (not_in_room h f r)"
  by (simp_all add: missing_from_def missing_project_def missing_params_def not_found_def unauthorized_def
      room_not_found_def no_such_room_def not_in_room_def reply)

definition fine :: "outcome \<Rightarrow> bool" where
  "fine out = (case out of Done r \<Rightarrow> reply_ok r | Blocks ch \<Rightarrow> True)"

lemma fine_simps [reply]: "fine (Done r) = reply_ok r" "fine (Blocks ch)"
  by (simp_all add: fine_def)

section \<open>The handlers\<close>

lemma addrError_nonempty [simp]: "addrError_text err \<noteq> []"
  by (simp add: addrError_text_def ambiguousError_def split: addrError.split)

lemma reply_messages [reply]:
  "reply_ok (from_room_required f r)" "reply_ok missing_target" "reply_ok (ambiguous_target p r)"
  "reply_ok (peer_not_registered p err)" "reply_ok (not_participant f)" "reply_ok (msgResponse m)"
  "reply_ok emptyResponse" "reply_ok (room_empty n)" "reply_ok (roomDrainResponse e n ms k)"
  "reply_ok (anyResponse kd t m)" "reply_ok (not_registered h f)" "reply_ok (pid_conflict pid a)"
  "reply_ok (not_registered_auth f)" "reply_ok (not_supervisor f)" "reply_ok (missing_slug h)"
  "reply_ok (no_task_list h p)" "reply_ok (slug_not_found h sl)" "reply_ok (supervisor_cannot_claim f)"
  by (simp_all add: from_room_required_def missing_target_def ambiguous_target_def peer_not_registered_def
      not_participant_def msgResponse_def emptyResponse_def room_empty_def roomDrainResponse_def anyResponse_def
      not_registered_def pid_conflict_def not_registered_auth_def not_supervisor_def missing_slug_def
      no_task_list_def slug_not_found_def supervisor_cannot_claim_def reply)

lemma reply_rooms:
  "reply_ok (opRooms req s)" "reply_ok (fst (opRoomCreate e req s))" "reply_ok (fst (opJoin req s))"
  "reply_ok (fst (opLeave req s))" "reply_ok (opParticipants req s)" "reply_ok (fst (opPost e req s))"
  "reply_ok (roomPeek f n s)" "reply_ok (roomHistory f n i j s)" "fine (fst (roomRead e f n t s))"
  by (simp_all add: opRooms_def opRoomCreate_def opJoin_def opLeave_def opParticipants_def opPost_def roomPeek_def
      roomHistory_def roomRead_def Let_def case_prod_unfold reply split: option.split)

lemma reply_channels:
  "reply_ok (fst (tell e k c f b s))" "fine (fst (chanRead k c f t s))" "reply_ok (chanPeek c f)"
  by (simp_all add: tell_def chanRead_def chanPeek_def Let_def case_prod_unfold reply split: option.split list.split)

lemma reply_mail:
  "reply_ok (fst (opTell e req s))" "fine (fst (opRead e req s))" "reply_ok (opPeek e req s)"
  "fine (fst (opReadAny req s))" "reply_ok (opHistory req s)" "reply_ok (opChannels req s)"
proof -
  have t: "target_error f p r = Some err \<Longrightarrow> reply_ok err" for f p r err
    by (auto simp: target_error_def reply split: if_splits)
  show "reply_ok (fst (opTell e req s))" "fine (fst (opReadAny req s))" "reply_ok (opChannels req s)"
    by (simp_all add: opTell_def opReadAny_def opChannels_def Let_def case_prod_unfold reply reply_channels
        split: option.split sum.split)
  show "fine (fst (opRead e req s))" "reply_ok (opPeek e req s)" "reply_ok (opHistory req s)"
    by (auto simp: opRead_def opPeek_def opHistory_def Let_def case_prod_unfold reply reply_channels reply_rooms t
        split: option.split sum.split)
qed

lemma reply_registry:
  "reply_ok (fst (opRegister e req s))" "reply_ok (fst (opUnregister e req s))" "reply_ok (fst (opRenew e req s))"
  "reply_ok (opAgents e s)" "reply_ok (opResolve e req s)"
proof -
  have "register_conflict e n p info u = Some r \<Longrightarrow> reply_ok r" for n p info u r
    by (auto simp: register_conflict_def session_conflict_def reply split: option.splits if_splits)
  then show "reply_ok (fst (opRegister e req s))"
    by (simp add: opRegister_def Let_def case_prod_unfold reply split: option.split sum.split)
qed (simp_all add: opUnregister_def opRenew_def opAgents_def opResolve_def Let_def case_prod_unfold reply
    split: option.split sum.split)

lemma reply_supervisor: "requireSupervisor f p s = Some r \<Longrightarrow> reply_ok r"
  by (auto simp: requireSupervisor_def reply split: option.splits if_splits)

lemma reply_row: "find_row h1 h2 p n s = Inl r \<Longrightarrow> reply_ok r"
  by (auto simp: find_row_def reply split: option.splits)

lemma reply_gates: "unpublish_gates e g n t force wipe evict s = Some r \<Longrightarrow> reply_ok r"
  by (auto simp: unpublish_gates_def owner_gate_def Let_def reply split: option.splits if_splits)

lemma reply_checks:
  "unassign_check req s = Inl r \<Longrightarrow> reply_ok r" "reassign_check req s = Inl r \<Longrightarrow> reply_ok r"
  "status_check req s = Inl r \<Longrightarrow> reply_ok r" "claim_check req s = Inl r \<Longrightarrow> reply_ok r"
  "unpublish_check e req s = Inl r \<Longrightarrow> reply_ok r" "handoff_check req s = Inl r \<Longrightarrow> reply_ok r"
  by (auto simp: unassign_check_def reassign_check_def status_check_def claim_check_def unpublish_check_def
      handoff_check_def Let_def reply reply_supervisor reply_row reply_gates
      split: option.splits sum.splits if_splits prod.splits)

lemma reply_tasks:
  "reply_ok (fst (opTaskUnassign e req s))" "reply_ok (fst (opTaskReassign e req s))"
  "reply_ok (fst (opTaskStatus e req s))" "reply_ok (fst (opTaskClaim e req s))"
  "reply_ok (fst (opTaskUnpublish e req s))" "reply_ok (fst (opTaskHandoff e req s))"
  "reply_ok (opTaskShow req s)" "reply_ok (opTaskList req s)" "reply_ok (opTaskBulletin req s)"
  "reply_ok (fst (opRoomsGC req s))"
  by (simp_all add: opTaskUnassign_def opTaskReassign_def opTaskStatus_def opTaskClaim_def opTaskUnpublish_def
      opTaskHandoff_def opTaskShow_def opTaskList_def opTaskBulletin_def opRoomsGC_def Let_def case_prod_unfold
      reply reply_checks split: option.split sum.split)

lemma reply_publish: "reply_ok (fst (opTaskPublish e req s))"
proof -
  have p: "parse_workstreams i seen raws = Inl r \<Longrightarrow> reply_ok r" for i seen raws r
    by (induction i seen raws rule: parse_workstreams.induct)
      (auto simp: Let_def reply split: json.splits if_splits sum.splits)
  have a: "publish_auth e f pd ar s = Some r \<Longrightarrow> reply_ok r" for f pd ar r
    by (auto simp: publish_auth_def Let_def reply split: option.splits if_splits)
  have "publish_root e rr = Inl r \<Longrightarrow> reply_ok r" for rr r
    by (auto simp: publish_root_def reply split: sum.splits if_splits)
  with p a show ?thesis
    by (simp add: opTaskPublish_def Let_def case_prod_unfold reply split: option.split sum.split)
qed

lemma reply_dispatch: "fine (fst (dispatch e req s))"
proof -
  have stop: "reply_ok \<lparr>OK = True, Data = None, Error = [], Code = CodeOK\<rparr>" by (simp add: reply_ok_def)
  have "fine (fst (run_op e req t))" for t
    by (simp add: run_op_def answer_def Let_def reply reply_rooms reply_mail reply_registry reply_tasks reply_publish stop)
  moreover have "auth_gate e req s = Some r \<Longrightarrow> reply_ok r" for r
    by (auto simp: auth_gate_def Let_def reply split: option.splits if_splits)
  ultimately show ?thesis by (auto simp: dispatch_def reply split: option.split)
qed

section \<open>What the client reads\<close>

lemma decode_made:
  "decodeErrorDetail (Data (errorResponse c reason hint m ctx)) =
     Some \<lparr>ed_Code = (if c = 0 then CodeError else c), ed_Reason = reason, ed_RetryHint = hint, ed_Context = ctx\<rparr>"
  by (auto simp: errorResponse_def errorDetail_json_def decodeErrorDetail_def Let_def numVal_def strVal_def codes)


end
