(* ===== verification/Mail_Order.thy ===== *)
theory Mail_Order
  imports Handler_Walk
begin

text \<open>
  Conversations over whole executions. The mailbox of a peer, with the log of the channel, is a
  first-in-first-out buffer: every event of the daemon either leaves it alone, or appends a message that
  was told, or takes the oldest one for the answer of a read. What makes this hold is a discipline of the blocked readers: one is only
  registered while nothing is pending for it, so a message handed to it directly overtakes nothing.
  The exception at the end is a reader whose timer runs out as its message arrives.
\<close>

section \<open>The abstract buffer\<close>

datatype deed =
    Idle
  | Sent message          \<comment> \<open>told, and put into the mailbox\<close>
  | Handed nat message    \<comment> \<open>told, and sent to the Go channel of a blocked reader\<close>
  | Taken message         \<comment> \<open>read from the mailbox\<close>

fun effect :: "deed \<Rightarrow> message list \<times> message list \<Rightarrow> message list \<times> message list" where
  \<comment> \<open>on what was sent so far, and what is pending\<close>
  "effect Idle lq = lq"
| "effect (Sent m) (l, q) = (l @ [m], q @ [m])"
| "effect (Handed ch m) (l, q) = (l @ [m], q)"
| "effect (Taken m) (l, q) = (l, tl q)"

fun in_turn :: "deed \<Rightarrow> message list \<Rightarrow> bool" where
  \<comment> \<open>what is taken is the oldest that is pending; what is handed over has nothing before it\<close>
  "in_turn (Handed ch m) q = (q = [])"
| "in_turn (Taken m) q = (\<exists>q'. q = m # q')"
| "in_turn _ q = True"

fun was_sent :: "deed \<Rightarrow> message list" where
  "was_sent (Sent m) = [m]"
| "was_sent (Handed ch m) = [m]"
| "was_sent _ = []"

fun was_delivered :: "deed \<Rightarrow> message list" where
  "was_delivered (Handed ch m) = [m]"
| "was_delivered (Taken m) = [m]"
| "was_delivered _ = []"

lemma effect_fifo:
  assumes "effect d (l, q) = (l', q')" "in_turn d q"
  shows "l' = l @ was_sent d \<and> q @ was_sent d = was_delivered d @ q'"
  using assms by (cases d) auto

section \<open>A conversation of the daemon\<close>

definition convo :: "channel \<Rightarrow> string \<Rightarrow> message list \<times> message list" where
  \<comment> \<open>what the other one has told the peer \<open>n\<close>, and what of it \<open>n\<close> has yet to read\<close>
  "convo c n = (if is_peer c n then (filter (\<lambda>m. From m = other c n) (c_log c), mbox c n) else ([], []))"

definition conversation_of :: "state \<Rightarrow> string \<Rightarrow> string \<Rightarrow> message list \<times> message list" where
  "conversation_of s k n = (case map_of (channels s) k of None \<Rightarrow> ([], []) | Some c \<Rightarrow> convo c n)"

definition waits :: "state \<Rightarrow> channel \<Rightarrow> string \<Rightarrow> bool" where
  \<comment> \<open>a blocked reader is registered for \<open>n\<close>, or \<open>n\<close> is none of the two peers\<close>
  "waits s c n \<longleftrightarrow> \<not> is_peer c n \<or> map_of (c_waiter c) n \<noteq> None \<or> map_of (anyWaiter s) n \<noteq> None"

definition tidy :: "state \<Rightarrow> bool" where
  "tidy s \<longleftrightarrow> keys_ok (channels s)
     \<and> (\<forall>k c n. map_of (channels s) k = Some c \<longrightarrow> waits s c n \<longrightarrow> mbox c n = [])"

definition calm :: "state \<Rightarrow> state \<Rightarrow> bool" where
  \<comment> \<open>nothing is told and nothing is read\<close>
  "calm s t \<longleftrightarrow> (tidy s \<longrightarrow> tidy t \<and> conversation_of t = conversation_of s)"

definition mail_view :: "state \<Rightarrow> (string, channel) gomap \<times> (string, nat) gomap" where
  "mail_view s = (channels s, anyWaiter s)"

lemma tidyD: "tidy s \<Longrightarrow> map_of (channels s) k = Some c \<Longrightarrow> waits s c n \<Longrightarrow> mbox c n = []"
  by (simp add: tidy_def)

text \<open>A state without blocked readers, such as that of a new daemon, is tidy.\<close>

lemma tidy_idle:
  assumes "chan_inv s" "anyWaiter s = []" "\<And>k c. map_of (channels s) k = Some c \<Longrightarrow> c_waiter c = []"
  shows "tidy s"
  using assms by (auto simp: tidy_def waits_def chan_inv_def chan_ok_def box_ok_def)

section \<open>What leaves conversations alone\<close>

lemma calm_fewer:
  assumes "channels t = channels s" "\<And>n. map_of (anyWaiter t) n \<noteq> None \<Longrightarrow> map_of (anyWaiter s) n \<noteq> None"
  shows "calm s t"
proof -
  have "waits t c n \<Longrightarrow> waits s c n" for c n using assms(2) by (auto simp: waits_def)
  then show ?thesis using assms(1) by (auto simp: calm_def tidy_def conversation_of_def fun_eq_iff)
qed

lemma tidy_put:
  assumes "tidy s" "channels t = AList.update k c' (channels s)"
    "\<And>n. map_of (anyWaiter t) n \<noteq> None \<Longrightarrow> map_of (anyWaiter s) n \<noteq> None"
    "\<And>n. waits t c' n \<Longrightarrow> mbox c' n = []"
  shows "tidy t"
proof -
  have "waits t d n \<Longrightarrow> waits s d n" for d n using assms(3) by (auto simp: waits_def)
  then show ?thesis using assms(1,2,4) by (auto simp: tidy_def keys_ok_def distinct_update)
qed

lemma conversation_put:
  "channels t = AList.update k c' (channels s) \<Longrightarrow>
     conversation_of t k' n = (if k' = k then convo c' n else conversation_of s k' n)"
  by (simp add: conversation_of_def)

lemma calm_put:
  assumes "map_of (channels s) k = Some c" "channels t = AList.update k c' (channels s)"
    "\<And>n. map_of (anyWaiter t) n \<noteq> None \<Longrightarrow> map_of (anyWaiter s) n \<noteq> None"
    "\<And>n. tidy s \<Longrightarrow> waits t c' n \<Longrightarrow> mbox c' n = []" "convo c' = convo c"
  shows "calm s t"
proof -
  have "conversation_of t = conversation_of s"
    using assms(1,5) by (simp add: fun_eq_iff conversation_put[OF assms(2)]) (simp add: conversation_of_def)
  then show ?thesis using tidy_put[OF _ assms(2-4)] by (simp add: calm_def)
qed

lemma convo_waiter: "mbox (c\<lparr>c_waiter := w\<rparr>) = mbox c" "convo (c\<lparr>c_waiter := w\<rparr>) = convo c"
  by (simp_all add: fun_eq_iff convo_def mbox_def is_peer_def other_def)

lemma calm_waiters:
  \<comment> \<open>forgetting blocked readers of one channel\<close>
  assumes "map_of (channels s) k = Some c" "channels t = AList.update k (c\<lparr>c_waiter := w\<rparr>) (channels s)" "anyWaiter t = anyWaiter s"
    "\<And>n. map_of w n \<noteq> None \<Longrightarrow> map_of (c_waiter c) n \<noteq> None"
  shows "calm s t"
proof (rule calm_put[OF assms(1,2)])
  fix n
  assume "tidy s" "waits t (c\<lparr>c_waiter := w\<rparr>) n"
  then show "mbox (c\<lparr>c_waiter := w\<rparr>) n = []"
    using tidyD[OF _ assms(1), of n] assms(3,4) by (auto simp: waits_def is_peer_def convo_waiter)
qed (simp_all add: assms(3) convo_waiter)

lemma open_calm: "calm s (snd (snd (getOrCreateChannel a b s)))"
proof (cases "map_of (channels s) (channelKey a b)")
  case None
  let ?k = "channelKey a b" and ?c = "newChannel a b"
  have m: "mbox ?c n = []" "convo ?c n = ([], [])" for n by (simp_all add: newChannel_def mbox_def convo_def)
  have t: "channels (snd (snd (getOrCreateChannel a b s))) = AList.update ?k ?c (channels s)"
    "anyWaiter (snd (snd (getOrCreateChannel a b s))) = anyWaiter s"
    using None by (simp_all add: getOrCreateChannel_def Let_def put_channel_def)
  have "tidy (snd (snd (getOrCreateChannel a b s)))" if "tidy s"
    using that m(1) by (intro tidy_put[OF that t(1)]) (simp_all add: t(2))
  then show ?thesis using None m(2) by (simp add: calm_def fun_eq_iff conversation_put[OF t(1)]) (simp add: conversation_of_def)
qed (simp add: calm_def getOrCreateChannel_def)

lemma ensureKey_mail: "mail_view (snd (ensureKey e n s)) = mail_view s"
  by (simp add: ensureKey_def mail_view_def Let_def split: option.split)

interpretation mail: quiet_walk mail_view calm
proof
  fix s t assume "mail_view t = mail_view s"
  then show "calm s t" by (intro calm_fewer) (simp_all add: mail_view_def)
next
  fix s t u assume "calm s t" "calm t u"
  then show "calm s u" by (simp add: calm_def)
next
  show "map_of (channels s) k = Some c \<Longrightarrow> calm s (releaseWaiter k c n reason s)" for s k c n reason
    by (cases "map_of (c_waiter c) n")
      (auto simp: releaseWaiter_def put_channel_def delete_conv' intro: calm_fewer calm_waiters split: if_splits)
  show "map_of (channels s) k = Some c \<Longrightarrow> calm s (snd (chanRead_timeout k c n s))" for s k c n
    by (rule calm_waiters[where w = "AList.delete n (c_waiter c)"])
      (auto simp: chanRead_timeout_def put_channel_def delete_conv' split: if_splits)
  show "mail_view (snd (ensureKey e n s)) = mail_view s" for e n s by (rule ensureKey_mail)
qed (auto simp: mail_view_def open_calm removeAgentFile_def removeKey_def put_agent_def
    indexAgent_def put_tasks_def deliverAny_def delete_conv' intro: calm_fewer split: option.splits if_splits)

section \<open>Telling and reading\<close>

definition carries :: "payload \<Rightarrow> message \<Rightarrow> bool" where
  "carries v m \<longleftrightarrow> v = PayWait \<lparr>w_msg = Some m, w_err = [], w_code = 0\<rparr>
     \<or> (\<exists>kind target. v = PayAny \<lparr>am_kind = kind, am_target = target, am_msg = m\<rparr>)"

definition tell_deed :: "state \<Rightarrow> channel \<Rightarrow> string \<Rightarrow> message \<Rightarrow> deed" where
  "tell_deed s c p m = (case map_of (c_waiter c) p of Some w \<Rightarrow> Handed w m
     | None \<Rightarrow> (case map_of (anyWaiter s) p of Some w \<Rightarrow> Handed w m | None \<Rightarrow> Sent m))"

text \<open>A message that joins the log is appended to the conversation of its receiver, and to no other.\<close>

lemma convo_logged:
  assumes "peerOf c f = Some p" "From m = f" "c_log c' = c_log c @ [m]" "PeerA c' = PeerA c" "PeerB c' = PeerB c"
    "\<And>x. x \<noteq> p \<Longrightarrow> mbox c' x = mbox c x"
  shows "convo c' n = (if n = p then (fst (convo c p) @ [m], mbox c' p) else convo c n)"
proof -
  have same: "other c' x = other c x" "is_peer c' x = is_peer c x" for x using assms(4,5) by (simp_all add: other_def is_peer_def)
  have p: "is_peer c p" "other c p = f"
    using assms(1) peerOf_other[OF assms(1)] by (auto simp: peerOf_def is_peer_def split: if_splits)
  have "other c n \<noteq> f" if "n \<noteq> p" "is_peer c n"
    using that assms(1) by (auto simp: other_def peerOf_def is_peer_def split: if_splits)
  show ?thesis
  proof (cases "n = p")
    case True
    then show ?thesis using assms(2,3) same p by (simp add: convo_def)
  next
    case False
    then have "is_peer c n \<Longrightarrow> From m \<noteq> other c n" using \<open>n \<noteq> p \<Longrightarrow> is_peer c n \<Longrightarrow> other c n \<noteq> f\<close> assms(2) by metis
    then show ?thesis using False assms(3,6) same by (simp add: convo_def)
  qed
qed

lemma tell_does:
  assumes "tidy s" "map_of (channels s) k = Some c" "peerOf c f = Some p" "m = told e c f body"
    "t = snd (tell e k c f body s)" "d = tell_deed s c p m"
  shows "tidy t" "conversation_of t k' n = (if k' = k \<and> n = p then effect d (conversation_of s k p) else conversation_of s k' n)"
    "in_turn d (snd (conversation_of s k p))" "fst (tell e k c f body s) = okResponse (JObj [(''seq'', JNum (Seq m)), (''peer'', JStr p)])"
    "\<And>w. d = Handed w m \<Longrightarrow> \<exists>v. carries v m \<and> bufs t w = bufs s w @ [v]"
proof -
  note tell_simps = tell_eq[OF assms(3)] Let_def put_channel_def tell_written_def logged_def told_def mbox_def delete_conv'
  have p: "is_peer c p" using assms(3) by (auto simp: peerOf_def is_peer_def split: if_splits)
  have none: "waits s c p \<Longrightarrow> mbox c p = []" by (rule tidyD[OF assms(1,2)])
  have cs: "conversation_of s k p = (fst (convo c p), mbox c p)" using assms(2) p by (simp add: conversation_of_def convo_def)
  have put: "tidy t \<and> conversation_of t k' n = (if k' = k \<and> n = p then effect d (conversation_of s k p) else conversation_of s k' n)"
    if "channels t = AList.update k c' (channels s)"
      "\<And>n. map_of (anyWaiter t) n \<noteq> None \<Longrightarrow> map_of (anyWaiter s) n \<noteq> None" "waits t c' p \<Longrightarrow> waits s c p"
      "c_log c' = c_log c @ [m]" "PeerA c' = PeerA c" "PeerB c' = PeerB c" "\<And>x. x \<noteq> p \<Longrightarrow> mbox c' x = mbox c x"
      "\<And>x. map_of (c_waiter c') x \<noteq> None \<Longrightarrow> map_of (c_waiter c) x \<noteq> None"
      "(\<not> waits s c p \<and> mbox c' p = mbox c p @ [m]) \<or> (waits s c p \<and> mbox c' p = mbox c p)"
      "effect d (fst (convo c p), mbox c p) = (fst (convo c p) @ [m], mbox c' p)" for c'
  proof -
    have "tidy t"
    proof (rule tidy_put[OF assms(1) that(1,2)])
      fix n assume "waits t c' n"
      then have "waits s c n" using that(2,3,5,6,8) by (cases "n = p") (auto simp: waits_def is_peer_def)
      then show "mbox c' n = []" using tidyD[OF assms(1,2), of n] that(7)[of n] that(9) by (cases "n = p") auto
    qed
    moreover have "From m = f" by (simp add: assms(4) told_def)
    ultimately have c: "convo c' n = (if n = p then effect d (conversation_of s k p) else conversation_of s k n)"
      using convo_logged[OF assms(3) _ that(4-7), of n] that(10) cs assms(2) by (simp add: conversation_of_def)
    show ?thesis unfolding conversation_put[OF that(1)] c using \<open>tidy t\<close> by simp
  qed
  consider w where "map_of (c_waiter c) p = Some w" | w where "map_of (c_waiter c) p = None" "map_of (anyWaiter s) p = Some w"
    | "map_of (c_waiter c) p = None" "map_of (anyWaiter s) p = None" by (meson not_None_eq)
  then have "tidy t \<and> conversation_of t k' n = (if k' = k \<and> n = p then effect d (conversation_of s k p) else conversation_of s k' n)
    \<and> in_turn d (mbox c p) \<and> (\<forall>w. d = Handed w m \<longrightarrow> (\<exists>v. carries v m \<and> bufs t w = bufs s w @ [v]))"
  proof cases
    case 1
    then have "waits s c p" and d: "d = Handed w m" by (simp_all add: waits_def assms(6) tell_deed_def)
    then show ?thesis using 1 none
      by (intro conjI put[of "(logged c m)\<lparr>c_waiter := AList.delete p (c_waiter c)\<rparr>", THEN conjunct1]
          put[of "(logged c m)\<lparr>c_waiter := AList.delete p (c_waiter c)\<rparr>", THEN conjunct2])
        (auto simp: assms(4,5) tell_simps waits_def carries_def split: if_splits)
  next
    case 2
    then have "waits s c p" and d: "d = Handed w m" by (simp_all add: waits_def assms(6) tell_deed_def)
    then show ?thesis using 2 none
      by (intro conjI put[of "logged c m", THEN conjunct1] put[of "logged c m", THEN conjunct2])
        (auto simp: assms(4,5) tell_simps waits_def carries_def split: if_splits)
  next
    case 3
    then have "\<not> waits s c p" "d = Sent m" using p by (simp_all add: waits_def assms(6) tell_deed_def)
    then show ?thesis using 3 p
      by (intro conjI put[of "(logged c m)\<lparr>c_mailbox := AList.update p (mbox c p @ [m]) (c_mailbox c)\<rparr>", THEN conjunct1]
          put[of "(logged c m)\<lparr>c_mailbox := AList.update p (mbox c p @ [m]) (c_mailbox c)\<rparr>", THEN conjunct2])
        (auto simp: assms(4,5) tell_simps waits_def is_peer_def split: if_splits)
  qed
  then show "tidy t" "conversation_of t k' n = (if k' = k \<and> n = p then effect d (conversation_of s k p) else conversation_of s k' n)"
    "in_turn d (snd (conversation_of s k p))" "\<And>w. d = Handed w m \<Longrightarrow> \<exists>v. carries v m \<and> bufs t w = bufs s w @ [v]"
    by (simp_all add: cs)
  show "fst (tell e k c f body s) = okResponse (JObj [(''seq'', JNum (Seq m)), (''peer'', JStr p)])"
    by (auto simp: tell_eq[OF assms(3)] assms(4) told_def Let_def split: option.split)
qed

text \<open>What leaves a mailbox is its oldest message.\<close>

lemma taken_does:
  assumes "tidy s" "map_of (channels s) k = Some c" "channels t = AList.update k (c\<lparr>c_mailbox := AList.update f q (c_mailbox c)\<rparr>) (channels s)"
    "anyWaiter t = anyWaiter s" "mbox c f = m # q"
  shows "tidy t" "conversation_of t k' n = (if k' = k \<and> n = f then effect (Taken m) (conversation_of s k f) else conversation_of s k' n)"
    "in_turn (Taken m) (snd (conversation_of s k f))"
proof -
  let ?c = "c\<lparr>c_mailbox := AList.update f q (c_mailbox c)\<rparr>"
  have m: "mbox ?c n = (if n = f then q else mbox c n)" for n by (simp add: mbox_def)
  have f: "is_peer c f" using tidyD[OF assms(1,2), of f] assms(5) by (auto simp: waits_def)
  have "mbox ?c n = []" if "waits t ?c n" for n
  proof -
    have "waits s c n" using that assms(4) by (simp add: waits_def is_peer_def)
    then show ?thesis using tidyD[OF assms(1,2), of n] assms(5) by (auto simp: m)
  qed
  then show "tidy t" by (intro tidy_put[OF assms(1,3)]) (simp_all add: assms(4))
  have "convo ?c n = (if n = f then effect (Taken m) (conversation_of s k f) else conversation_of s k n)"
    using f assms(2,5) by (simp add: convo_def m conversation_of_def) (auto simp: is_peer_def other_def)
  then show "conversation_of t k' n = (if k' = k \<and> n = f then effect (Taken m) (conversation_of s k f) else conversation_of s k' n)"
    unfolding conversation_put[OF assms(3)] by auto
  show "in_turn (Taken m) (snd (conversation_of s k f))" using assms(2,5) f by (simp add: conversation_of_def convo_def)
qed

section \<open>Events\<close>

definition tells :: "event \<Rightarrow> state \<Rightarrow> message \<Rightarrow> bool" where
  \<comment> \<open>the event is a tell that is answered OK, and this is its message\<close>
  "tells ev s m \<longleftrightarrow> (\<exists>e req resp. ev = Request e req \<and> Op req = ''tell'' \<and> fst (dispatch e req s) = Done resp \<and> OK resp
     \<and> From m = strVal (Args req) ''from'' \<and> Body m = strVal (Args req) ''body'' \<and> TS m = now e)"

definition reads :: "event \<Rightarrow> state \<Rightarrow> string \<Rightarrow> message \<Rightarrow> bool" where
  \<comment> \<open>the event is a read by \<open>n\<close> that is answered with this message of a peer\<close>
  "reads ev s n m \<longleftrightarrow> (\<exists>e req. ev = Request e req \<and> strVal (Args req) ''from'' = n
     \<and> (Op req = ''read'' \<and> strVal (Args req) ''peer'' \<noteq> [] \<and> fst (dispatch e req s) = Done (msgResponse m)
        \<or> Op req = ''read-any'' \<and> (\<exists>p. fst (dispatch e req s) = Done (anyResponse ''peer'' p m))))"

fun justified :: "event \<Rightarrow> state \<Rightarrow> string \<Rightarrow> deed \<Rightarrow> bool" where
  "justified ev s n Idle = ((\<forall>m. \<not> tells ev s m) \<and> (\<forall>n m. \<not> reads ev s n m))"
| "justified ev s n (Sent m) = tells ev s m"
| "justified ev s n (Handed ch m) = (tells ev s m \<and> (\<exists>v. carries v m \<and> bufs (apply_event ev s) ch = bufs s ch @ [v]))"
| "justified ev s n (Taken m) = reads ev s n m"

definition happens :: "event \<Rightarrow> state \<Rightarrow> string \<times> string \<times> deed \<Rightarrow> bool" where
  \<comment> \<open>this is what the event does to the conversations: one deed, in one of them\<close>
  "happens ev s x = (case x of (k, n, d) \<Rightarrow> in_turn d (snd (conversation_of s k n)) \<and> justified ev s n d
     \<and> (\<forall>k' n'. conversation_of (apply_event ev s) k' n' =
          (if k' = k \<and> n' = n then effect d (conversation_of s k n) else conversation_of s k' n')))"

definition event_ok :: "event \<Rightarrow> state \<Rightarrow> bool" where
  "event_ok ev s \<longleftrightarrow> tidy (apply_event ev s) \<and> (\<exists>x. happens ev s x)"

lemma idle_ok:
  assumes "tidy s" "calm s (apply_event ev s)" "\<And>m. \<not> tells ev s m" "\<And>n m. \<not> reads ev s n m"
  shows "event_ok ev s"
proof -
  have "happens ev s ([], [], Idle)" using assms by (simp add: happens_def calm_def)
  then show ?thesis using assms(1,2) unfolding event_ok_def calm_def by blast
qed

lemma deed_ok:
  assumes "tidy (apply_event ev s)" "in_turn d (snd (conversation_of s k n))" "justified ev s n d"
    "\<And>k' n'. conversation_of (apply_event ev s) k' n' =
       (if k' = k \<and> n' = n then effect d (conversation_of s k n) else conversation_of s k' n')"
  shows "event_ok ev s"
proof -
  have "happens ev s (k, n, d)" using assms(2-4) by (simp add: happens_def)
  then show ?thesis using assms(1) unfolding event_ok_def by blast
qed

lemma renewLease_bufs [simp]: "bufs (renewLease e n s) = bufs s"
  by (simp add: renewLease_def persistAgent_def put_agent_def split: option.split)

lemma open_bufs: "getOrCreateChannel a b s = (k, c, t) \<Longrightarrow> bufs t = bufs s"
  by (auto simp: getOrCreateChannel_def Let_def split: option.splits)

lemma not_mail:
  "msgResponse m \<noteq> emptyResponse" "msgResponse m \<noteq> errorResponse i r h x ds" "anyResponse kd g m \<noteq> errorResponse i r h x ds"
  by (simp_all add: msgResponse_def emptyResponse_def anyResponse_def okResponse_def errorResponse_def msg_json_def)

lemma tell_event:
  assumes "tidy s" "Op req = ''tell''" "auth_gate e req s = None"
  shows "event_ok (Request e req) s"
proof -
  let ?ev = "Request e req" and ?f = "strVal (Args req) ''from''" and ?b = "strVal (Args req) ''body''"
  let ?s0 = "renewLease e ?f s" and ?t = "apply_event (Request e req) s"
  have t: "dispatch e req s = (Done (fst (opTell e req ?s0)), snd (opTell e req ?s0))"
    using assms(2,3) by (simp add: dispatch_def run_op_def answer_def)
  have s0: "calm s ?s0" by (rule mail.registry_handlers)
  have nr: "\<not> reads ?ev s n m" for n m using assms(2) by (auto simp: reads_def)
  have quiet: "event_ok ?ev s" if "calm ?s0 (snd (opTell e req ?s0))" "\<not> OK (fst (opTell e req ?s0))"
  proof (rule idle_ok[OF assms(1) _ _ nr])
    show "calm s ?t" using s0 that(1) t by (auto simp: calm_def)
    show "\<not> tells ?ev s m" for m using that(2) t by (auto simp: tells_def)
  qed
  show ?thesis
  proof (cases "OK (fst (opTell e req ?s0))")
    case False
    have "calm ?s0 (snd (tell e k c ?f ?b u))" if "getOrCreateChannel ?f p ?s0 = (k, c, u)" "\<not> OK (fst (tell e k c ?f ?b u))" for p k c u
    proof -
      have "peerOf c ?f = None" using that(2) by (cases "peerOf c ?f") (auto simp: tell_eq okResponse_def Let_def split: option.splits)
      then show ?thesis using mail.opened[OF that(1)] by (simp add: tell_def)
    qed
    then have "calm ?s0 (snd (opTell e req ?s0))"
      using False by (auto simp: opTell_def Let_def split: option.split sum.split prod.split)
    then show ?thesis using quiet False by blast
  next
    case True
    obtain p k c u where u: "getOrCreateChannel ?f p ?s0 = (k, c, u)" "opTell e req ?s0 = tell e k c ?f ?b u"
      using True by (auto simp: opTell_def Let_def peer_not_registered_def split: if_splits option.splits sum.splits prod.splits)
    obtain p' where p: "peerOf c ?f = Some p'" using True u(2) by (auto simp: tell_def not_participant_def split: option.splits)
    have c: "map_of (channels u) k = Some c" "calm ?s0 u" using mail.opened[OF u(1)] by simp_all
    then have su: "tidy u" "conversation_of u = conversation_of s" using s0 assms(1) by (simp_all add: calm_def)
    have "bufs u = bufs s" using open_bufs[OF u(1)] by simp
    let ?m = "told e c ?f ?b" and ?d = "tell_deed u c p' (told e c ?f ?b)"
    note does = tell_does[OF su(1) c(1) p refl refl refl, of e ?b]
    have tt: "snd (dispatch e req s) = snd (tell e k c ?f ?b u)" using t u(2) by simp
    have told: "tells ?ev s ?m"
      using assms(2) t u(2) does(4) by (simp add: tells_def told_def okResponse_def)
    have "justified ?ev s p' ?d"
      using told does(5) tt \<open>bufs u = bufs s\<close> by (simp add: tell_deed_def split: option.split)
    then show ?thesis using does(1-3) su(2) by (intro deed_ok[of _ _ ?d k p']) (simp_all add: tt)
  qed
qed

lemma opRead_ways:
  "(\<exists>p k c u tmo. strVal (Args req) ''peer'' \<noteq> [] \<and> getOrCreateChannel (strVal (Args req) ''from'') p s = (k, c, u)
      \<and> opRead e req s = chanRead k c (strVal (Args req) ''from'') tmo u)
   \<or> (snd (opRead e req s) = s \<and> (\<forall>m. fst (opRead e req s) \<noteq> Done (msgResponse m)))
   \<or> (strVal (Args req) ''peer'' = [] \<and> (\<exists>f n tmo. opRead e req s = roomRead e f n tmo s))"
proof -
  let ?f = "strVal (Args req) ''from''" and ?p = "strVal (Args req) ''peer''" and ?r = "strVal (Args req) ''room''"
  note errs = target_error_def peer_not_registered_def not_found_def missing_from_def missing_target_def ambiguous_target_def
  show ?thesis
  proof (cases "target_error ?f ?p ?r")
    case (Some err)
    then have "err \<noteq> msgResponse m" for m by (auto simp: errs not_mail(2)[symmetric] split: if_splits)
    then show ?thesis using Some by (simp add: opRead_def)
  next
    case None
    show ?thesis
    proof (cases "?p = []")
      case True
      then show ?thesis using None by (auto simp: opRead_def Let_def)
    next
      case False
      show ?thesis
      proof (cases "resolvePeerName e ?p s")
        case (Inl err)
        then show ?thesis using None False by (simp add: opRead_def peer_not_registered_def not_found_def not_mail(2)[symmetric])
      next
        case (Inr q)
        obtain k c u where u: "getOrCreateChannel ?f q s = (k, c, u)" by (metis prod.collapse)
        then have "opRead e req s = chanRead k c ?f (seconds (numVal (Args req) ''timeout'')) u"
          using None False Inr by (simp add: opRead_def Let_def)
        then show ?thesis using u False by blast
      qed
    qed
  qed
qed

lemma read_event:
  assumes "tidy s" "Op req = ''read''" "auth_gate e req s = None"
  shows "event_ok (Request e req) s"
proof -
  let ?ev = "Request e req" and ?f = "strVal (Args req) ''from''"
  let ?s0 = "renewLease e ?f s" and ?t = "apply_event (Request e req) s"
  have t: "dispatch e req s = opRead e req ?s0"
    using assms(2,3) by (simp add: dispatch_def run_op_def)
  have s0: "calm s ?s0" by (rule mail.registry_handlers)
  have nt: "\<not> tells ?ev s m" for m using assms(2) by (auto simp: tells_def)
  have quiet: "event_ok ?ev s" if "calm ?s0 (snd (opRead e req ?s0))"
      "\<And>m. strVal (Args req) ''peer'' \<noteq> [] \<Longrightarrow> fst (opRead e req ?s0) \<noteq> Done (msgResponse m)"
  proof (rule idle_ok[OF assms(1) _ nt])
    show "calm s ?t" using s0 that(1) t by (auto simp: calm_def)
    show "\<not> reads ?ev s n m" for n m using that(2) t assms(2) by (auto simp: reads_def)
  qed
  show ?thesis
  proof (cases "\<exists>p k c u tmo. strVal (Args req) ''peer'' \<noteq> [] \<and> getOrCreateChannel ?f p ?s0 = (k, c, u)
      \<and> opRead e req ?s0 = chanRead k c ?f tmo u")
    case False
    have "calm ?s0 (snd (opRead e req ?s0)) \<and> (\<forall>m. strVal (Args req) ''peer'' \<noteq> [] \<longrightarrow> fst (opRead e req ?s0) \<noteq> Done (msgResponse m))"
      using opRead_ways[of req ?s0 e] False mail.room_reads[of ?s0 e] by auto
    then show ?thesis using quiet by blast
  next
    case True
    then obtain p k c u tmo where u: "strVal (Args req) ''peer'' \<noteq> []" "getOrCreateChannel ?f p ?s0 = (k, c, u)"
      "opRead e req ?s0 = chanRead k c ?f tmo u" by blast
    have c: "map_of (channels u) k = Some c" "calm ?s0 u" using mail.opened[OF u(2)] by simp_all
    then have su: "tidy u" "conversation_of u = conversation_of s" using s0 assms(1) by (simp_all add: calm_def)
    have tt: "?t = snd (chanRead k c ?f tmo u)" using t u(3) by simp
    show ?thesis
    proof (cases "peerOf c ?f \<noteq> None \<and> mbox c ?f \<noteq> []")
      case True
      then obtain q m q' where m: "peerOf c ?f = Some q" "mbox c ?f = m # q'" by (auto simp: neq_Nil_conv)
      have r: "fst (chanRead k c ?f tmo u) = Done (msgResponse m)"
          "channels ?t = AList.update k (c\<lparr>c_mailbox := AList.update ?f q' (c_mailbox c)\<rparr>) (channels u)" "anyWaiter ?t = anyWaiter u"
        using m unfolding tt by (simp_all add: chanRead_def mbox_def)
      note does = taken_does[OF su(1) c(1) r(2,3) m(2)]
      have "justified ?ev s ?f (Taken m)" using r(1) t u(1,3) assms(2) by (auto simp: reads_def)
      then show ?thesis using does su(2) by (intro deed_ok[of _ _ "Taken m" k ?f]) simp_all
    next
      case False
      have idle: "calm u (snd (chanRead k c ?f tmo u))"
      proof (cases "peerOf c ?f = None \<or> tmo \<le> 0")
        case True
        then have "snd (chanRead k c ?f tmo u) = u" using False by (auto simp: chanRead_def mbox_def split: option.split)
        then show ?thesis by simp
      next
        case wait: False
        let ?c = "c\<lparr>c_waiter := AList.update ?f (next_chan u) (c_waiter c)\<rparr>" and ?w = "snd (chanRead k c ?f tmo u)"
        have w: "channels ?w = AList.update k ?c (channels u)" "anyWaiter ?w = anyWaiter u"
          using wait False by (auto simp: chanRead_def mbox_def block_def)
        show ?thesis
        proof (rule calm_put[OF c(1) w(1)])
          show "mbox ?c n = []" if "tidy u" "waits ?w ?c n" for n
            using that tidyD[OF su(1) c(1), of n] wait False w(2)
            by (auto simp: convo_waiter waits_def is_peer_def mbox_def split: if_splits)
        qed (simp_all add: w(2) convo_waiter)
      qed
      have "calm ?s0 (snd (opRead e req ?s0))" using c(2) idle u(3) by (auto simp: calm_def)
      moreover have "fst (opRead e req ?s0) \<noteq> Done (msgResponse m)" for m
        using False
        by (auto simp: u(3) chanRead_def mbox_def not_participant_def block_def not_mail(1,2)[symmetric] split: option.split list.split)
      ultimately show ?thesis using quiet by blast
    qed
  qed
qed

lemma read_any_event:
  assumes "tidy s" "Op req = ''read-any''" "auth_gate e req s = None"
  shows "event_ok (Request e req) s"
proof -
  let ?ev = "Request e req" and ?f = "strVal (Args req) ''from''"
  let ?s0 = "renewLease e ?f s" and ?t = "apply_event (Request e req) s"
  have t: "dispatch e req s = opReadAny req ?s0"
    using assms(2,3) by (simp add: dispatch_def run_op_def)
  have s0: "tidy ?s0" "conversation_of ?s0 = conversation_of s" using mail.registry_handlers(4)[of s e ?f] assms(1) by (simp_all add: calm_def)
  have nt: "\<not> tells ?ev s m" for m using assms(2) by (auto simp: tells_def)
  have quiet: "event_ok ?ev s" if "calm ?s0 (snd (opReadAny req ?s0))"
      "\<And>p m. fst (opReadAny req ?s0) \<noteq> Done (anyResponse ''peer'' p m)"
  proof (rule idle_ok[OF assms(1) _ nt])
    show "calm s ?t" using s0 that(1) t by (auto simp: calm_def)
    show "\<not> reads ?ev s n m" for m n using that(2) t assms(2) by (auto simp: reads_def)
  qed
  have kinds: "anyResponse ''room'' g x \<noteq> anyResponse ''peer'' p m" for g x p m by (simp add: anyResponse_def okResponse_def)
  show ?thesis
  proof (cases "?f = [] \<or> any_channel ?f ?s0 = None \<and> (any_room ?f ?s0 \<noteq> None \<or> map_of (anyWaiter ?s0) ?f \<noteq> None)")
    case True
    then have "channels (snd (opReadAny req ?s0)) = channels ?s0 \<and> anyWaiter (snd (opReadAny req ?s0)) = anyWaiter ?s0"
      by (auto simp: opReadAny_def Let_def split: option.split)
    then have "calm ?s0 (snd (opReadAny req ?s0))" by (intro calm_fewer) simp_all
    moreover have "fst (opReadAny req ?s0) \<noteq> Done (anyResponse ''peer'' p m)" for p m
      using True kinds by (auto simp: opReadAny_def missing_from_def Let_def not_mail(3)[symmetric] split: option.split)
    ultimately show ?thesis using quiet by blast
  next
    case idle: False
    show ?thesis
    proof (cases "any_channel ?f ?s0")
      case (Some kc)
      then obtain k c where kc: "any_channel ?f ?s0 = Some (k, c)" by (metis prod.collapse)
      then have "(k, c) \<in> set (channels ?s0)" "mbox c ?f \<noteq> []" by (auto simp: any_channel_def find_Some_iff) (metis nth_mem)
      then have c: "map_of (channels ?s0) k = Some c" "mbox c ?f = hd (mbox c ?f) # tl (mbox c ?f)"
        using s0(1) by (simp_all add: tidy_def mem_map_of_iff)
      have "?f \<noteq> []" using idle by blast
      then have r: "channels ?t = AList.update k (c\<lparr>c_mailbox := AList.update ?f (tl (mbox c ?f)) (c_mailbox c)\<rparr>) (channels ?s0)"
        "anyWaiter ?t = anyWaiter ?s0" "fst (dispatch e req s) = Done (anyResponse ''peer'' (other c ?f) (hd (mbox c ?f)))"
        using kc by (simp_all add: t opReadAny_def Let_def put_channel_def)
      note does = taken_does[OF s0(1) c(1) r(1,2) c(2)]
      have "justified ?ev s ?f (Taken (hd (mbox c ?f)))" using r(3) assms(2) by (auto simp: reads_def)
      then show ?thesis using does s0(2) by (intro deed_ok[of _ _ "Taken (hd (mbox c ?f))" k ?f]) simp_all
    next
      case None
      let ?u = "snd (opReadAny req ?s0)"
      have "?f \<noteq> []" "any_room ?f ?s0 = None" "map_of (anyWaiter ?s0) ?f = None" using idle None by blast+
      then have u: "channels ?u = channels ?s0" "anyWaiter ?u = AList.update ?f (next_chan ?s0) (anyWaiter ?s0)"
        "fst (opReadAny req ?s0) = Blocks (next_chan ?s0)"
        using None by (simp_all add: opReadAny_def Let_def block_def)
      have "mbox c ?f = []" if "map_of (channels ?s0) k = Some c" for k c
        using None tidyD[OF s0(1) that, of ?f] map_of_SomeD[OF that] by (auto simp: any_channel_None waits_def)
      then have "tidy ?u" using s0(1) by (auto simp: tidy_def u waits_def split: if_splits)
      then have "calm ?s0 ?u" by (simp add: calm_def conversation_of_def u fun_eq_iff)
      then show ?thesis using quiet u(3) by simp
    qed
  qed
qed

section \<open>Whole executions\<close>

lemma stop_calm: "calm s (requestStop s)"
proof -
  have r: "calm s (release_channel k u)" if "calm s u" for k u
  proof (cases "map_of (channels u) k")
    case (Some c)
    have "calm u (release_channel k u)"
      by (rule calm_waiters[OF Some, where w = "[]"]) (use Some in \<open>auto simp: release_channel_def put_channel_def
          case_prod_unfold fold_same[where g = channels] fold_same[where g = anyWaiter]\<close>)
    then show ?thesis using that mail.chained by blast
  qed (simp add: release_channel_def that)
  have "calm u (if writes_closed u then u\<lparr>panicked := True\<rparr> else u\<lparr>writes_closed := True\<rparr>)" for u
    by (cases "writes_closed u") (auto intro: calm_fewer)
  moreover have "requestStop s = (let u = fold release_channel (map fst (channels s)) (s\<lparr>stopped := True\<rparr>)
      in if writes_closed u then u\<lparr>panicked := True\<rparr> else u\<lparr>writes_closed := True\<rparr>)"
    by (simp add: requestStop_def Let_def)
  moreover have "calm s (fold release_channel ks (s\<lparr>stopped := True\<rparr>))" for ks
    by (rule mail.loops) (simp_all add: r)
  ultimately show ?thesis using mail.chained by (metis (no_types, lifting))
qed

lemma commitWrite_waiters: "anyWaiter (commitWrite io w u) = anyWaiter u"
proof -
  have f: "anyWaiter (fail_write w v) = anyWaiter v" for v by simp
  have "anyWaiter (put_file p c v) = anyWaiter v" for p c v by (simp add: put_file_def)
  then show ?thesis
    by (simp add: commitWrite_def git_commit_def Let_def split: ioResult.split option.split)
qed

lemma turn_calm: "calm s (runWriter io s)"
proof -
  have "channels (runWriter io s) = channels s \<and> anyWaiter (runWriter io s) = anyWaiter s"
    by (simp add: runWriter_def commitWrite_waiters split: list.split)
  then show ?thesis by (intro calm_fewer) simp_all
qed

lemma event_does:
  assumes "tidy s"
  shows "event_ok ev s"
proof (cases "\<exists>e req. ev = Request e req")
  case True
  then obtain e req where ev: "ev = Request e req" by blast
  show ?thesis
  proof (cases "auth_gate e req s")
    case (Some r)
    then have "\<not> OK r" by (auto simp: auth_gate_def Let_def unauthorized_code split: option.splits if_splits)
    then have "r \<noteq> msgResponse m \<and> r \<noteq> anyResponse kd p m" for m kd p
      by (auto simp: msgResponse_def anyResponse_def okResponse_def)
    then show ?thesis using Some \<open>\<not> OK r\<close>
      by (intro idle_ok[OF assms]) (auto simp: ev dispatch_def tells_def reads_def calm_def)
  next
    case None
    show ?thesis
    proof (cases "Op req \<in> {''tell'', ''read'', ''read-any''}")
      case True
      then show ?thesis using tell_event read_event read_any_event assms None by (auto simp: ev)
    next
      case False
      have "calm s (snd (dispatch e req s))"
        using mail.chained[OF mail.registry_handlers(4) mail.quiet_ops[OF False]] None by (simp add: dispatch_def)
      then show ?thesis using False by (intro idle_ok[OF assms]) (auto simp: ev tells_def reads_def)
    qed
  qed
next
  case False
  have "calm s (s\<lparr>faults := fs\<rparr>)" for fs by (rule calm_fewer) simp_all
  then have "calm s (apply_event ev s)"
    using False by (cases ev) (simp_all add: mail.across_blocked mail.registry_handlers stop_calm turn_calm)
  then show ?thesis using False by (intro idle_ok[OF assms]) (auto simp: tells_def reads_def)
qed

fun chronicle :: "event list \<Rightarrow> state \<Rightarrow> (string \<times> string \<times> deed) list \<Rightarrow> bool" where
  \<comment> \<open>what each event of the run did\<close>
  "chronicle [] s h = (h = [])"
| "chronicle (ev # es) s [] = False"
| "chronicle (ev # es) s (x # h) = (happens ev s x \<and> chronicle es (apply_event ev s) h)"

definition deeds_in :: "string \<Rightarrow> string \<Rightarrow> (string \<times> string \<times> deed) list \<Rightarrow> deed list" where
  "deeds_in k n h = map (\<lambda>(k, n, d). d) (filter (\<lambda>(k', n', d). k' = k \<and> n' = n) h)"

lemma chronicle_exists: "tidy s \<Longrightarrow> tidy (fold apply_event es s) \<and> (\<exists>h. chronicle es s h)"
proof (induction es arbitrary: s)
  case Nil
  have "chronicle [] s []" by simp
  then show ?case using Nil by auto
next
  case (Cons ev es)
  obtain x where "tidy (apply_event ev s)" "happens ev s x" using event_does[OF Cons.prems] unfolding event_ok_def by blast
  moreover from this obtain h where "chronicle es (apply_event ev s) h" "tidy (fold apply_event es (apply_event ev s))"
    using Cons.IH by blast
  ultimately have "chronicle (ev # es) s (x # h)" "tidy (fold apply_event (ev # es) s)" by simp_all
  then show ?case by blast
qed

lemma chronicle_fifo:
  assumes "chronicle es s h" "conversation_of s k n = (log, pending)" "conversation_of (fold apply_event es s) k n = (log', pending')"
  shows "log' = log @ concat (map was_sent (deeds_in k n h))
    \<and> pending @ concat (map was_sent (deeds_in k n h)) = concat (map was_delivered (deeds_in k n h)) @ pending'"
  using assms
proof (induction es arbitrary: s h log pending)
  case Nil
  then show ?case by (simp add: deeds_in_def)
next
  case (Cons ev es)
  obtain x h' where h: "h = x # h'" using Cons.prems(1) by (cases h) auto
  obtain k0 n0 d where x: "x = (k0, n0, d)" by (metis prod.collapse)
  have hap: "happens ev s (k0, n0, d)" "chronicle es (apply_event ev s) h'" using Cons.prems(1) by (auto simp: h x)
  obtain l q where lq: "conversation_of (apply_event ev s) k n = (l, q)" by (metis prod.collapse)
  have IH: "log' = l @ concat (map was_sent (deeds_in k n h'))
    \<and> q @ concat (map was_sent (deeds_in k n h')) = concat (map was_delivered (deeds_in k n h')) @ pending'"
    using Cons.IH[OF hap(2) lq] Cons.prems(3) by simp
  show ?case
  proof (cases "k0 = k \<and> n0 = n")
    case True
    then have "effect d (log, pending) = (l, q)" "in_turn d pending" using hap(1) lq Cons.prems(2) by (simp_all add: happens_def)
    from effect_fifo[OF this] IH True show ?thesis
      by (simp add: h x deeds_in_def) (metis append.assoc)
  next
    case False
    then have "(l, q) = (log, pending)" using hap(1) lq Cons.prems(2) by (auto simp: happens_def)
    then show ?thesis using IH False by (auto simp: h x deeds_in_def)
  qed
qed

text \<open>A conversation is a first-in-first-out buffer for as long as the daemon runs. Whatever requests
  arrive, readers block and wake or give up, leases run out and writes succeed or fail, in whatever order: each event does at most one
  thing to one conversation. It appends the message of a \<^verbatim>\<open>tell\<close> that it answers OK, to the mailbox of the
  receiver or, with nothing before it there, to the Go channel of a reader that waits; or it removes the oldest pending message, and that
  is the message it answers to the \<^verbatim>\<open>read\<close> or \<^verbatim>\<open>read-any\<close> of the receiver; or it leaves all of
  them alone, and then it is neither a tell answered OK nor a read answered with a message of a peer. So the log grows by what was sent,
  and what was pending followed by what was sent is what was delivered followed by what is pending: nothing is lost,
  doubled or overtaken on the way from the tell to the answer or to the waiting reader.\<close>

theorem conversations_are_fifo:
  assumes "tidy s" "t = fold apply_event es s"
  shows "tidy t \<and> (\<exists>h. chronicle es s h \<and> length h = length es
    \<and> (\<forall>k n log pending log' pending'. conversation_of s k n = (log, pending) \<and> conversation_of t k n = (log', pending') \<longrightarrow>
         log' = log @ concat (map was_sent (deeds_in k n h))
       \<and> pending @ concat (map was_sent (deeds_in k n h)) = concat (map was_delivered (deeds_in k n h)) @ pending'))"
proof -
  obtain h where h: "tidy t" "chronicle es s h" using chronicle_exists[OF assms(1), of es] assms(2) by blast
  have "length h = length es" using h(2) by (induction es s h rule: chronicle.induct) simp_all
  then show ?thesis using h chronicle_fifo[OF h(2)] unfolding assms(2) by blast
qed

section \<open>A reader that gives up\<close>

text \<open>C37: A message can arrive as the timer of the read that waits for it runs out. The
  sender is told OK, and its message went to the channel of the read, which is not looked at again once the
  timer's arm is taken: the read answers that there is nothing, the mailbox stays empty, the next read finds
  nothing, and nobody waits where the message is.\<close>

theorem read_timeout_loses_message:
  assumes "tidy s" "map_of (channels s) k = Some c" "peerOf c a = Some b" "map_of (c_waiter c) b = Some ch"
    "map_of (blocked s) ch = Some (WaitPeer b k)"
    "tell e k c a body s = (r, s1)" "time_out ch s1 = (reply, s2)"
  shows "OK r \<and> reply = Some emptyResponse
    \<and> (\<exists>c2. map_of (channels s2) k = Some c2 \<and> c_log c2 = c_log c @ [told e c a body] \<and> mbox c2 b = []
        \<and> fst (chanRead k c2 b 0 s2) = Done emptyResponse)
    \<and> queue s2 = queue (tell_written e c a b body s) \<and> fst (wake e' ch s2) = None"
proof -
  let ?m = "told e c a body"
  have box: "mbox c b = []" using tidyD[OF assms(1,2)] assms(4) by (simp add: waits_def)
  have s1: "s1 = put_channel k ((logged c ?m)\<lparr>c_waiter := AList.delete b (c_waiter c)\<rparr>)
      (send ch (PayWait \<lparr>w_msg = Some ?m, w_err = [], w_code = 0\<rparr>) (tell_written e c a b body s))"
    and r: "r = okResponse (JObj [(''seq'', JNum (c_seq c + 1)), (''peer'', JStr b)])"
    using assms(6) by (simp_all add: tell_eq[OF assms(3)] assms(4) Let_def)
  let ?c2 = "(logged c ?m)\<lparr>c_waiter := AList.delete b (AList.delete b (c_waiter c))\<rparr>"
  have s2: "reply = Some emptyResponse" "s2 = put_channel k ?c2 (unblock ch s1)"
    using assms(5,7) by (auto simp: time_out_def s1 chanRead_timeout_def put_channel_def tell_written_def Let_def)
  have "peerOf ?c2 b \<noteq> None" using assms(3) peerOf_iff[of c] by (auto simp: logged_def peerOf_def split: if_splits)
  moreover have "mbox ?c2 b = []" using box by (simp add: logged_def mbox_def)
  ultimately have "fst (chanRead k ?c2 b 0 s2) = Done emptyResponse" by (auto simp: chanRead_def mbox_def)
  moreover have "map_of (blocked s2) ch = None" by (simp add: s2(2) unblock_def)
  ultimately show ?thesis
    using r s2 box by (auto simp: s1 logged_def mbox_def wake_def)
qed

end
