(* ===== verification/Examples_Process.thy ===== *)
theory Examples_Process
  imports Examples_Daemon Main_Program Keystores Replies Mail_Order
begin

text \<open>
  The properties of the processes, of the key stores and of the composition of the daemon with its
  write pipeline, applied to the workspace of \<^verbatim>\<open>Examples\<close> and the agent of
  \<^verbatim>\<open>Examples_Daemon\<close>.
\<close>

section \<open>Mail across a crash\<close>

definition hall :: state where
  \<comment> \<open>\<^verbatim>\<open>zoe\<close> is registered and in a room\<close>
  "hall = joined\<lparr>rooms := [(''api'', demo_room\<lparr>r_members := [''sv'', ''zoe'']\<rparr>)]\<rparr>"

definition zoe_posts :: request where
  "zoe_posts = \<lparr>Op = ''post'', Args = [(''from'', JStr ''zoe''), (''room'', JStr ''api''), (''body'', JStr ''hi''),
     (''sig'', JStr (hexEncode (CHR ''s'' # replicate 32 (CHR ''k''))))]\<rparr>"

lemma hall_pipe: "pipe_inv hall" "queue hall = Some (the (queue hall))"
proof -
  have "pipe_inv empty_state" by (simp add: pipe_inv_def empty_state_def empty_db_def queue_ok_def ops_ok_def)
  moreover have "secures empty_state joined" unfolding joined_def by (rule pipeline.registry_handlers(1))
  ultimately have "pipe_inv joined" by (simp add: secures_def)
  then show "pipe_inv hall" by (simp add: hall_def pipe_inv_def)
  have "\<not> Option.is_none (queue hall)" by code_simp
  then show "queue hall = Some (the (queue hall))" by (cases "queue hall") simp_all
qed

lemma hall_alive: "alive hall" by code_simp

lemma hall_posted: "last_queued (snd (dispatch demo_env zoe_posts hall))" by code_simp


section \<open>Conversations\<close>

definition both :: state where
  \<comment> \<open>\<^verbatim>\<open>zoe\<close> and \<^verbatim>\<open>yan\<close> are registered\<close>
  "both = snd (opRegister (demo_env\<lparr>newID := ''01D''\<rparr>) (ask ''register'' [(''name'', ''yan'')]) joined)"

definition signed_by_key :: "string \<Rightarrow> (string \<times> string) list \<Rightarrow> request" where
  "signed_by_key op args = ask op (args @ [(''sig'', hexEncode (CHR ''s'' # replicate 32 (CHR ''k'')))])"

definition talk :: "event list" where
  \<comment> \<open>two messages, one of them read\<close>
  "talk = [Request demo_env (signed_by_key ''tell'' [(''from'', ''zoe''), (''peer'', ''yan''), (''body'', ''one'')]),
     Turn IOok,
     Request demo_env (signed_by_key ''tell'' [(''from'', ''zoe''), (''peer'', ''yan''), (''body'', ''two'')]),
     Request demo_env (signed_by_key ''read'' [(''from'', ''yan''), (''peer'', ''zoe'')])]"

definition note_of_zoe :: "int \<Rightarrow> string \<Rightarrow> message" where
  "note_of_zoe n body = \<lparr>Seq = n, From = ''zoe'', TS = 1000, Body = body\<rparr>"

lemma both_before: "conversation_of both (channelKey ''yan'' ''zoe'') ''yan'' = ([], [])" by code_simp

lemma both_after: "conversation_of (fold apply_event talk both) (channelKey ''yan'' ''zoe'') ''yan''
    = ([note_of_zoe 1 ''one'', note_of_zoe 2 ''two''], [note_of_zoe 2 ''two''])"
  by code_simp

lemma both_idle: "channels both = []" "anyWaiter both = []" by code_simp+

theorem conversations_are_fifo_witness:
  "\<exists>h. chronicle talk both h \<and> length h = 4
    \<and> concat (map was_delivered (deeds_in (channelKey ''yan'' ''zoe'') ''yan'' h)) = [note_of_zoe 1 ''one'']"
proof -
  let ?k = "channelKey ''yan'' ''zoe''"
  have "tidy both" by (simp add: tidy_def keys_ok_def both_idle)
  from conversations_are_fifo[OF this refl, of talk] obtain h where h: "chronicle talk both h" "length h = length talk"
    "\<forall>log pending log' pending'. conversation_of both ?k ''yan'' = (log, pending)
        \<and> conversation_of (fold apply_event talk both) ?k ''yan'' = (log', pending') \<longrightarrow>
         log' = log @ concat (map was_sent (deeds_in ?k ''yan'' h))
       \<and> pending @ concat (map was_sent (deeds_in ?k ''yan'' h)) = concat (map was_delivered (deeds_in ?k ''yan'' h)) @ pending'"
    by blast
  then have "concat (map was_delivered (deeds_in ?k ''yan'' h)) = [note_of_zoe 1 ''one'']"
    unfolding both_before both_after by auto
  then show ?thesis using h(1,2) by (auto simp: talk_def)
qed

theorem read_timeout_loses_message_witness:
  "let k = channelKey ''bob'' ''sv''; c = (newChannel ''bob'' ''sv'')\<lparr>c_waiter := [(''sv'', 3)]\<rparr>;
       s1 = snd (tell demo_env k c ''bob'' ''hi'' waiting)
   in OK (fst (tell demo_env k c ''bob'' ''hi'' waiting)) \<and> fst (time_out 3 s1) = Some emptyResponse
      \<and> (\<exists>c2. map_of (channels (snd (time_out 3 s1))) k = Some c2 \<and> mbox c2 ''sv'' = [])"
proof -
  let ?c = "(newChannel ''bob'' ''sv'')\<lparr>c_waiter := [(''sv'', 3)]\<rparr>"
  have "tidy waiting"
    by (auto simp: tidy_def keys_ok_def waiting_def demo_def empty_state_def waits_def mbox_def newChannel_def get_or_def)
  moreover have "map_of (channels waiting) (channelKey ''bob'' ''sv'') = Some ?c" "peerOf ?c ''bob'' = Some ''sv''"
    "map_of (c_waiter ?c) ''sv'' = Some 3" "map_of (blocked waiting) 3 = Some (WaitPeer ''sv'' (channelKey ''bob'' ''sv''))"
    by (simp_all add: waiting_def newChannel_def peerOf_def)
  ultimately show ?thesis
    using read_timeout_loses_message[OF _ _ _ _ _ surjective_pairing surjective_pairing] unfolding Let_def by blast
qed

section \<open>The process\<close>

definition demo_host :: host where
  "demo_host = \<lparr>ho_mkdir = None, ho_running = False, ho_pid = None, ho_listen = None\<rparr>"

lemma busy_demo_facts: "pipe_inv busy_demo" "smooth busy_demo" "queue busy_demo \<noteq> None"
proof -
  have "secures demo busy_demo" unfolding busy_demo_def by (rule pipeline.enqueues)
  then show "pipe_inv busy_demo" using demo_pipe(1) by (simp add: secures_def)
  show "smooth busy_demo" by code_simp
  have "\<not> Option.is_none (queue busy_demo)" by code_simp
  then show "queue busy_demo \<noteq> None" by (cases "queue busy_demo") simp_all
qed


theorem runDaemon_tidy_witness:
  "fst (snd (runDaemon (\<lambda>_. []) ''/home/ann'' (demo_host\<lparr>ho_running := True\<rparr>) 7 (Inr demo) [] (\<lambda>_. IOok) [(''x'', ''y'')]))
    = [(''x'', ''y'')]"
proof -
  let ?run = "runDaemon (\<lambda>_. []) ''/home/ann'' (demo_host\<lparr>ho_running := True\<rparr>) 7 (Inr demo) [] (\<lambda>_. IOok) [(''x'', ''y'')]"
  obtain res dir t where run: "?run = (res, dir, t)" by (metis prod_cases3)
  then show ?thesis using runDaemon_tidy[OF run refl refl] by (simp add: demo_host_def)
qed

theorem unreachable_daemon_reported_witness:
  "\<exists>p. command demo_client ''stop'' [] = Some p
    \<and> run_with (ask_daemon demo_client zoe_sign [] (dialOrSpawn False (Some ''no such file'') (\<lambda>_. True)) (\<lambda>_. Inl [])) p
        \<noteq> Some (0, [], [])"
proof -
  have "(case command demo_client ''stop'' [] of Some (Call op args k) \<Rightarrow> True | _ \<Rightarrow> False)"
    by (simp add: command_def cmdStop_def)
  then obtain op args k where p: "command demo_client ''stop'' [] = Some (Call op args k)"
    by (auto split: option.splits prog.splits)
  from unreachable_daemon_reported[OF p refl refl, of False "Some ''no such file''" "\<lambda>_. True"] p
  show ?thesis by (auto simp: dialOrSpawn_def)
qed

section \<open>Commands\<close>


theorem agents_lists_everyone_witness:
  "\<exists>out gs outside. drive (cmdAgents 0 (\<lambda>_. []) [''--wide'']) demo_client zoe_sign demo_env demo = (Finished 0 out [], demo)
    \<and> rows_in (by_size gs) outside = mset (map (agent_row demo_env) (map snd (agents demo)))"
proof -
  have "True \<longleftrightarrow> parseBoolFlag [''--wide''] ''--wide''" by code_simp
  from agents_lists_everyone[OF refl this, where e = demo_env and s = demo] show ?thesis by blast
qed


section \<open>Stores\<close>

definition old_schema :: schema where
  \<comment> \<open>rooms could not be archived yet\<close>
  "old_schema = [(''queue'', [''id'', ''rel_path'', ''content'', ''commit_msg'', ''attempts'']),
     (''mailbox_rooms'', [''name'', ''desc'', ''created_by'', ''created_at''])]"

theorem openQueue_migrates_witness:
  "\<exists>sch. openQueue (\<lambda>_. None) old_schema = (None, sch) \<and> openQueue (\<lambda>_. None) sch = (None, sch)"
proof -
  have "earlier_version old_schema"
    by (auto simp: earlier_version_def old_schema_def queue_tables_def split: if_splits)
  from openQueue_migrates[OF this] show ?thesis by blast
qed

theorem key_files_refine_map_witness:
  "key_load (fold file_op [SaveKey ''ann'' (replicate 64 CHR ''k''), SaveKey ''bob'' (replicate 64 CHR ''b''), DeleteKey ''ann'']
     [(''keys/eve.key'', ''x'')]) ''bob'' = Some (replicate 64 CHR ''b'')"
proof -
  let ?ps = "[SaveKey ''ann'' (replicate 64 CHR ''k''), SaveKey ''bob'' (replicate 64 CHR ''b''), DeleteKey ''ann'']"
  have "one_element ''bob''" "\<forall>p \<in> set ?ps. one_element (op_name p) \<and> key_sized p"
    by (simp_all add: one_element_def privateKeySize_def)
  from key_files_refine_map[OF this] show ?thesis by simp
qed

definition demo_security :: "string option tool" where
  \<comment> \<open>a keychain with room for one password\<close>
  "demo_security args w =
     (if hd args = ''add-generic-password'' then (([], None), Some (args ! 6))
      else case w of None \<Rightarrow> (([], Some ''exit status 44''), w) | Some h \<Rightarrow> ((h @ [nl], None), w))"

theorem keychain_roundtrip_witness:
  "keychain_load demo_security ''zoe'' (Some (hexEncode (replicate 64 CHR ''k'')))
    = (Inr (replicate 64 CHR ''k''), Some (hexEncode (replicate 64 CHR ''k'')))"
proof -
  let ?k = "replicate 64 CHR ''k''"
  have "length ?k = privateKeySize" by (simp add: privateKeySize_def)
  moreover have "demo_security [''add-generic-password'', ''-s'', keychainService, ''-a'', n, ''-w'', h, ''-U''] w = ((out, None), w') \<Longrightarrow>
      demo_security [''find-generic-password'', ''-s'', keychainService, ''-a'', n, ''-w''] w' = ((h @ [nl], None), w')" for n h w out w'
    by (auto simp: demo_security_def)
  moreover have "keychain_save demo_security ''zoe'' ?k None = (None, Some (hexEncode ?k))"
    by (simp add: keychain_save_def demo_security_def)
  ultimately show ?thesis using keychain_roundtrip[of ?k demo_security "''zoe''" None] by blast
qed

end
