(* ===== verification/Json_Text.thy ===== *)
theory Json_Text
  imports Signing
begin

text \<open>
  The text of JSON values, as \<^verbatim>\<open>json.Marshal\<close> writes it and \<^verbatim>\<open>json.Unmarshal\<close> reads it into
  \<^verbatim>\<open>any\<close>: what travels over the socket and what is signed. Strings are bytes; those that are not
  UTF-8 are replaced, one byte at a time, by the replacement character. The numbers are the integers
  the program sends; the parser does not read fractions and exponents, which have no value in this model.
\<close>

section \<open>Runes\<close>

definition byte :: "char \<Rightarrow> nat" where "byte c = of_char c"

definition continues :: "string \<Rightarrow> nat \<Rightarrow> bool" where
  "continues t i \<longleftrightarrow> i < length t \<and> 128 \<le> byte (t ! i) \<and> byte (t ! i) < 192"

definition runeLen :: "string \<Rightarrow> nat" where
  \<comment> \<open>\<^verbatim>\<open>utf8.DecodeRuneInString\<close>: the length of the character at the front, 0 when it is not valid\<close>
  "runeLen s = (case s of [] \<Rightarrow> 0 | c # t \<Rightarrow>
     if byte c < 128 then 1
     else if 194 \<le> byte c \<and> byte c < 224 then (if continues t 0 then 2 else 0)
     else if 224 \<le> byte c \<and> byte c < 240 then
       (if continues t 0 \<and> continues t 1 \<and> (byte c = 224 \<longrightarrow> 160 \<le> byte (t ! 0)) \<and> (byte c = 237 \<longrightarrow> byte (t ! 0) < 160)
        then 3 else 0)
     else if 240 \<le> byte c \<and> byte c < 245 then
       (if continues t 0 \<and> continues t 1 \<and> continues t 2 \<and> (byte c = 240 \<longrightarrow> 144 \<le> byte (t ! 0))
          \<and> (byte c = 244 \<longrightarrow> byte (t ! 0) < 144) then 4 else 0)
     else 0)"

fun runes :: "string \<Rightarrow> string list" where
  \<comment> \<open>the characters, and the bytes that are part of none\<close>
  "runes [] = []"
| "runes (c # t) = (let n = runeLen (c # t) - 1 in (c # take n t) # runes (drop n t))"

definition replacement :: string where
  \<comment> \<open>U+FFFD\<close>
  "replacement = [CHR 0xEF, CHR 0xBF, CHR 0xBD]"

definition valid_rune :: "string \<Rightarrow> string" where
  "valid_rune u = (if runeLen u = 0 then replacement else u)"

definition validText :: "string \<Rightarrow> string" where
  \<comment> \<open>what of a string arrives\<close>
  "validText s = concat (map valid_rune (runes s))"

definition utf8_ok :: "string \<Rightarrow> bool" where
  "utf8_ok s \<longleftrightarrow> (\<forall>u \<in> set (runes s). runeLen u \<noteq> 0)"

definition is_rune :: "string \<Rightarrow> bool" where
  "is_rune u \<longleftrightarrow> u \<noteq> [] \<and> (runeLen u = length u \<or> runeLen u = 0 \<and> length u = 1)"

lemma byte_less [simp]: "byte c < 256"
  by (simp add: byte_def)

lemma continues_append [simp]: "i < length t \<Longrightarrow> continues (t @ x) i = continues t i"
  by (simp add: continues_def nth_append)

lemma continues_take: "i < n \<Longrightarrow> continues (take n t) i = continues t i"
  by (simp add: continues_def)

lemma continues_length: "continues t i \<Longrightarrow> i < length t"
  by (simp add: continues_def)

lemma runeLen_range: "runeLen s \<le> 4"
  by (simp add: runeLen_def split: list.split)

lemma runeLen_first [simp]:
  "runeLen (c # take (runeLen (c # t) - Suc 0) t) = runeLen (c # t)"
proof -
  consider "runeLen (c # t) = 0" | "runeLen (c # t) = 1" | "runeLen (c # t) = 2" | "runeLen (c # t) = 3" | "runeLen (c # t) = 4"
    using runeLen_range[of "c # t"] by linarith
  then show ?thesis
    by cases (auto simp: runeLen_def continues_take split: if_splits; simp add: continues_def)+
qed

lemma runeLen_length: "runeLen s \<le> length s"
  by (cases s) (auto simp: runeLen_def Suc_le_eq dest!: continues_length)

lemma is_rune_first: "is_rune (c # take (runeLen (c # t) - Suc 0) t)"
  unfolding is_rune_def runeLen_first using runeLen_length[of "c # t"] by auto

lemma is_rune_runes: "u \<in> set (runes s) \<Longrightarrow> is_rune u"
  by (induction s rule: runes.induct) (auto simp: Let_def is_rune_first)

lemma concat_runes [simp]: "concat (runes s) = s"
  by (induction s rule: runes.induct) (simp_all add: Let_def)

lemma runeLen_append:
  assumes "runeLen u = length u" "u \<noteq> []"
  shows "runeLen (u @ x) = length u"
  using assms by (cases u) (auto simp: runeLen_def nth_append split: if_splits dest: continues_length)

lemma validText_ok: "utf8_ok s \<Longrightarrow> validText s = s"
proof -
  assume "utf8_ok s"
  then have "map valid_rune (runes s) = runes s" by (intro map_idI) (auto simp: utf8_ok_def valid_rune_def)
  then show ?thesis by (simp add: validText_def)
qed

lemma validText_Nil [simp]: "validText [] = []"
  by (simp add: validText_def)

lemma ascii_ok: "list_all (\<lambda>c. byte c < 128) s \<Longrightarrow> utf8_ok s"
proof (induction s rule: runes.induct)
  case (2 c t)
  then have "runeLen (c # t) = 1" "runeLen [c] = 1" by (simp_all add: runeLen_def)
  then show ?case using 2 by (simp add: utf8_ok_def Let_def)
qed (simp add: utf8_ok_def)

section \<open>Strings\<close>

definition backslash :: char where "backslash = CHR 0x5C"

definition hex4 :: "nat \<Rightarrow> string" where
  "hex4 n = [hexDigit (n div 4096 mod 16), hexDigit (n div 256 mod 16), hexDigit (n div 16 mod 16), hexDigit (n mod 16)]"

definition short_escapes :: "(nat \<times> char) list" where
  "short_escapes = [(8, CHR ''b''), (12, CHR ''f''), (10, CHR ''n''), (13, CHR ''r''), (9, CHR ''t'')]"

definition quote_byte :: "char \<Rightarrow> string" where
  \<comment> \<open>with the escapes of HTML that \<^verbatim>\<open>json.Marshal\<close> adds\<close>
  "quote_byte c =
     (if c = dquote \<or> c = backslash then [backslash, c]
      else case map_of short_escapes (byte c) of
        Some e \<Rightarrow> [backslash, e]
      | None \<Rightarrow> if byte c < 32 \<or> c = CHR ''<'' \<or> c = CHR ''>'' \<or> c = CHR ''&'' then backslash # CHR ''u'' # hex4 (byte c)
          else [c])"

definition quote_rune :: "string \<Rightarrow> string" where
  "quote_rune u =
     (if runeLen u = 0 then backslash # CHR ''u'' # hex4 0xFFFD
      else if length u = 1 then quote_byte (hd u)
      else if u = [CHR 0xE2, CHR 0x80, CHR 0xA8] then backslash # CHR ''u'' # hex4 0x2028
      else if u = [CHR 0xE2, CHR 0x80, CHR 0xA9] then backslash # CHR ''u'' # hex4 0x2029
      else u)"

definition quoteJson :: "string \<Rightarrow> string" where
  "quoteJson s = dquote # concat (map quote_rune (runes s)) @ [dquote]"

definition unhex4 :: "string \<Rightarrow> nat option" where
  \<comment> \<open>\<^verbatim>\<open>getu4\<close>\<close>
  "unhex4 t = (case t of
       a # b # c # d # r \<Rightarrow>
         (case (fromHexChar a, fromHexChar b, fromHexChar c, fromHexChar d) of
            (Some i, Some j, Some k, Some l) \<Rightarrow> Some (((i * 16 + j) * 16 + k) * 16 + l)
          | _ \<Rightarrow> None)
     | _ \<Rightarrow> None)"

definition utf8 :: "nat \<Rightarrow> string" where
  \<comment> \<open>\<^verbatim>\<open>utf8.AppendRune\<close> of a code point that is no surrogate\<close>
  "utf8 n =
     (if n < 128 then [char_of n]
      else if n < 2048 then [char_of (192 + n div 64), char_of (128 + n mod 64)]
      else if n < 65536 then [char_of (224 + n div 4096), char_of (128 + n div 64 mod 64), char_of (128 + n mod 64)]
      else [char_of (240 + n div 262144), char_of (128 + n div 4096 mod 64), char_of (128 + n div 64 mod 64), char_of (128 + n mod 64)])"

definition unicode_escape :: "string \<Rightarrow> (string \<times> string) option" where
  \<comment> \<open>after \<^verbatim>\<open>\u\<close>: surrogates pair up, a lone one is replaced\<close>
  "unicode_escape t = (case unhex4 t of
       None \<Rightarrow> None
     | Some n \<Rightarrow>
         let r = drop 4 t
         in if n < 0xD800 \<or> 0xE000 \<le> n then Some (utf8 n, r)
            else case (if n < 0xDC00 \<and> take 2 r = [backslash, CHR ''u''] then unhex4 (drop 2 r) else None) of
              Some m \<Rightarrow> if 0xDC00 \<le> m \<and> m < 0xE000
                then Some (utf8 (0x10000 + (n - 0xD800) * 1024 + (m - 0xDC00)), drop 6 r)
                else Some (replacement, r)
            | None \<Rightarrow> Some (replacement, r))"

definition escape :: "string \<Rightarrow> (string \<times> string) option" where
  \<comment> \<open>after a backslash\<close>
  "escape s = (case s of [] \<Rightarrow> None | c # t \<Rightarrow>
     if c = dquote \<or> c = backslash \<or> c = CHR ''/'' then Some ([c], t)
     else if c = CHR ''u'' then unicode_escape t
     else case map_of (map prod.swap short_escapes) c of Some n \<Rightarrow> Some ([char_of n], t) | None \<Rightarrow> None)"

lemma short_escapes_back:
  "map_of short_escapes n = Some e \<Longrightarrow> map_of (map prod.swap short_escapes) e = Some n
    \<and> e \<notin> {dquote, backslash, CHR ''/'', CHR ''u''} \<and> n \<notin> {34, 92}"
  by (auto simp: short_escapes_def backslash_def split: if_splits)

lemma escape_shorter: "escape s = Some (u, r) \<Longrightarrow> length r < length s"
  by (auto simp: escape_def unicode_escape_def Let_def split: list.splits if_splits option.splits)

function unquote :: "string \<Rightarrow> (string \<times> string) option" where
  \<comment> \<open>after the opening quote: the string, and what follows the closing one\<close>
  "unquote [] = None"
| "unquote (c # t) =
     (if c = dquote then Some ([], t)
      else if c = backslash then
        (case escape t of None \<Rightarrow> None
         | Some (u, r) \<Rightarrow> map_option (apfst ((@) u)) (unquote r))
      else if byte c < 32 then None
      else let n = runeLen (c # t) - 1
        in map_option (apfst ((@) (valid_rune (c # take n t)))) (unquote (drop n t)))"
  by pat_completeness auto
termination by (relation "measure length") (auto dest: escape_shorter)

declare unquote.simps(2) [simp del]

lemma unquote_close [simp]: "unquote (dquote # x) = Some ([], x)"
  by (simp add: unquote.simps(2))

lemma unquote_escape:
  "escape t = Some (u, r) \<Longrightarrow> unquote (backslash # t) = map_option (apfst ((@) u)) (unquote r)"
  by (simp add: unquote.simps(2) backslash_def)

lemma char_of_byte: "char_of (byte c) = c"
  by (simp add: byte_def)

lemma unhex4_hex4: "n < 65536 \<Longrightarrow> unhex4 (hex4 n @ x) = Some n"
proof -
  assume n: "n < 65536"
  have "((n div 4096 * 16 + n div 256 mod 16) * 16 + n div 16 mod 16) * 16 + n mod 16 = n"
  proof -
    have d: "n div 16 div 16 = n div 256" "n div 256 div 16 = n div 4096" by (simp_all flip: div_mult2_eq)
    have "n div 4096 * 16 + n div 256 mod 16 = n div 256" using div_mult_mod_eq[of "n div 256" 16] d by simp
    moreover have "n div 256 * 16 + n div 16 mod 16 = n div 16" using div_mult_mod_eq[of "n div 16" 16] d by simp
    ultimately show ?thesis by (simp only: div_mult_mod_eq)
  qed
  then show ?thesis using n by (simp add: unhex4_def hex4_def)
qed

lemma escape_unicode:
  "n < 0xD800 \<or> 0xE000 \<le> n \<Longrightarrow> n < 65536 \<Longrightarrow> escape (CHR ''u'' # hex4 n @ x) = Some (utf8 n, x)"
  by (simp add: escape_def unicode_escape_def unhex4_hex4 backslash_def) (simp add: hex4_def)

text \<open>Every character is read back as it was written, whatever follows.\<close>

lemma unquote_ascii:
  assumes "byte c < 128"
  shows "unquote (quote_byte c @ x) = map_option (apfst ((@) [c])) (unquote x)"
proof -
  have esc: "escape (e # x) = Some ([c], x) \<Longrightarrow> ?thesis" if "quote_byte c = [backslash, e]" for e
    using unquote_escape[of "e # x" "[c]" x] that by (simp)
  have u: "utf8 (byte c) = [c]" using assms by (simp add: utf8_def char_of_byte)
  consider "c = dquote \<or> c = backslash" | e where "c \<noteq> dquote" "c \<noteq> backslash" "map_of short_escapes (byte c) = Some e"
    | "c \<noteq> dquote" "c \<noteq> backslash" "map_of short_escapes (byte c) = None" "byte c < 32 \<or> c = CHR ''<'' \<or> c = CHR ''>'' \<or> c = CHR ''&''"
    | "c \<noteq> dquote" "c \<noteq> backslash" "map_of short_escapes (byte c) = None" "\<not> (byte c < 32 \<or> c = CHR ''<'' \<or> c = CHR ''>'' \<or> c = CHR ''&'')"
    by blast
  then show ?thesis
  proof cases
    case 1
    then show ?thesis using esc[of c] by (auto simp: quote_byte_def escape_def)
  next
    case 2
    then show ?thesis using esc[of e] short_escapes_back[OF 2(3)] by (simp add: quote_byte_def escape_def char_of_byte)
  next
    case 3
    then have "quote_byte c = backslash # CHR ''u'' # hex4 (byte c)" by (auto simp: quote_byte_def)
    then show ?thesis using escape_unicode[of "byte c" x] assms u unquote_escape by (simp)
  next
    case 4
    then have "runeLen (c # x) = 1" "runeLen [c] = 1" using assms by (simp_all add: runeLen_def)
    moreover have "quote_byte c = [c]" using 4 by (auto simp: quote_byte_def)
    ultimately show ?thesis using 4 by (simp add: unquote.simps(2) Let_def valid_rune_def)
  qed
qed

lemma unquote_long:
  assumes "runeLen u = length u" "2 \<le> length u"
  shows "unquote (u @ x) = map_option (apfst ((@) u)) (unquote x)"
proof -
  obtain c t where u: "u = c # t" using assms(2) by (cases u) auto
  then have c: "128 \<le> byte c" using assms by (auto simp: runeLen_def split: if_splits)
  then have "c \<noteq> dquote" "c \<noteq> backslash" by (auto simp: byte_def backslash_def)
  moreover have "runeLen (c # t @ x) = Suc (length t)" using runeLen_append[of u x] assms(1) u by simp
  ultimately show ?thesis using c assms(1) by (simp add: u unquote.simps(2) Let_def valid_rune_def)
qed

lemma unquote_rune:
  assumes "is_rune u"
  shows "unquote (quote_rune u @ x) = map_option (apfst ((@) (valid_rune u))) (unquote x)"
proof -
  have fffd: "utf8 0xFFFD = replacement" "utf8 0x2028 = [CHR 0xE2, CHR 0x80, CHR 0xA8]"
    "utf8 0x2029 = [CHR 0xE2, CHR 0x80, CHR 0xA9]" by (simp_all add: utf8_def replacement_def char_of_def bit_0)
  have esc: "unquote (backslash # CHR ''u'' # hex4 n @ x) = map_option (apfst ((@) (utf8 n))) (unquote x)"
    if "n < 0xD800 \<or> 0xE000 \<le> n" "n < 65536" for n
    using unquote_escape[OF escape_unicode[OF that]] .
  consider "runeLen u = 0" | c where "u = [c]" "byte c < 128" | "2 \<le> length u" "runeLen u = length u"
  proof -
    have u: "u \<noteq> []" "runeLen u = 0 \<or> runeLen u = length u" using assms by (auto simp: is_rune_def)
    show thesis
    proof (cases "runeLen u = 0 \<or> 2 \<le> length u")
      case True
      then show thesis using that(1,3) u(2) by (cases "runeLen u = 0") auto
    next
      case False
      then obtain c where "u = [c]" "runeLen [c] = 1" using u by (cases u) (auto simp: Suc_le_eq)
      then show thesis using that(2) by (auto simp: runeLen_def split: if_splits)
    qed
  qed
  then show ?thesis
  proof cases
    case 1
    then show ?thesis using esc[of 65533] fffd by (simp add: quote_rune_def valid_rune_def)
  next
    case 2
    then have "runeLen [c] = 1" by (simp add: runeLen_def)
    then show ?thesis using 2 unquote_ascii[of c x] by (simp add: quote_rune_def valid_rune_def)
  next
    case 3
    then have v: "valid_rune u = u" by (auto simp: valid_rune_def)
    show ?thesis using 3 esc[of 8232] esc[of 8233] unquote_long[OF 3(2,1), of x] fffd
      by (auto simp: quote_rune_def v)
  qed
qed

text \<open>So a string is read back as it was, but for the bytes that are not UTF-8.\<close>

lemma unquote_quote: "unquote (concat (map quote_rune (runes s)) @ dquote # x) = Some (validText s, x)"
proof -
  have "unquote (concat (map quote_rune us) @ dquote # x) = Some (concat (map valid_rune us), x)"
    if "\<forall>u \<in> set us. is_rune u" for us
    using that by (induction us) (simp_all add: unquote_rune)
  then show ?thesis by (simp add: validText_def is_rune_runes)
qed

section \<open>Values\<close>

fun lay_json :: "(nat \<Rightarrow> string) \<Rightarrow> string \<Rightarrow> nat \<Rightarrow> json \<Rightarrow> string" where
  \<comment> \<open>a value at a depth of nesting, with what stands before the parts of it and after a colon; the members of
    an object in the order of its list, as those of a struct are written\<close>
  "lay_json g c d JNull = ''null''"
| "lay_json g c d (JBool b) = (if b then ''true'' else ''false'')"
| "lay_json g c d (JNum i) = itoa i"
| "lay_json g c d (JStr s) = quoteJson s"
| "lay_json g c d (JArr xs) = (if xs = [] then ''[]''
     else ''['' @ g (Suc d) @ joinWith ('','' @ g (Suc d)) (map (lay_json g c (Suc d)) xs) @ g d @ '']'')"
| "lay_json g c d (JObj ms) = (if ms = [] then ''{}''
     else ''{'' @ g (Suc d)
       @ joinWith ('','' @ g (Suc d)) (map (\<lambda>(k, v). quoteJson k @ '':'' @ c @ lay_json g c (Suc d) v) ms) @ g d @ ''}'')"

definition write_json :: "json \<Rightarrow> string" where
  \<comment> \<open>\<^verbatim>\<open>json.Marshal\<close> of a struct\<close>
  "write_json = lay_json (\<lambda>_. []) [] 0"

definition indent_json :: "json \<Rightarrow> string" where
  \<comment> \<open>\<^verbatim>\<open>json.MarshalIndent\<close> with two blanks for a level\<close>
  "indent_json = lay_json (\<lambda>d. nl # replicate (2 * d) (CHR '' '')) '' '' 0"

definition marshal :: "json \<Rightarrow> string" where
  \<comment> \<open>\<^verbatim>\<open>json.Marshal\<close> of maps: in the order of the names\<close>
  "marshal j = write_json (norm_json j)"

definition skip :: "string \<Rightarrow> string" where
  \<comment> \<open>white space\<close>
  "skip s = dropWhile (\<lambda>c. byte c \<in> {9, 10, 13, 32}) s"

definition number :: "string \<Rightarrow> (json \<times> string) option" where
  \<comment> \<open>an integer; a number that goes on is none\<close>
  "number s =
     (let neg = hasPrefix s ''-''; t = (if neg then tl s else s); ds = takeWhile isDigit t; r = dropWhile isDigit t
      in if ds = [] \<or> (hd ds = CHR ''0'' \<and> 1 < length ds) \<or> (r \<noteq> [] \<and> hd r \<in> {CHR ''.'', CHR ''e'', CHR ''E''}) then None
         else Some (JNum (if neg then - int (digitsVal ds) else int (digitsVal ds)), r))"

definition literal :: "string \<Rightarrow> json \<Rightarrow> string \<Rightarrow> (json \<times> string) option" where
  "literal w v s = (if hasPrefix s w then Some (v, drop (length w) s) else None)"

fun pvalue :: "nat \<Rightarrow> string \<Rightarrow> (json \<times> string) option"
  and pelems :: "nat \<Rightarrow> string \<Rightarrow> (json list \<times> string) option"
  and pmembers :: "nat \<Rightarrow> string \<Rightarrow> ((string, json) gomap \<times> string) option" where
  \<comment> \<open>a value, the elements of an array up to its bracket, the members of an object up to its brace\<close>
  "pvalue 0 s = None"
| "pvalue (Suc n) s = (case skip s of [] \<Rightarrow> None | c # t \<Rightarrow>
     if c = dquote then map_option (apfst JStr) (unquote t)
     else if c = CHR ''['' then
       (if hasPrefix (skip t) '']'' then Some (JArr [], tl (skip t)) else map_option (apfst JArr) (pelems n t))
     else if c = CHR ''{'' then
       (if hasPrefix (skip t) ''}'' then Some (JObj [], tl (skip t)) else map_option (apfst JObj) (pmembers n t))
     else if c = CHR ''n'' then literal ''null'' JNull (c # t)
     else if c = CHR ''t'' then literal ''true'' (JBool True) (c # t)
     else if c = CHR ''f'' then literal ''false'' (JBool False) (c # t)
     else number (c # t))"
| "pelems 0 s = None"
| "pelems (Suc n) s = (case pvalue n s of None \<Rightarrow> None | Some (v, r) \<Rightarrow>
     (case skip r of [] \<Rightarrow> None | c # t \<Rightarrow>
        if c = CHR '']'' then Some ([v], t)
        else if c = CHR '','' then map_option (apfst (\<lambda>vs. v # vs)) (pelems n t)
        else None))"
| "pmembers 0 s = None"
| "pmembers (Suc n) s = (case skip s of [] \<Rightarrow> None | q # t \<Rightarrow>
     if q \<noteq> dquote then None else (case unquote t of None \<Rightarrow> None | Some (k, r) \<Rightarrow>
       (case skip r of [] \<Rightarrow> None | c # w \<Rightarrow>
          if c \<noteq> CHR '':'' then None else (case pvalue n w of None \<Rightarrow> None | Some (v, y) \<Rightarrow>
            (case skip y of [] \<Rightarrow> None | d # z \<Rightarrow>
               if d = CHR ''}'' then Some ([(k, v)], z)
               else if d = CHR '','' then map_option (apfst (\<lambda>ms. (k, v) # ms)) (pmembers n z)
               else None)))))"

definition parse_json :: "string \<Rightarrow> json option" where
  \<comment> \<open>the whole text is one value; a level of nesting or a further element takes at least one byte\<close>
  "parse_json s = (case pvalue (Suc (length s)) s of
       Some (v, r) \<Rightarrow> if skip r = [] then Some v else None
     | None \<Rightarrow> None)"

definition last_wins :: "(string, json) gomap \<Rightarrow> (string, json) gomap \<Rightarrow> (string, json) gomap" where
  \<comment> \<open>the members of an object put into a map, one after the other\<close>
  "last_wins ms m = fold (\<lambda>(k, v). AList.update k v) ms m"

fun any_of :: "json \<Rightarrow> json" where
  \<comment> \<open>a parsed value in a variable of type \<^verbatim>\<open>any\<close>\<close>
  "any_of (JArr xs) = JArr (map any_of xs)"
| "any_of (JObj ms) = JObj (last_wins (map (\<lambda>(k, v). (k, any_of v)) ms) [])"
| "any_of v = v"

definition unmarshal :: "string \<Rightarrow> json option" where
  "unmarshal s = map_option any_of (parse_json s)"

section \<open>What is written is read\<close>

fun names_ok :: "json \<Rightarrow> bool" where
  \<comment> \<open>a Go value whose names are valid text: no name is twice in an object\<close>
  "names_ok (JArr xs) = list_all names_ok xs"
| "names_ok (JObj ms) = (keys_ok ms \<and> list_all (\<lambda>(k, v). utf8_ok k \<and> names_ok v) ms)"
| "names_ok _ = True"

fun names_text :: "json \<Rightarrow> bool" where
  \<comment> \<open>as for the members of a struct, which need not be told apart\<close>
  "names_text (JArr xs) = list_all names_text xs"
| "names_text (JObj ms) = list_all (\<lambda>(k, v). utf8_ok k \<and> names_text v) ms"
| "names_text _ = True"

fun strings_ok :: "json \<Rightarrow> bool" where
  "strings_ok (JStr s) = utf8_ok s"
| "strings_ok (JArr xs) = list_all strings_ok xs"
| "strings_ok (JObj ms) = list_all (\<lambda>(k, v). strings_ok v) ms"
| "strings_ok _ = True"

fun arrives :: "json \<Rightarrow> json" where
  \<comment> \<open>what of a value is left on the other side\<close>
  "arrives (JStr s) = JStr (validText s)"
| "arrives (JArr xs) = JArr (map arrives xs)"
| "arrives (JObj ms) = JObj (map (\<lambda>(k, v). (k, arrives v)) ms)"
| "arrives v = v"

lemma insort_map: "insort_key f (g x) (map g xs) = map g (insort_key (\<lambda>a. f (g a)) x xs)"
  by (induction xs) simp_all

lemma sort_key_map: "sort_key f (map g xs) = map g (sort_key (\<lambda>a. f (g a)) xs)"
  by (induction xs) (simp_all add: insort_map)

lemma sort_pairs: "sort_key fst (map (\<lambda>(k, v). (k, h v)) ms) = map (\<lambda>(k, v). (k, h v)) (sort_key fst ms)"
  by (simp add: sort_key_map case_prod_unfold)

lemma lay_compact: "lay_json (\<lambda>_. []) [] d j = write_json j"
proof -
  have "lay_json (\<lambda>_. []) [] d j = lay_json (\<lambda>_. []) [] e j" for e
  proof (induction j arbitrary: d e)
    case (JArr xs)
    then have "map (lay_json (\<lambda>_. []) [] (Suc d)) xs = map (lay_json (\<lambda>_. []) [] (Suc e)) xs" by (auto intro: map_cong)
    then show ?case by (simp only: lay_json.simps append_Nil append_Nil2)
  next
    case (JObj ms)
    then have "map (\<lambda>(k, v). quoteJson k @ '':'' @ lay_json (\<lambda>_. []) [] (Suc d) v) ms
        = map (\<lambda>(k, v). quoteJson k @ '':'' @ lay_json (\<lambda>_. []) [] (Suc e) v) ms" by (auto intro!: map_cong)
    then show ?case by (simp only: lay_json.simps append_Nil append_Nil2)
  qed simp_all
  then show ?thesis by (simp add: write_json_def)
qed

definition member :: "string \<times> json \<Rightarrow> string" where
  "member m = quoteJson (fst m) @ '':'' @ write_json (snd m)"

lemma write_simps [simp]:
  "write_json JNull = ''null''" "write_json (JBool b) = (if b then ''true'' else ''false'')" "write_json (JNum i) = itoa i"
  "write_json (JStr s) = quoteJson s" "write_json (JArr xs) = ''['' @ joinWith '','' (map write_json xs) @ '']''"
  "write_json (JObj ms) = ''{'' @ joinWith '','' (map member ms) @ ''}''"
proof -
  have "(\<lambda>(k, v). quoteJson k @ '':'' @ write_json v) = member" by (auto simp: member_def)
  then show "write_json (JObj ms) = ''{'' @ joinWith '','' (map member ms) @ ''}''"
    unfolding write_json_def[THEN fun_cong, of "JObj ms"] by (auto simp: lay_compact)
  have "lay_json (\<lambda>_. []) [] (Suc 0) = write_json" by (rule HOL.ext) (rule lay_compact)
  then show "write_json (JArr xs) = ''['' @ joinWith '','' (map write_json xs) @ '']''"
    unfolding write_json_def[THEN fun_cong, of "JArr xs"] by simp
qed (simp_all add: write_json_def)

lemma norm_obj: "norm_json (JObj ms) = JObj (map (\<lambda>(k, v). (k, norm_json v)) (sort_key fst ms))"
  by (simp only: norm_json.simps sort_pairs)

lemma skip_id: "byte c \<notin> {9, 10, 13, 32} \<Longrightarrow> skip (c # t) = c # t"
  by (simp add: skip_def)

lemma skip_marks [simp]: "skip (CHR '','' # t) = CHR '','' # t" "skip (CHR '']'' # t) = CHR '']'' # t"
  "skip (CHR ''}'' # t) = CHR ''}'' # t" "skip (CHR '':'' # t) = CHR '':'' # t" "skip (dquote # t) = dquote # t"
  "skip (CHR ''['' # t) = CHR ''['' # t" "skip (CHR ''{'' # t) = CHR ''{'' # t"
  by (simp_all add: skip_def byte_def)

definition stops :: "string \<Rightarrow> bool" where
  \<comment> \<open>a number ends before it\<close>
  "stops x \<longleftrightarrow> x = [] \<or> \<not> isDigit (hd x) \<and> hd x \<notin> {CHR ''.'', CHR ''e'', CHR ''E''}"

lemma stops_marks [simp]: "stops []" "stops (CHR '','' # t)" "stops (CHR '']'' # t)" "stops (CHR ''}'' # t)" "stops (nl # t)"
  by (simp_all add: stops_def isDigit_def)

lemma itoaN_zero: "hd (itoaN n) = CHR ''0'' \<Longrightarrow> n = 0"
proof (induction n rule: itoaN.induct)
  case (1 n)
  show ?case
  proof (cases "n < 10")
    case True
    then have "hd (itoaN n) = digit n" by (simp add: itoaN.simps)
    then have "48 + n = of_char (CHR ''0'')" using 1(2) of_char_digit[OF True] by simp
    then show ?thesis by simp
  next
    case False
    then have "hd (itoaN n) = hd (itoaN (n div 10))" by (subst itoaN.simps) simp
    then show ?thesis using 1 False by simp
  qed
qed

lemma number_nat:
  assumes "stops x" "t = itoaN n"
  shows "takeWhile isDigit (t @ x) = t" "dropWhile isDigit (t @ x) = x" "\<not> (hd t = CHR ''0'' \<and> 1 < length t)" "t \<noteq> []"
proof -
  have d: "\<forall>c \<in> set t. isDigit c" using itoaN_digits[of n] assms(2) by (simp add: list_all_iff)
  then show "takeWhile isDigit (t @ x) = t" "dropWhile isDigit (t @ x) = x"
    using assms(1) by (cases x; simp add: stops_def takeWhile_append2 dropWhile_append2)+
  show "\<not> (hd t = CHR ''0'' \<and> 1 < length t)"
  proof
    assume h: "hd t = CHR ''0'' \<and> 1 < length t"
    then have "n = 0" using itoaN_zero assms(2) by blast
    then show False using h assms(2) by (simp add: itoaN.simps)
  qed
qed (simp add: assms(2))

lemma number_itoa: "stops x \<Longrightarrow> number (itoa i @ x) = Some (JNum i, x)"
proof -
  assume x: "stops x"
  have e: "x = [] \<or> hd x \<notin> {CHR ''.'', CHR ''e'', CHR ''E''}" using x by (auto simp: stops_def)
  show ?thesis
  proof (cases "i < 0")
    case True
    then show ?thesis using number_nat[OF x refl, of "nat (- i)"] e by (auto simp: number_def itoa_def Let_def)
  next
    case False
    have "\<not> hasPrefix (itoaN (nat i) @ x) ''-''"
      using itoaN_nonempty[of "nat i"] itoaN_no_char[of "CHR ''-''" "nat i"] by (cases "itoaN (nat i)") (auto simp: isDigit_def)
    then show ?thesis using number_nat[OF x refl, of "nat i"] e False by (auto simp: number_def itoa_def Let_def)
  qed
qed

lemma itoa_first: "\<exists>c t. itoa i = c # t \<and> (isDigit c \<or> c = CHR ''-'')"
proof -
  have "\<exists>c t. itoaN n = c # t \<and> isDigit c" for n using itoaN_digits[of n] by (cases "itoaN n") auto
  from this[of "nat i"] show ?thesis by (auto simp: itoa_def)
qed

definition white :: "string \<Rightarrow> bool" where
  "white w \<longleftrightarrow> (\<forall>c \<in> set w. byte c \<in> {9, 10, 13, 32})"

lemma skip_white: "white w \<Longrightarrow> skip (w @ s) = skip s"
  unfolding skip_def white_def by (rule dropWhile_append2) auto

lemma stops_white: "white w \<Longrightarrow> stops s \<Longrightarrow> stops (w @ s)"
  by (cases w) (auto simp: stops_def white_def isDigit_def byte_def)

lemma pvalue_white: "white w \<Longrightarrow> pvalue n (w @ s) = pvalue n s"
  by (cases n) (simp_all add: skip_white)

lemma lay_first: "\<exists>a t. lay_json g c d j = a # t \<and> byte a \<notin> {9, 10, 13, 32} \<and> a \<noteq> CHR '']''"
proof (cases j)
  case (JNum i)
  have "byte a \<notin> {9, 10, 13, 32} \<and> a \<noteq> CHR '']''" if "isDigit a \<or> a = CHR ''-''" for a
    using that by (auto simp: isDigit_def byte_def)
  then show ?thesis using itoa_first[of i] JNum by auto
qed (auto simp: quoteJson_def byte_def)

lemma skip_lay: "skip (lay_json g c d j @ x) = lay_json g c d j @ x"
  using lay_first[of g c d j] by (auto simp: skip_id)

lemma not_closed: "hasPrefix (lay_json g c d j @ x) '']'' = False"
  using lay_first[of g c d j] by auto

text \<open>A round trip is stated with what follows, so that the parts of arrays and objects compose.\<close>

definition reads :: "string \<Rightarrow> json \<Rightarrow> bool" where
  "reads t v \<longleftrightarrow> (\<forall>n x. stops x \<longrightarrow> length t < n \<longrightarrow> pvalue n (t @ x) = Some (v, x))"

lemma readsD: "reads t v \<Longrightarrow> stops x \<Longrightarrow> length t < n \<Longrightarrow> pvalue n (t @ x) = Some (v, x)"
  by (simp add: reads_def)

lemma parse_elems:
  assumes "xs \<noteq> []" "\<forall>y \<in> set xs. reads (f y) (h y)" "white w" "white w'" "length (joinWith ('','' @ w) (map f xs)) + 1 < n"
  shows "pelems n (w @ joinWith ('','' @ w) (map f xs) @ w' @ CHR '']'' # x) = Some (map h xs, x)"
  using assms(1,2,5)
proof (induction xs arbitrary: n rule: list_nonempty_induct)
  case (single y)
  then obtain m where "n = Suc m" by (cases n) auto
  then show ?case using single readsD[of "f y" "h y" "w' @ CHR '']'' # x" m]
    by (simp add: pvalue_white[OF assms(3)] skip_white[OF assms(4)] stops_white[OF assms(4)])
next
  case (cons y ys)
  then obtain m where n: "n = Suc m" by (cases n) auto
  let ?J = "joinWith ('','' @ w) (map f ys)"
  have j: "joinWith ('','' @ w) (map f (y # ys)) = f y @ CHR '','' # w @ ?J" using cons(1) by (cases ys) simp_all
  have "pvalue m (f y @ CHR '','' # w @ ?J @ w' @ CHR '']'' # x) = Some (h y, CHR '','' # w @ ?J @ w' @ CHR '']'' # x)"
    using cons(3,4) unfolding j n by (intro readsD) simp_all
  moreover have "pelems m (w @ ?J @ w' @ CHR '']'' # x) = Some (map h ys, x)"
    using cons(2)[of m] cons(3,4) unfolding j n by simp
  ultimately show ?case unfolding j n by (simp add: pvalue_white[OF assms(3)])
qed

lemma parse_members:
  assumes "ms \<noteq> []" "\<forall>(k, v) \<in> set ms. utf8_ok k \<and> reads (f v) (h v)" "white w" "white w'" "white c"
    "length (joinWith ('','' @ w) (map (\<lambda>(k, v). quoteJson k @ '':'' @ c @ f v) ms)) + 1 < n"
  shows "pmembers n (w @ joinWith ('','' @ w) (map (\<lambda>(k, v). quoteJson k @ '':'' @ c @ f v) ms) @ w' @ CHR ''}'' # x)
    = Some (map (\<lambda>(k, v). (k, h v)) ms, x)"
  using assms(1,2,6)
proof (induction ms arbitrary: n rule: list_nonempty_induct)
  case (single p)
  then obtain m k v where p: "n = Suc m" "p = (k, v)" by (cases n; cases p) auto
  then show ?case using single readsD[of "f v" "h v" "w' @ CHR ''}'' # x" m]
    by (simp add: quoteJson_def unquote_quote validText_ok skip_white[OF assms(3)] skip_white[OF assms(4)]
        stops_white[OF assms(4)] pvalue_white[OF assms(5)])
next
  case (cons p ps)
  then obtain m k v where n: "n = Suc m" "p = (k, v)" by (cases n; cases p) auto
  let ?M = "\<lambda>(k, v). quoteJson k @ '':'' @ c @ f v"
  let ?J = "joinWith ('','' @ w) (map ?M ps)" and ?ps = "map (\<lambda>(k, v). (k, h v)) ps"
  have j: "joinWith ('','' @ w) (map ?M (p # ps)) = ?M p @ CHR '','' # w @ ?J" using cons(1) by (cases ps) simp_all
  have kv: "utf8_ok k" "reads (f v) (h v)" using cons(3) by (simp_all add: n)
  have "pvalue m (f v @ CHR '','' # w @ ?J @ w' @ CHR ''}'' # x) = Some (h v, CHR '','' # w @ ?J @ w' @ CHR ''}'' # x)"
    using cons(4) kv(2) unfolding j unfolding n by (intro readsD) (simp_all add: quoteJson_def)
  moreover have "pmembers m (w @ ?J @ w' @ CHR ''}'' # x) = Some (?ps, x)"
    using cons(2)[of m] cons(3,4) unfolding j unfolding n by simp
  ultimately show ?case using kv(1) unfolding j unfolding n
    by (simp add: quoteJson_def unquote_quote validText_ok skip_white[OF assms(3)] pvalue_white[OF assms(5)])
qed

lemma reads_lay:
  assumes "\<And>d. white (g d)" "white c"
  shows "names_text j \<Longrightarrow> reads (lay_json g c d j) (arrives j)"
proof (induction j arbitrary: d)
  case (JNum i)
  show ?case unfolding reads_def
  proof (intro allI impI)
    fix n x assume x: "stops x" and n: "length (lay_json g c d (JNum i)) < n"
    then obtain m where m: "n = Suc m" by (cases n) auto
    obtain a t where a: "itoa i = a # t" "isDigit a \<or> a = CHR ''-''" using itoa_first[of i] by blast
    then have "a \<notin> {dquote, CHR ''['', CHR ''{'', CHR ''n'', CHR ''t'', CHR ''f''}" by (auto simp: isDigit_def)
    moreover have "skip (itoa i @ x) = itoa i @ x" using skip_lay[of g c d "JNum i" x] by simp
    ultimately show "pvalue n (lay_json g c d (JNum i) @ x) = Some (arrives (JNum i), x)"
      using number_itoa[OF x, of i] a(1) by (simp add: m)
  qed
next
  case (JArr xs)
  then have all: "\<forall>y \<in> set xs. reads (lay_json g c (Suc d) y) (arrives y)" by (auto simp: list_all_iff)
  show ?case unfolding reads_def
  proof (intro allI impI)
    fix n x assume n: "length (lay_json g c d (JArr xs)) < n"
    then obtain m where m: "n = Suc m" by (cases n) auto
    show "pvalue n (lay_json g c d (JArr xs) @ x) = Some (arrives (JArr xs), x)"
    proof (cases xs)
      case Nil
      then show ?thesis by (simp add: m)
    next
      case (Cons y ys)
      have "\<exists>r. joinWith ('','' @ g (Suc d)) (map (lay_json g c (Suc d)) xs) @ g d @ CHR '']'' # x = lay_json g c (Suc d) y @ r"
        using Cons by (cases ys) auto
      then show ?thesis using parse_elems[OF _ all assms(1) assms(1), of "Suc d" m d x] n Cons
        by (auto simp: m not_closed skip_white[OF assms(1)] skip_lay)
    qed
  qed
next
  case (JObj ms)
  then have all: "\<forall>(k, v) \<in> set ms. utf8_ok k \<and> reads (lay_json g c (Suc d) v) (arrives v)" by (auto simp: list_all_iff)
  show ?case unfolding reads_def
  proof (intro allI impI)
    fix n x assume n: "length (lay_json g c d (JObj ms)) < n"
    then obtain m where m: "n = Suc m" by (cases n) auto
    show "pvalue n (lay_json g c d (JObj ms) @ x) = Some (arrives (JObj ms), x)"
    proof (cases ms)
      case Nil
      then show ?thesis by (simp add: m)
    next
      case (Cons p ps)
      have "\<exists>r. joinWith ('','' @ g (Suc d)) (map (\<lambda>(k, v). quoteJson k @ '':'' @ c @ lay_json g c (Suc d) v) ms) @ g d @ CHR ''}'' # x
          = dquote # r"
        unfolding Cons by (cases ps; cases p) (auto simp: quoteJson_def)
      then show ?thesis using parse_members[OF _ all assms(1) assms(1) assms(2), of "Suc d" m d x] n Cons
        by (auto simp: m skip_white[OF assms(1)])
    qed
  qed
qed (auto simp: reads_def gr0_conv_Suc quoteJson_def unquote_quote skip_def byte_def literal_def dest!: less_imp_Suc_add)

lemma parse_reads:
  assumes "reads t v"
  shows "parse_json (t @ [nl]) = Some v" "parse_json t = Some v"
  using readsD[OF assms, of "[nl]" "Suc (Suc (length t))"] readsD[OF assms, of "[]" "Suc (length t)"]
  by (simp_all add: parse_json_def skip_def byte_def)

lemma names_text: "names_ok j \<Longrightarrow> names_text j"
  by (induction j) (auto simp: list_all_iff)

theorem parse_write:
  assumes "names_text j"
  shows "parse_json (write_json j @ [nl]) = Some (arrives j)" "parse_json (write_json j) = Some (arrives j)"
  using parse_reads[OF reads_lay[OF _ _ assms]] by (simp_all add: write_json_def white_def)

theorem parse_indent:
  assumes "names_text j"
  shows "parse_json (indent_json j @ [nl]) = Some (arrives j)"
  unfolding indent_json_def by (rule parse_reads(1), rule reads_lay[OF _ _ assms]) (auto simp: white_def byte_def)

section \<open>Values in Go's maps\<close>

lemma update_new: "k \<notin> fst ` set m \<Longrightarrow> AList.update k v m = m @ [(k, v)]"
  by (induction m) auto

lemma last_wins_new: "keys_ok (m @ ms) \<Longrightarrow> last_wins ms m = m @ ms"
proof (induction ms arbitrary: m)
  case (Cons p ms)
  then show ?case by (cases p) (auto simp: last_wins_def keys_ok_def update_new)
qed (simp add: last_wins_def)

lemma arrives_keys [simp]: "keys_ok (map (\<lambda>(k, v). (k, f v)) ms) = keys_ok ms"
  by (simp add: keys_ok_def case_prod_beta comp_def)

lemma any_of_arrives: "names_ok j \<Longrightarrow> any_of (arrives j) = arrives j"
proof (induction j)
  case (JObj ms)
  have "map (\<lambda>(k, v). (k, any_of v)) (map (\<lambda>(k, v). (k, arrives v)) ms) = map (\<lambda>(k, v). (k, arrives v)) ms"
    using JObj by (auto simp: list_all_iff)
  then show ?case using JObj.prems by (simp add: last_wins_new del: map_map)
qed (auto simp: list_all_iff)

lemma any_of_members: "names_ok (JObj ms) \<Longrightarrow> map (\<lambda>(k, v). (k, any_of (arrives v))) ms = map (\<lambda>(k, v). (k, arrives v)) ms"
  by (auto simp: list_all_iff any_of_arrives)

theorem unmarshal_write:
  assumes "names_ok j"
  shows "unmarshal (write_json j) = Some (arrives j)"
  using parse_write(2)[OF names_text[OF assms]] by (simp add: unmarshal_def any_of_arrives[OF assms])

lemma insort_first: "\<forall>x \<in> set xs. f a \<le> f x \<Longrightarrow> insort_key f a xs = a # xs"
  by (cases xs) auto

lemma sort_sorted: "sorted (map f xs) \<Longrightarrow> sort_key f xs = xs"
  by (induction xs) (simp_all add: insort_first)

lemma sort_twice [simp]: "sort_key f (sort_key f xs) = sort_key f xs"
  by (rule sort_sorted) simp

lemma norm_twice [simp]: "norm_json (norm_json j) = norm_json j"
proof (induction j)
  case (JObj ms)
  have "map (\<lambda>(k, v). (k, norm_json v)) (map (\<lambda>(k, v). (k, norm_json v)) xs) = map (\<lambda>(k, v). (k, norm_json v)) xs"
    if "set xs = set ms" for xs
    using JObj that by auto
  then show ?case by (simp only: norm_obj sort_pairs sort_twice set_sort)
qed auto

lemma norm_arrives: "norm_json (arrives j) = arrives (norm_json j)"
proof (induction j)
  case (JObj ms)
  have "map (\<lambda>(k, v). (k, norm_json v)) (map (\<lambda>(k, v). (k, arrives v)) xs) = map (\<lambda>(k, v). (k, arrives v)) (map (\<lambda>(k, v). (k, norm_json v)) xs)"
    if "set xs = set ms" for xs
    using JObj that by auto
  then show ?case by (simp only: norm_obj arrives.simps sort_pairs set_sort)
qed auto

lemma names_norm: "names_ok j \<Longrightarrow> names_ok (norm_json j)"
  by (induction j) (auto simp: norm_obj list_all_iff keys_ok_sorted simp del: norm_json.simps(2))

lemma strings_norm [simp]: "strings_ok (norm_json j) = strings_ok j"
  by (induction j) (auto simp: norm_obj list_all_iff simp del: norm_json.simps(2))

section \<open>What a change of bytes does to the text\<close>

text \<open>The replacement takes six bytes where it is written for a byte that is not UTF-8, and three
  where it is written for itself: the text of what arrived is shorter than the text that was sent.\<close>

lemma runes_rune: "runeLen u = length u \<Longrightarrow> u \<noteq> [] \<Longrightarrow> runes (u @ x) = u # runes x"
  using runeLen_append[of u x] by (cases u) (simp_all add: Let_def)

lemma runeLen_replacement [simp]: "runeLen replacement = 3"
  by (simp add: runeLen_def replacement_def continues_def byte_def)

lemma runes_concat: "\<forall>u \<in> set us. runeLen u = length u \<and> u \<noteq> [] \<Longrightarrow> runes (concat us) = us"
  by (induction us) (simp_all add: runes_rune)

lemma runes_validText: "runes (validText s) = map valid_rune (runes s)"
  unfolding validText_def
proof (rule runes_concat, intro ballI)
  fix u assume "u \<in> set (map valid_rune (runes s))"
  then obtain v where v: "v \<in> set (runes s)" "u = valid_rune v" by auto
  have "length replacement = 3" "replacement \<noteq> []" by (simp_all add: replacement_def)
  then show "runeLen u = length u \<and> u \<noteq> []"
    using is_rune_runes[OF v(1)] by (auto simp: v(2) valid_rune_def is_rune_def)
qed

lemma utf8_validText [simp]: "utf8_ok (validText s)"
  by (auto simp: utf8_ok_def runes_validText valid_rune_def)

lemma quote_replacement: "quote_rune replacement = replacement"
  by (simp add: quote_rune_def) (simp add: replacement_def)

lemma quoteJson_shrinks:
  "length (quoteJson (validText s)) \<le> length (quoteJson s)"
  "length (quoteJson (validText s)) = length (quoteJson s) \<longleftrightarrow> utf8_ok s"
proof -
  let ?f = "\<lambda>us. length (concat (map quote_rune us))"
  have one: "length (quote_rune (valid_rune u)) \<le> length (quote_rune u)"
    "length (quote_rune (valid_rune u)) = length (quote_rune u) \<longleftrightarrow> runeLen u \<noteq> 0" for u
    by (auto simp: valid_rune_def quote_replacement quote_rune_def[of u] hex4_def) (simp_all add: replacement_def)
  have le: "?f (map valid_rune us) \<le> ?f us" for us
    by (induction us) (simp_all add: add_le_mono one(1))
  have "?f (map valid_rune us) = ?f us \<longleftrightarrow> (\<forall>u \<in> set us. runeLen u \<noteq> 0)" for us
  proof (induction us)
    case (Cons u us)
    then show ?case using one[of u] le[of us] by auto
  qed simp
  then show "length (quoteJson (validText s)) = length (quoteJson s) \<longleftrightarrow> utf8_ok s"
    by (simp add: quoteJson_def runes_validText utf8_ok_def)
  show "length (quoteJson (validText s)) \<le> length (quoteJson s)"
    using le[of "runes s"] by (simp add: quoteJson_def runes_validText)
qed

lemma joined_length:
  "length (joinWith '','' (map f xs)) = sum_list (map (\<lambda>x. length (f x)) xs) + (length xs - 1)"
  by (induction xs rule: induct_list012) simp_all

lemma sum_shrinks:
  fixes f g :: "'a \<Rightarrow> nat"
  assumes "\<And>x. x \<in> set xs \<Longrightarrow> f x \<le> g x \<and> (f x = g x \<longleftrightarrow> P x)"
  shows "sum_list (map f xs) \<le> sum_list (map g xs)
    \<and> (sum_list (map f xs) = sum_list (map g xs) \<longleftrightarrow> list_all P xs)"
  using assms
proof (induction xs)
  case (Cons x xs)
  then have "f x \<le> g x \<and> (f x = g x \<longleftrightarrow> P x)" "sum_list (map f xs) \<le> sum_list (map g xs)
    \<and> (sum_list (map f xs) = sum_list (map g xs) \<longleftrightarrow> list_all P xs)" by simp_all
  then show ?case by auto
qed simp

lemma write_shrinks:
  "length (write_json (arrives j)) \<le> length (write_json j)
    \<and> (length (write_json (arrives j)) = length (write_json j) \<longleftrightarrow> strings_ok j)"
proof (induction j)
  case (JArr xs)
  then show ?case using sum_shrinks[of xs "\<lambda>x. length (write_json (arrives x))" "\<lambda>x. length (write_json x)" strings_ok]
    by (simp add: joined_length comp_def)
next
  case (JObj ms)
  have "length (member (k, arrives v)) \<le> length (member (k, v))
      \<and> (length (member (k, arrives v)) = length (member (k, v)) \<longleftrightarrow> strings_ok v)" if "(k, v) \<in> set ms" for k v
    using JObj that by (auto simp: member_def)
  then show ?case
    using sum_shrinks[of ms "\<lambda>m. length (member (case m of (k, v) \<Rightarrow> (k, arrives v)))" "\<lambda>m. length (member m)" "\<lambda>(k, v). strings_ok v"]
    by (auto simp: joined_length comp_def)
qed (simp_all add: quoteJson_shrinks)

lemma arrives_unchanged: "strings_ok j \<Longrightarrow> arrives j = j"
proof (induction j)
  case (JObj ms)
  then have "map (\<lambda>(k, v). (k, arrives v)) ms = map id ms" by (intro map_cong) (auto simp: list_all_iff)
  then show ?case by simp
qed (auto simp: list_all_iff validText_ok intro: map_idI)

theorem marshal_changes_iff: "marshal (arrives j) = marshal j \<longleftrightarrow> strings_ok j"
proof
  assume "marshal (arrives j) = marshal j"
  then show "strings_ok j" using write_shrinks[of "norm_json j"] by (simp add: marshal_def norm_arrives)
qed (simp add: arrives_unchanged)

text \<open>A text has no line break, so a line holds one.\<close>

lemma long_bytes:
  assumes "runeLen (c # t) = Suc (length t)" "t \<noteq> []"
  shows "128 \<le> byte c" "\<forall>x \<in> set t. 128 \<le> byte x"
proof -
  show "128 \<le> byte c" using assms by (auto simp: runeLen_def split: if_splits)
  have "128 \<le> byte (t ! i)" if "i < length t" for i
  proof -
    consider "length t = 1" "continues t 0" | "length t = 2" "continues t 0" "continues t 1"
      | "length t = 3" "continues t 0" "continues t 1" "continues t 2"
      using assms by (auto simp: runeLen_def split: if_splits)
    then show ?thesis
    proof cases
      case 1
      then show ?thesis using that by (simp add: continues_def)
    next
      case 2
      then have "i = 0 \<or> i = 1" using that by linarith
      then show ?thesis using 2 by (auto simp: continues_def)
    next
      case 3
      then have "i = 0 \<or> i = 1 \<or> i = 2" using that by linarith
      then show ?thesis using 3 by (auto simp: continues_def)
    qed
  qed
  then show "\<forall>x \<in> set t. 128 \<le> byte x" by (simp add: all_set_conv_all_nth)
qed

lemma no_break:
  "nl \<notin> set (write_json j)"
proof -
  have hex: "nl \<notin> set (hex4 n)" for n
  proof -
    have "nl \<noteq> hexDigit d" if "d < 16" for d
      using of_char_hexDigit[OF that] by (auto split: if_splits dest: arg_cong[of _ _ "of_char :: char \<Rightarrow> nat"])
    then show ?thesis by (simp add: hex4_def)
  qed
  have byte: "nl \<notin> set (quote_byte c)" for c
    using hex by (auto simp: quote_byte_def short_escapes_def backslash_def byte_def split: option.split if_splits)
  have rune: "nl \<notin> set (quote_rune u)" if "is_rune u" for u
  proof -
    have "nl \<notin> set u" if "runeLen u = length u" "length u \<noteq> 1"
    proof (cases u)
      case (Cons c t)
      then show ?thesis using that long_bytes[of c t] by (auto simp: byte_def)
    qed simp
    then show ?thesis using that hex byte by (auto simp: quote_rune_def is_rune_def backslash_def)
  qed
  have quote: "nl \<notin> set (quoteJson s)" for s
    using rune is_rune_runes[of _ s] by (auto simp: quoteJson_def)
  have join: "nl \<notin> set (joinWith '','' xs)" if "\<forall>x \<in> set xs. nl \<notin> set x" for xs
    using that by (induction "'',''" xs rule: joinWith.induct) auto
  show ?thesis
  proof (induction j)
    case (JNum i)
    show ?case using itoa_no_nl by simp
  next
    case (JArr xs)
    then show ?case using join[of "map write_json xs"] by simp
  next
    case (JObj ms)
    then have "nl \<notin> set (member m)" if "m \<in> set ms" for m using that quote by (cases m) (auto simp: member_def)
    then show ?case using join[of "map member ms"] by (simp)
  qed (use quote in simp_all)
qed

end
