(* ===== verification/Json_Fuel.thy ===== *)
theory Json_Fuel
  imports Json_Text
begin

text \<open>The fuel of a text is its length: what some fuel reads, as much fuel as the bytes it takes reads.\<close>

lemma skip_length: "length (skip s) \<le> length s"
  by (simp add: skip_def length_dropWhile_le)

lemma skip_Cons: "skip s = c # t \<Longrightarrow> length t < length s"
  using skip_length[of s] by simp

lemma unquote_length: "unquote s = Some (u, r) \<Longrightarrow> length r < length s"
proof (induction "length s" arbitrary: s u rule: less_induct)
  case less
  then obtain c t where s: "s = c # t" by (cases s) auto
  let ?n = "runeLen (c # t) - 1"
  consider "c = dquote" "r = t" | w y x where "escape t = Some (w, y)" "unquote y = Some (x, r)"
    | x where "unquote (drop ?n t) = Some (x, r)"
    using less.prems by (cases "escape t") (auto simp: s unquote.simps(2) Let_def split: if_splits)
  then show ?case
  proof cases
    case 1
    then show ?thesis by (simp add: s)
  next
    case (2 w y x)
    then show ?thesis using less.hyps[of y x] escape_shorter[OF 2(1)] by (simp add: s)
  next
    case (3 x)
    then show ?thesis using less.hyps[of "drop ?n t" x] by (fastforce simp: s)
  qed
qed

lemma number_length: "number s = Some (v, r) \<Longrightarrow> length r < length s"
proof -
  assume "number s = Some (v, r)"
  then obtain t where t: "t = s \<or> t = tl s" "takeWhile isDigit t \<noteq> []" "r = dropWhile isDigit t"
    by (auto simp: number_def Let_def split: if_splits)
  have "length (takeWhile isDigit t) + length r = length t"
    unfolding t(3) by (metis length_append takeWhile_dropWhile_id)
  moreover have "0 < length (takeWhile isDigit t)" using t(2) by blast
  ultimately have "length r < length t" by linarith
  moreover have "length t \<le> length s" using t(1) by auto
  ultimately show ?thesis by simp
qed

lemma literal_length: "literal w x s = Some (v, r) \<Longrightarrow> w \<noteq> [] \<Longrightarrow> length r < length s"
  by (cases s; cases w) (auto simp: literal_def split: if_splits)

lemma closing_length: "hasPrefix (skip t) [c] \<Longrightarrow> length (tl (skip t)) < length t"
  using skip_length[of t] by (cases "skip t") auto

definition enough :: "(nat \<Rightarrow> string \<Rightarrow> ('a \<times> string) option) \<Rightarrow> nat \<Rightarrow> string \<Rightarrow> bool" where
  "enough p n s \<longleftrightarrow> (\<forall>v r. p n s = Some (v, r) \<longrightarrow>
     length r < length s \<and> (\<forall>m. length s \<le> m + length r \<longrightarrow> p m s = Some (v, r)))"

lemma enoughD:
  assumes "enough p n s" "p n s = Some (v, r)"
  shows "length r < length s" "length s \<le> m + length r \<Longrightarrow> p m s = Some (v, r)"
  using assms by (auto simp: enough_def)

lemma any_fuel:
  assumes "length r < length s" "\<And>m. p (Suc m) s = x"
  shows "length r < length s \<and> (\<forall>m. length s \<le> m + length r \<longrightarrow> p m s = x)"
proof (intro conjI allI impI)
  fix m assume "length s \<le> m + length r"
  then obtain k where "m = Suc k" using assms(1) by (cases m) auto
  then show "p m s = x" using assms(2) by simp
qed (rule assms(1))

lemma enough_pvalue:
  assumes "\<And>s. enough pelems n s" "\<And>s. enough pmembers n s"
  shows "enough pvalue (Suc n) s"
  unfolding enough_def
proof (intro allI impI)
  fix v r assume h: "pvalue (Suc n) s = Some (v, r)"
  then obtain c t where c: "skip s = c # t" by (auto split: list.splits)
  have len: "length t < length s" by (rule skip_Cons[OF c])
  consider (str) "c = dquote" | (arr) "c = CHR ''[''" "\<not> hasPrefix (skip t) '']''"
    | (obj) "c = CHR ''{''" "\<not> hasPrefix (skip t) ''}''"
    | (flat) "c = CHR ''['' \<longrightarrow> hasPrefix (skip t) '']''" "c = CHR ''{'' \<longrightarrow> hasPrefix (skip t) ''}''" "c \<noteq> dquote" by blast
  then show "length r < length s \<and> (\<forall>m. length s \<le> m + length r \<longrightarrow> pvalue m s = Some (v, r))"
  proof cases
    case str
    then have "length r < length t" using h unquote_length[of t] by (auto simp: c)
    then show ?thesis using h len str by (intro any_fuel) (auto simp: c)
  next
    case arr
    then obtain vs where vs: "pelems n t = Some (vs, r)" "v = JArr vs" using h by (auto simp: c)
    note e = enoughD[OF assms(1) vs(1)]
    have "pvalue m s = Some (v, r)" if m: "length s \<le> m + length r" for m
    proof -
      obtain k where "m = Suc k" using m e(1) len by (cases m) auto
      then show ?thesis using e(2)[of k] m len arr vs(2) by (simp add: c)
    qed
    then show ?thesis using e(1) len by simp
  next
    case obj
    then obtain vs where vs: "pmembers n t = Some (vs, r)" "v = JObj vs" using h by (auto simp: c)
    note e = enoughD[OF assms(2) vs(1)]
    have "pvalue m s = Some (v, r)" if m: "length s \<le> m + length r" for m
    proof -
      obtain k where "m = Suc k" using m e(1) len by (cases m) auto
      then show ?thesis using e(2)[of k] m len obj vs(2) by (simp add: c)
    qed
    then show ?thesis using e(1) len by simp
  next
    case flat
    then have "length r < length (c # t)"
      using h closing_length[of t "CHR '']''"] closing_length[of t "CHR ''}''"]
      by (auto simp: c split: if_splits dest: number_length literal_length)
    then have "length r < length s" using skip_length[of s] c by simp
    moreover have "pvalue (Suc m) s = Some (v, r)" for m using h flat by (auto simp: c split: if_splits)
    ultimately show ?thesis by (rule any_fuel)
  qed
qed

lemma enough_pelems:
  assumes "\<And>s. enough pvalue n s" "\<And>s. enough pelems n s"
  shows "enough pelems (Suc n) s"
  unfolding enough_def
proof (intro allI impI)
  fix vs r assume h: "pelems (Suc n) s = Some (vs, r)"
  then obtain v y where v: "pvalue n s = Some (v, y)" by (auto split: option.splits)
  then obtain c t where c: "skip y = c # t" using h by (auto split: list.splits)
  note e = enoughD[OF assms(1) v]
  have len: "length t < length y" by (rule skip_Cons[OF c])
  have close: "c = CHR '']'' \<and> r = t \<and> vs = [v] \<or> c = CHR '','' \<and> (\<exists>ws. pelems n t = Some (ws, r) \<and> vs = v # ws)"
    using h by (auto simp: v c split: if_splits)
  have short: "length r \<le> length t" using close enoughD(1)[OF assms(2)] by (auto simp: less_imp_le)
  have "pelems m s = Some (vs, r)" if m: "length s \<le> m + length r" for m
  proof -
    obtain k where k: "m = Suc k" using m e(1) len short by (cases m) auto
    have "pvalue k s = Some (v, y)" using e(2)[of k] m len short k by simp
    moreover have "pelems k t = Some (ws, r)" if "pelems n t = Some (ws, r)" for ws
      using enoughD(2)[OF assms(2) that, of k] m len e(1) k by simp
    ultimately show ?thesis using close by (auto simp: k c)
  qed
  then show "length r < length s \<and> (\<forall>m. length s \<le> m + length r \<longrightarrow> pelems m s = Some (vs, r))"
    using e(1) len short by simp
qed

lemma enough_pmembers:
  assumes "\<And>s. enough pvalue n s" "\<And>s. enough pmembers n s"
  shows "enough pmembers (Suc n) s"
  unfolding enough_def
proof (intro allI impI)
  fix ms r assume h: "pmembers (Suc n) s = Some (ms, r)"
  then obtain t where t: "skip s = dquote # t" by (auto split: list.splits if_splits)
  then obtain k x where k: "unquote t = Some (k, x)" using h by (auto split: option.splits)
  then obtain w where w: "skip x = CHR '':'' # w" using h t by (auto split: list.splits if_splits)
  then obtain v y where v: "pvalue n w = Some (v, y)" using h t k by (auto split: option.splits)
  then obtain c z where c: "skip y = c # z" using h t k w by (auto split: list.splits)
  note e = enoughD[OF assms(1) v]
  have len: "length t < length s" "length x < length t" "length w < length x" "length z < length y"
    using skip_Cons[OF t] unquote_length[OF k] skip_Cons[OF w] skip_Cons[OF c] by simp_all
  have close: "c = CHR ''}'' \<and> r = z \<and> ms = [(k, v)] \<or> c = CHR '','' \<and> (\<exists>ws. pmembers n z = Some (ws, r) \<and> ms = (k, v) # ws)"
    using h by (auto simp: t k w v c split: if_splits)
  have short: "length r \<le> length z" using close enoughD(1)[OF assms(2)] by (auto simp: less_imp_le)
  have "pmembers m s = Some (ms, r)" if m: "length s \<le> m + length r" for m
  proof -
    obtain l where l: "m = Suc l" using m e(1) len short by (cases m) auto
    have "pvalue l w = Some (v, y)" using e(2)[of l] m len short l by simp
    moreover have "pmembers l z = Some (ws, r)" if "pmembers n z = Some (ws, r)" for ws
      using enoughD(2)[OF assms(2) that, of l] m len e(1) l by simp
    ultimately show ?thesis using close by (auto simp: l t k w c)
  qed
  then show "length r < length s \<and> (\<forall>m. length s \<le> m + length r \<longrightarrow> pmembers m s = Some (ms, r))"
    using e(1) len short by simp
qed

lemma fuel_enough: "enough pvalue n s \<and> enough pelems n s \<and> enough pmembers n s"
proof (induction n arbitrary: s)
  case (Suc n)
  then show ?case by (intro conjI enough_pvalue enough_pelems enough_pmembers) simp_all
qed (simp add: enough_def)

theorem parse_json_complete:
  assumes "pvalue n s = Some (v, r)" "skip r = []"
  shows "parse_json s = Some v"
  using enoughD(2)[OF conjunct1[OF fuel_enough] assms(1), of "Suc (length s)"] assms(2) by (simp add: parse_json_def)

end
