(* ===== verification/Json_Struct.thy ===== *)
theory Json_Struct
  imports Json_Fuel
begin

text \<open>
  How \<^verbatim>\<open>json.Unmarshal\<close> fills a struct: each member of the object goes to the field whose name is the same
  but for case, null leaves a field alone, a value of another type is an error. A struct is the list of its names
  with what a value does to the field; the locale \<open>struct\<close> is what the names must satisfy, and is interpreted for
  every struct the program reads.
\<close>

section \<open>Structs from JSON\<close>

definition fold_rune :: "string \<Rightarrow> string" where
  \<comment> \<open>letters in either case, among them the long s and the Kelvin sign\<close>
  "fold_rune u =
     (if u = [CHR 0xC5, CHR 0xBF] then ''S''
      else if u = [CHR 0xE2, CHR 0x84, CHR 0xAA] then ''K''
      else map (\<lambda>c. if 97 \<le> byte c \<and> byte c \<le> 122 then char_of (byte c - 32) else c) u)"

definition fold_name :: "string \<Rightarrow> string" where
  "fold_name s = concat (map fold_rune (runes s))"

type_synonym 'a setters = "(string \<times> (json \<Rightarrow> 'a \<Rightarrow> 'a option)) list"

definition set_member :: "'a setters \<Rightarrow> string \<times> json \<Rightarrow> 'a \<Rightarrow> 'a option" where
  \<comment> \<open>members no field has the name of are ignored\<close>
  "set_member fs m x =
     (case find (\<lambda>(n, _). fold_name n = fold_name (fst m)) fs of
        None \<Rightarrow> Some x
      | Some (_, put) \<Rightarrow> put (snd m) x)"

primrec set_members :: "'a setters \<Rightarrow> (string \<times> json) list \<Rightarrow> 'a \<Rightarrow> 'a option" where
  "set_members fs [] x = Some x"
| "set_members fs (m # ms) x = Option.bind (set_member fs m x) (set_members fs ms)"

definition decode :: "'a setters \<Rightarrow> json \<Rightarrow> 'a \<Rightarrow> 'a option" where
  \<comment> \<open>\<open>None\<close> is a value of another type\<close>
  "decode fs v x = (case v of
       JNull \<Rightarrow> Some x
     | JObj ms \<Rightarrow> set_members fs ms x
     | _ \<Rightarrow> None)"

definition put_string :: "(string \<Rightarrow> 'a \<Rightarrow> 'a) \<Rightarrow> json \<Rightarrow> 'a \<Rightarrow> 'a option" where
  "put_string put v x = (case v of JNull \<Rightarrow> Some x | JStr s \<Rightarrow> Some (put s x) | _ \<Rightarrow> None)"

definition put_bool :: "(bool \<Rightarrow> 'a \<Rightarrow> 'a) \<Rightarrow> json \<Rightarrow> 'a \<Rightarrow> 'a option" where
  "put_bool put v x = (case v of JNull \<Rightarrow> Some x | JBool b \<Rightarrow> Some (put b x) | _ \<Rightarrow> None)"

definition put_int :: "(int \<Rightarrow> 'a \<Rightarrow> 'a) \<Rightarrow> json \<Rightarrow> 'a \<Rightarrow> 'a option" where
  "put_int put v x = (case v of JNull \<Rightarrow> Some x
     | JNum i \<Rightarrow> if - int64_max - 1 \<le> i \<and> i \<le> int64_max then Some (put i x) else None
     | _ \<Rightarrow> None)"

definition put_any :: "(json option \<Rightarrow> 'a \<Rightarrow> 'a) \<Rightarrow> json \<Rightarrow> 'a \<Rightarrow> 'a option" where
  \<comment> \<open>null is nil\<close>
  "put_any put v x = Some (put (if v = JNull then None else Some (any_of v)) x)"

definition read_struct :: "'a setters \<Rightarrow> 'a \<Rightarrow> (string \<Rightarrow> string) \<Rightarrow> string \<Rightarrow> string + 'a" where
  "read_struct fs zero wording l =
     (case Option.bind (parse_json l) (\<lambda>v. decode fs v zero) of None \<Rightarrow> Inl (wording l) | Some x \<Rightarrow> Inr x)"

definition put_time :: "(time \<Rightarrow> 'a \<Rightarrow> 'a) \<Rightarrow> json \<Rightarrow> 'a \<Rightarrow> 'a option" where
  "put_time put v x = (case v of JNull \<Rightarrow> Some x | JStr s \<Rightarrow> map_option (\<lambda>t. put t x) (parseRFC3339 s) | _ \<Rightarrow> None)"

fun all_some :: "'b option list \<Rightarrow> 'b list option" where
  "all_some [] = Some []"
| "all_some (None # xs) = None"
| "all_some (Some y # xs) = map_option ((#) y) (all_some xs)"

definition put_list :: "(json \<Rightarrow> 'b option) \<Rightarrow> ('b list \<Rightarrow> 'a \<Rightarrow> 'a) \<Rightarrow> json \<Rightarrow> 'a \<Rightarrow> 'a option" where
  \<comment> \<open>null is the empty list\<close>
  "put_list read put v x = (case v of JNull \<Rightarrow> Some (put [] x)
     | JArr vs \<Rightarrow> map_option (\<lambda>ys. put ys x) (all_some (map read vs))
     | _ \<Rightarrow> None)"

definition opt_string :: "string \<Rightarrow> string \<Rightarrow> (string \<times> json) list" where
  \<comment> \<open>with \<^verbatim>\<open>omitempty\<close>\<close>
  "opt_string n s = (if s = [] then [] else [(n, JStr s)])"

definition opt_list :: "string \<Rightarrow> json list \<Rightarrow> (string \<times> json) list" where
  "opt_list n vs = (if vs = [] then [] else [(n, JArr vs)])"

lemma all_some_map [simp]: "\<forall>x \<in> set xs. f (g x) = Some x \<Longrightarrow> all_some (map (\<lambda>x. f (g x)) xs) = Some xs"
  by (induction xs) simp_all

lemma set_members_append [simp]:
  "set_members fs (xs @ ys) x = Option.bind (set_members fs xs x) (set_members fs ys)"
  by (induction xs arbitrary: x) (simp_all add: Option.bind_assoc split: Option.bind_split)

lemma set_members_opt:
  "set_member fs (n, JStr []) x = Some x \<Longrightarrow> set_members fs (opt_string n s) x = set_member fs (n, JStr s) x"
  by (cases "s = []"; cases "set_member fs (n, JStr s) x") (simp_all add: opt_string_def)

lemma set_members_opt_list:
  "set_member fs (n, JArr []) x = Some x \<Longrightarrow> set_members fs (opt_list n vs) x = set_member fs (n, JArr vs) x"
  by (cases "vs = []"; cases "set_member fs (n, JArr vs) x") (simp_all add: opt_list_def)

lemma list_all_opt [simp]:
  "P (n, JStr s) \<Longrightarrow> list_all P (opt_string n s)" "P (n, JArr vs) \<Longrightarrow> list_all P (opt_list n vs)"
  by (simp_all add: opt_string_def opt_list_def)

lemma decode_obj [simp]: "decode fs (JObj ms) x = set_members fs ms x"
  by (simp add: decode_def)

locale struct =
  fixes fs :: "'a setters"
  assumes names: "distinct (map (fold_name \<circ> fst) fs)"
begin

lemma member: "(n, put) \<in> set fs \<Longrightarrow> set_member fs (n, v) x = put v x"
proof -
  assume "(n, put) \<in> set fs"
  with names have "find (\<lambda>(m, _). fold_name m = fold_name n) fs = Some (n, put)"
  proof (induction fs)
    case (Cons f fs)
    then show ?case by (cases f) (auto simp: rev_image_eqI)
  qed simp
  then show ?thesis by (simp add: set_member_def)
qed

end

end
