(* ===== verification/Wire.thy ===== *)
theory Wire
  imports Json_Struct Daemon_Process
begin

text \<open>
  What travels over the socket: a request and a response as a line of JSON
  (\<^verbatim>\<open>protocol.go\<close>'s tags, \<^verbatim>\<open>request\<close> of \<^verbatim>\<open>client.go\<close>,
  \<^verbatim>\<open>handleConn\<close> and \<^verbatim>\<open>writeResp\<close> of \<^verbatim>\<open>daemon.go\<close>), and what of a
  signed request survives it. The wording of the library's errors is an argument.
\<close>

section \<open>Lines\<close>

definition request_json :: "request \<Rightarrow> json" where
  \<comment> \<open>the tags of \<^verbatim>\<open>Request\<close>: no member for an empty map\<close>
  "request_json req = JObj ((''op'', JStr (Op req)) #
     (if Args req = [] then [] else [(''args'', norm_json (JObj (Args req)))]))"

definition request_line :: "request \<Rightarrow> string" where
  "request_line req = write_json (request_json req) @ [nl]"

definition response_json :: "response \<Rightarrow> json" where
  \<comment> \<open>the tags of \<^verbatim>\<open>Response\<close>: nil, the empty text and zero are left out\<close>
  "response_json r = JObj ((''ok'', JBool (OK r)) #
     (case Data r of None \<Rightarrow> [] | Some d \<Rightarrow> [(''data'', d)])
     @ (if Error r = [] then [] else [(''error'', JStr (Error r))])
     @ (if Code r = 0 then [] else [(''code'', JNum (Code r))]))"

definition writeResp :: "response \<Rightarrow> string" where
  "writeResp r = write_json (response_json r) @ [nl]"

definition read_line :: "string \<Rightarrow> string option" where
  \<comment> \<open>\<^verbatim>\<open>ReadBytes\<close> up to a line break; without one it is an error\<close>
  "read_line input = (if nl \<in> set input then Some (takeWhile (\<lambda>c. c \<noteq> nl) input @ [nl]) else None)"

section \<open>Lines read\<close>

definition put_args :: "json \<Rightarrow> request \<Rightarrow> request option" where
  \<comment> \<open>a second map is added to the first, null makes it nil\<close>
  "put_args v r = (case v of
       JNull \<Rightarrow> Some (r\<lparr>Args := []\<rparr>)
     | JObj ms \<Rightarrow> Some (r\<lparr>Args := last_wins (map (\<lambda>(k, v). (k, any_of v)) ms) (Args r)\<rparr>)
     | _ \<Rightarrow> None)"

definition request_fields :: "request setters" where
  "request_fields = [(''op'', put_string (\<lambda>s r. r\<lparr>Op := s\<rparr>)), (''args'', put_args)]"

definition response_fields :: "response setters" where
  "response_fields =
     [(''ok'', put_bool (\<lambda>b r. r\<lparr>OK := b\<rparr>)),
      (''data'', put_any (\<lambda>d r. r\<lparr>Data := d\<rparr>)),
      (''error'', put_string (\<lambda>s r. r\<lparr>Error := s\<rparr>)),
      (''code'', put_int (\<lambda>i r. r\<lparr>Code := i\<rparr>))]"

definition read_request :: "(string \<Rightarrow> string) \<Rightarrow> string \<Rightarrow> string + request" where
  "read_request = read_struct request_fields \<lparr>Op = [], Args = []\<rparr>"

definition read_response :: "(string \<Rightarrow> string) \<Rightarrow> string \<Rightarrow> string + response" where
  "read_response = read_struct response_fields \<lparr>OK = False, Data = None, Error = [], Code = 0\<rparr>"

section \<open>An exchange\<close>

definition serve_line :: "env \<Rightarrow> (string \<Rightarrow> string) \<Rightarrow> string \<Rightarrow> state \<Rightarrow> string option \<times> state" where
  \<comment> \<open>what a connection carries back; a read that blocks has not answered yet\<close>
  "serve_line e wording input s =
     (case handleConn e (read_request wording) (read_line input) s of
        (Some (Done r), s) \<Rightarrow> (Some (writeResp r), s)
      | (_, s) \<Rightarrow> (None, s))"

definition arrived :: "request \<Rightarrow> request" where
  \<comment> \<open>a request as the daemon has it\<close>
  "arrived req = \<lparr>Op = validText (Op req), Args = map (\<lambda>(k, v). (k, arrives (norm_json v))) (sort_key fst (Args req))\<rparr>"

definition arrived_response :: "response \<Rightarrow> response" where
  "arrived_response r = r\<lparr>Data := (case Data r of Some JNull \<Rightarrow> None | d \<Rightarrow> map_option arrives d), Error := validText (Error r)\<rparr>"

definition response_ok :: "response \<Rightarrow> bool" where
  "response_ok r \<longleftrightarrow> - int64_max - 1 \<le> Code r \<and> Code r \<le> int64_max
     \<and> (case Data r of None \<Rightarrow> True | Some d \<Rightarrow> names_ok d)"

lemma read_line_write [simp]: "read_line (write_json j @ nl # x) = Some (write_json j @ [nl])"
proof -
  have "\<forall>c \<in> set (write_json j). c \<noteq> nl" using no_break[of j] by auto
  then show ?thesis by (simp add: read_line_def takeWhile_append2)
qed

lemma field_names [simp]:
  "utf8_ok ''op''" "utf8_ok ''args''" "utf8_ok ''ok''" "utf8_ok ''data''" "utf8_ok ''error''" "utf8_ok ''code''"
  by (rule ascii_ok, simp add: byte_def)+

interpretation request: struct request_fields
  by unfold_locales code_simp

interpretation response: struct response_fields
  by unfold_locales code_simp

lemma set_request [simp]:
  "set_member request_fields (''op'', v) r = put_string (\<lambda>s r. r\<lparr>Op := s\<rparr>) v r"
  "set_member request_fields (''args'', v) r = put_args v r"
  by (rule request.member, simp add: request_fields_def)+

lemma set_response [simp]:
  "set_member response_fields (''ok'', v) r = put_bool (\<lambda>b r. r\<lparr>OK := b\<rparr>) v r"
  "set_member response_fields (''data'', v) r = put_any (\<lambda>d r. r\<lparr>Data := d\<rparr>) v r"
  "set_member response_fields (''error'', v) r = put_string (\<lambda>s r. r\<lparr>Error := s\<rparr>) v r"
  "set_member response_fields (''code'', v) r = put_int (\<lambda>i r. r\<lparr>Code := i\<rparr>) v r"
  by (rule response.member, simp add: response_fields_def)+

lemma read_request_line:
  assumes "names_ok (JObj (Args req))"
  shows "read_request wording (request_line req) = Inr (arrived req)"
proof -
  let ?ms = "map (\<lambda>(k, v). (k, norm_json v)) (sort_key fst (Args req))"
  have ok: "names_ok (JObj ?ms)" using names_norm[OF assms] by (simp only: norm_obj)
  then have "names_ok (request_json req)" by (simp add: request_json_def norm_obj keys_ok_def del: norm_json.simps(2))
  from parse_write(1)[OF names_text[OF this]]
  have p: "parse_json (request_line req) = Some (arrives (request_json req))" by (simp add: request_line_def)
  have "map (\<lambda>(k, v). (k, any_of v)) (map (\<lambda>(k, v). (k, arrives v)) ?ms) = map (\<lambda>(k, v). (k, arrives v)) ?ms"
    using any_of_members[OF ok] by (simp add: case_prod_unfold comp_def)
  then have a: "last_wins (map (\<lambda>(k, v). (k, any_of v)) (map (\<lambda>(k, v). (k, arrives v)) ?ms)) [] = map (\<lambda>(k, v). (k, arrives v)) ?ms"
    using ok by (simp add: last_wins_new del: map_map)
  show ?thesis
  proof (cases "Args req")
    case Nil
    then show ?thesis by (simp add: read_request_def read_struct_def p request_json_def decode_def put_string_def put_args_def arrived_def)
  next
    case (Cons m ms)
    have "map (\<lambda>(k, v). (k, arrives v)) ?ms = map (\<lambda>(k, v). (k, arrives (norm_json v))) (sort_key fst (Args req))"
      by (simp add: case_prod_unfold)
    then show ?thesis using a Cons
      by (simp add: read_request_def read_struct_def p request_json_def decode_def put_string_def put_args_def arrived_def norm_obj
          del: norm_json.simps(2) map_map)
  qed
qed

lemma read_response_line:
  assumes "response_ok r"
  shows "read_response wording (writeResp r) = Inr (arrived_response r)"
proof -
  have "names_ok (response_json r)"
    using assms by (auto simp: response_json_def response_ok_def keys_ok_def split: option.splits)
  from parse_write(1)[OF names_text[OF this]]
  have p: "parse_json (writeResp r) = Some (arrives (response_json r))" by (simp add: writeResp_def)
  have null: "arrives d = JNull \<longleftrightarrow> d = JNull" for d by (cases d) simp_all
  obtain d where d: "Data r = d" by blast
  show ?thesis unfolding read_response_def read_struct_def p using assms
    by (cases d; simp add: d response_json_def response_ok_def decode_def put_string_def put_bool_def put_int_def put_any_def
        arrived_response_def null any_of_arrives)
      (auto simp: null any_of_arrives intro!: response.equality split: json.split)
qed

text \<open>A value keeps its names, so the handlers find the same arguments, their strings as text.\<close>

lemma map_of_arrived:
  assumes "keys_ok (Args req)"
  shows "map_of (Args (arrived req)) k = map_option (\<lambda>v. arrives (norm_json v)) (map_of (Args req) k)"
proof -
  have "map_of (sort_key fst (Args req)) = map_of (Args req)"
    using assms by (intro map_of_perm keys_ok_sorted) auto
  then show ?thesis by (simp add: arrived_def map_of_map)
qed

lemma vals_arrived:
  assumes "keys_ok (Args req)"
  shows "strVal (Args (arrived req)) k = validText (strVal (Args req) k)"
    "numVal (Args (arrived req)) k = numVal (Args req) k" "boolVal (Args (arrived req)) k = boolVal (Args req) k"
  by (auto simp: strVal_def numVal_def boolVal_def map_of_arrived[OF assms] split: option.split json.split)


section \<open>Signatures over the wire\<close>

lemma stripped_arrived:
  "stripped (Args (arrived req)) = map (\<lambda>(k, v). (k, arrives (norm_json v))) (sort_key fst (stripped (Args req)))"
proof -
  have fl: "filter (\<lambda>(k, v). k \<noteq> ''sig'') (map (\<lambda>(k, v). (k, f v)) m) = map (\<lambda>(k, v). (k, f v)) (filter (\<lambda>(k, v). k \<noteq> ''sig'') m)"
    for f and m :: "(string, json) gomap" by (induction m) auto
  show ?thesis unfolding stripped_def arrived_def request.simps fl filter_sort by (rule refl)
qed

lemma sort_values: "sort_key fst (map (\<lambda>(k, v). (k, f v)) m) = map (\<lambda>(k, v). (k, f v)) (sort_key fst m)"
  by (simp add: sort_key_map case_prod_unfold)

lemma pairs_of_arrives:
  "\<forall>(k, v) \<in> set m. utf8_ok k \<Longrightarrow>
     JArr (pairs_of (map (\<lambda>(k, v). (k, arrives (norm_json v))) m)) = arrives (JArr (pairs_of m))"
  by (induction m rule: pairs_of.induct) (auto simp: norm_arrives validText_ok)

lemma canonical_arrives:
  assumes "names_ok (JObj (Args req))"
  shows "canonicalArgs (Some (Args (arrived req))) = arrives (canonicalArgs (Some (Args req)))"
proof -
  have "\<forall>(k, v) \<in> set (sort_key fst (stripped (Args req))). utf8_ok k"
    using assms by (auto simp: stripped_def list_all_iff)
  from pairs_of_arrives[OF this] show ?thesis
    by (simp add: canonicalArgs_def stripped_arrived sort_values del: arrives.simps)
qed

lemma strings_canonical:
  assumes "names_ok (JObj args)"
  shows "strings_ok (canonicalArgs (Some args)) \<longleftrightarrow> strings_ok (JObj (stripped args))"
proof -
  have "strings_ok (JArr (pairs_of m)) \<longleftrightarrow> strings_ok (JObj m)" if "\<forall>(k, v) \<in> set m. utf8_ok k" for m
    using that by (induction m rule: pairs_of.induct) auto
  moreover have "\<forall>(k, v) \<in> set (sort_key fst (stripped args)). utf8_ok k"
    using assms by (auto simp: stripped_def list_all_iff)
  ultimately have "strings_ok (canonicalArgs (Some args)) \<longleftrightarrow> strings_ok (JObj (sort_key fst (stripped args)))"
    by (simp add: canonicalArgs_def)
  then show ?thesis by (simp add: list_all_iff)
qed

lemma hexEncode_ok: "utf8_ok (hexEncode s)"
proof (rule ascii_ok)
  have "byte (hexDigit d) < 128" if "d < 16" for d using of_char_hexDigit[OF that] that by (simp add: byte_def)
  moreover have "of_char c div 16 < (16::nat)" for c
    using byte_less[of c] unfolding byte_def by linarith
  ultimately show "list_all (\<lambda>c. byte c < 128) (hexEncode s)" by (induction s rule: hexEncode.induct) simp_all
qed

lemma names_update:
  assumes "names_ok (JObj args)" "utf8_ok k" "names_ok v"
  shows "names_ok (JObj (AList.update k v args))"
proof -
  have "set (AList.update k v m) \<subseteq> insert (k, v) (set m)" for m by (induction m) auto
  then have "\<forall>x \<in> set (AList.update k v args). x = (k, v) \<or> x \<in> set args" by blast
  then show ?thesis using assms by (fastforce simp: list_all_iff)
qed

lemma verify_arrived:
  assumes "names_ok (JObj args)" "req = \<lparr>Op = op, Args = AList.update ''sig'' (JStr (signRequest sign priv args)) args\<rparr>"
    "\<And>m m'. verifySig e (pubOf e priv) m (sign priv m') \<longleftrightarrow> marshal m = marshal m'"
    "length (pubOf e priv) = publicKeySize" "\<And>m. sign priv m \<noteq> []"
  shows "verifyRequest e (hexEncode (pubOf e priv)) (Args (arrived req))
    = (if strings_ok (JObj (stripped args)) then None else Some SigInvalid)"
proof -
  let ?c = "canonicalArgs (Some args)"
  have sig: "utf8_ok ''sig''" by (rule ascii_ok) (simp add: byte_def)
  have names: "names_ok (JObj (Args req))" using names_update[OF assms(1) sig] by (simp add: assms(2))
  have "map_of (Args (arrived req)) ''sig'' = Some (JStr (hexEncode (sign priv ?c)))"
    using map_of_arrived[of req "''sig''"] names by (simp add: assms(2) signRequest_def validText_ok hexEncode_ok)
  moreover have "canonicalArgs (Some (Args req)) = ?c" by (simp add: assms(2) canonicalArgs_def)
  then have "canonicalArgs (Some (Args (arrived req))) = arrives ?c" using canonical_arrives[OF names] by simp
  moreover have "hexEncode (sign priv ?c) \<noteq> []" using assms(5)[of ?c] by (cases "sign priv ?c") auto
  ultimately show ?thesis
    using assms(3,4) marshal_changes_iff[of ?c] strings_canonical[OF assms(1)] by (simp add: verifyRequest_def)
qed


end
