(* ===== verification/Stored_Files.thy ===== *)
theory Stored_Files
  imports Json_Struct Nicknames
begin

text \<open>
  The text of the files that the rest of the model keeps as records: an agent in \<^verbatim>\<open>registry/\<close>
  (\<^verbatim>\<open>persistAgent\<close>, \<^verbatim>\<open>loadRegistry\<close>), a task list
  (\<^verbatim>\<open>persistTaskList\<close>, \<^verbatim>\<open>loadTaskLists\<close>) and the nicknames of a user
  (\<^verbatim>\<open>saveNicknames\<close>, \<^verbatim>\<open>loadNicknames\<close>), written with
  \<^verbatim>\<open>json.MarshalIndent\<close> and read into the structs with their tags.
\<close>

definition time_json :: "time \<Rightarrow> json" where
  "time_json t = JStr (rfc3339nano t)"

definition in_calendar :: "time \<Rightarrow> bool" where
  \<comment> \<open>the years that have a text\<close>
  "in_calendar t \<longleftrightarrow> zero_time \<le> t \<and> t < 253402300800 * second"

definition fits_int :: "int \<Rightarrow> bool" where
  "fits_int i \<longleftrightarrow> - int64_max - 1 \<le> i \<and> i \<le> int64_max"

lemma time_text [simp]: "strings_ok (time_json t)"
proof -
  have dig: "byte a < 128" if "a \<in> set (padW w i)" for a w i
  proof -
    have "list_all isDigit (padW w i)" unfolding padW_def by (intro list_all_padLeft itoaN_digits)
    then have "isDigit a" using that by (simp add: list_all_iff)
    then show ?thesis by (simp add: isDigit_def byte_def)
  qed
  have "byte a < 128" if "a \<in> set (dateTime t)" for a
    using that unfolding dateTime_def Let_def case_prod_unfold set_append Un_iff by (auto simp: byte_def dest!: dig[unfolded byte_def])
  moreover have "byte a < 128" if "a \<in> set (fraction i)" for a i
    using that dig[of a 9 i] by (auto simp: fraction_def trimZeros_def byte_def dest: set_dropWhileD split: if_splits)
  ultimately have "list_all (\<lambda>c. byte c < 128) (rfc3339nano t)"
    by (auto simp: rfc3339nano_def list_all_iff byte_def)
  then show ?thesis by (simp add: time_json_def ascii_ok)
qed

lemma put_time_json [simp]: "in_calendar t \<Longrightarrow> put_time put (time_json t) x = Some (put t x)"
  by (simp add: put_time_def time_json_def in_calendar_def parse_nano)

lemma put_plain [simp]:
  "put_string put (JStr s) x = Some (put s x)" "fits_int i \<Longrightarrow> put_int put' (JNum i) x = Some (put' i x)"
  by (simp_all add: put_string_def put_int_def fits_int_def)

lemma put_list_map [simp]:
  "\<forall>y \<in> set ys. read (f y) = Some y \<Longrightarrow> put_list read put (JArr (map f ys)) x = Some (put ys x)"
  "put_list read put (JArr []) x = Some (put [] x)"
  by (simp_all add: put_list_def comp_def)

lemma time_members [simp]: "names_text (time_json t)"
  by (simp add: time_json_def)

section \<open>Agents\<close>

definition agent_file :: "agent \<Rightarrow> json" where
  "agent_file a = JObj (
     [(''agent_id'', JStr (ag_AgentID a)), (''name'', JStr (ag_Name a)), (''pubkey'', JStr (ag_Pubkey a))]
     @ opt_string ''role'' (ag_Role a) @ opt_string ''harness'' (ag_Harness a) @ opt_string ''model'' (ag_Model a)
     @ opt_string ''project'' (ag_Project a) @ opt_string ''repo_url'' (ag_RepoURL a)
     @ opt_string ''repo_root'' (ag_RepoRoot a) @ opt_string ''main_repo_root'' (ag_MainRepoRoot a)
     @ opt_string ''worktree_kind'' (ag_WorktreeKind a) @ opt_string ''worktree'' (ag_Worktree a)
     @ opt_string ''branch'' (ag_Branch a) @ opt_string ''cwd'' (ag_CWD a)
     @ [(''pid'', JNum (ag_PID a)), (''started_at'', time_json (ag_StartedAt a)),
        (''last_seen_at'', time_json (ag_LastSeenAt a)), (''expires_at'', time_json (ag_ExpiresAt a))])"

definition agent_fields :: "agent setters" where
  "agent_fields =
     [(''agent_id'', put_string (\<lambda>s a. a\<lparr>ag_AgentID := s\<rparr>)), (''name'', put_string (\<lambda>s a. a\<lparr>ag_Name := s\<rparr>)),
      (''pubkey'', put_string (\<lambda>s a. a\<lparr>ag_Pubkey := s\<rparr>)), (''role'', put_string (\<lambda>s a. a\<lparr>ag_Role := s\<rparr>)),
      (''harness'', put_string (\<lambda>s a. a\<lparr>ag_Harness := s\<rparr>)), (''model'', put_string (\<lambda>s a. a\<lparr>ag_Model := s\<rparr>)),
      (''project'', put_string (\<lambda>s a. a\<lparr>ag_Project := s\<rparr>)), (''repo_url'', put_string (\<lambda>s a. a\<lparr>ag_RepoURL := s\<rparr>)),
      (''repo_root'', put_string (\<lambda>s a. a\<lparr>ag_RepoRoot := s\<rparr>)),
      (''main_repo_root'', put_string (\<lambda>s a. a\<lparr>ag_MainRepoRoot := s\<rparr>)),
      (''worktree_kind'', put_string (\<lambda>s a. a\<lparr>ag_WorktreeKind := s\<rparr>)),
      (''worktree'', put_string (\<lambda>s a. a\<lparr>ag_Worktree := s\<rparr>)), (''branch'', put_string (\<lambda>s a. a\<lparr>ag_Branch := s\<rparr>)),
      (''cwd'', put_string (\<lambda>s a. a\<lparr>ag_CWD := s\<rparr>)), (''pid'', put_int (\<lambda>i a. a\<lparr>ag_PID := i\<rparr>)),
      (''started_at'', put_time (\<lambda>t a. a\<lparr>ag_StartedAt := t\<rparr>)), (''last_seen_at'', put_time (\<lambda>t a. a\<lparr>ag_LastSeenAt := t\<rparr>)),
      (''expires_at'', put_time (\<lambda>t a. a\<lparr>ag_ExpiresAt := t\<rparr>))]"

definition read_agent :: "(string \<Rightarrow> string) \<Rightarrow> string \<Rightarrow> string + agent" where
  "read_agent = read_struct agent_fields empty_agent"

definition agent_ok :: "agent \<Rightarrow> bool" where
  "agent_ok a \<longleftrightarrow> strings_ok (agent_file a) \<and> fits_int (ag_PID a)
     \<and> in_calendar (ag_StartedAt a) \<and> in_calendar (ag_LastSeenAt a) \<and> in_calendar (ag_ExpiresAt a)"

interpretation agent: struct agent_fields
  by unfold_locales code_simp

lemma agent_set [simp]:
  "set_member agent_fields (''agent_id'', v) a = put_string (\<lambda>s a. a\<lparr>ag_AgentID := s\<rparr>) v a"
  "set_member agent_fields (''name'', v) a = put_string (\<lambda>s a. a\<lparr>ag_Name := s\<rparr>) v a"
  "set_member agent_fields (''pubkey'', v) a = put_string (\<lambda>s a. a\<lparr>ag_Pubkey := s\<rparr>) v a"
  "set_member agent_fields (''role'', v) a = put_string (\<lambda>s a. a\<lparr>ag_Role := s\<rparr>) v a"
  "set_member agent_fields (''harness'', v) a = put_string (\<lambda>s a. a\<lparr>ag_Harness := s\<rparr>) v a"
  "set_member agent_fields (''model'', v) a = put_string (\<lambda>s a. a\<lparr>ag_Model := s\<rparr>) v a"
  "set_member agent_fields (''project'', v) a = put_string (\<lambda>s a. a\<lparr>ag_Project := s\<rparr>) v a"
  "set_member agent_fields (''repo_url'', v) a = put_string (\<lambda>s a. a\<lparr>ag_RepoURL := s\<rparr>) v a"
  "set_member agent_fields (''repo_root'', v) a = put_string (\<lambda>s a. a\<lparr>ag_RepoRoot := s\<rparr>) v a"
  "set_member agent_fields (''main_repo_root'', v) a = put_string (\<lambda>s a. a\<lparr>ag_MainRepoRoot := s\<rparr>) v a"
  "set_member agent_fields (''worktree_kind'', v) a = put_string (\<lambda>s a. a\<lparr>ag_WorktreeKind := s\<rparr>) v a"
  "set_member agent_fields (''worktree'', v) a = put_string (\<lambda>s a. a\<lparr>ag_Worktree := s\<rparr>) v a"
  "set_member agent_fields (''branch'', v) a = put_string (\<lambda>s a. a\<lparr>ag_Branch := s\<rparr>) v a"
  "set_member agent_fields (''cwd'', v) a = put_string (\<lambda>s a. a\<lparr>ag_CWD := s\<rparr>) v a"
  "set_member agent_fields (''pid'', v) a = put_int (\<lambda>i a. a\<lparr>ag_PID := i\<rparr>) v a"
  "set_member agent_fields (''started_at'', v) a = put_time (\<lambda>t a. a\<lparr>ag_StartedAt := t\<rparr>) v a"
  "set_member agent_fields (''last_seen_at'', v) a = put_time (\<lambda>t a. a\<lparr>ag_LastSeenAt := t\<rparr>) v a"
  "set_member agent_fields (''expires_at'', v) a = put_time (\<lambda>t a. a\<lparr>ag_ExpiresAt := t\<rparr>) v a"
  by (rule agent.member, simp add: agent_fields_def)+

lemma agent_names: "names_text (agent_file a)"
proof -
  have "list_all utf8_ok (map fst agent_fields)" by code_simp
  then show ?thesis by (simp add: agent_fields_def agent_file_def)
qed

lemma decode_agent: "agent_ok a \<Longrightarrow> decode agent_fields (agent_file a) empty_agent = Some a"
  by (cases a) (simp add: agent_ok_def agent_file_def empty_agent_def set_members_opt)

lemma agent_reads_back:
  assumes "agent_ok a"
  shows "read_agent wording (indent_json (agent_file a) @ [nl]) = Inr a"
proof -
  have "arrives (agent_file a) = agent_file a" using assms by (intro arrives_unchanged) (simp add: agent_ok_def)
  then show ?thesis by (simp add: read_agent_def read_struct_def parse_indent[OF agent_names] decode_agent[OF assms])
qed

section \<open>Task lists\<close>

definition contract_fields :: "contract setters" where
  "contract_fields = [(''other_slug'', put_string (\<lambda>s c. c\<lparr>OtherSlug := s\<rparr>)), (''note'', put_string (\<lambda>s c. c\<lparr>Note := s\<rparr>))]"

definition empty_contract :: contract where
  "empty_contract = \<lparr>OtherSlug = [], Note = []\<rparr>"

definition read_text :: "json \<Rightarrow> string option" where
  \<comment> \<open>an element of a list of strings\<close>
  "read_text v = (case v of JStr s \<Rightarrow> Some s | JNull \<Rightarrow> Some [] | _ \<Rightarrow> None)"

definition task_json :: "task \<Rightarrow> json" where
  "task_json t = JObj ([(''slug'', JStr (t_Slug t))]
     @ opt_string ''branch'' (t_Branch t) @ opt_string ''brief'' (t_Brief t)
     @ opt_list ''owned_paths'' (map JStr (t_OwnedPaths t)) @ opt_list ''contracts'' (map contract_json (t_Contracts t))
     @ opt_string ''worktree'' (t_Worktree t) @ opt_string ''owner'' (t_Owner t)
     @ [(''status'', JStr (t_Status t)), (''updated_at'', time_json (t_UpdatedAt t))])"

definition task_fields :: "task setters" where
  "task_fields =
     [(''slug'', put_string (\<lambda>s t. t\<lparr>t_Slug := s\<rparr>)), (''branch'', put_string (\<lambda>s t. t\<lparr>t_Branch := s\<rparr>)),
      (''brief'', put_string (\<lambda>s t. t\<lparr>t_Brief := s\<rparr>)), (''owned_paths'', put_list read_text (\<lambda>xs t. t\<lparr>t_OwnedPaths := xs\<rparr>)),
      (''contracts'', put_list (\<lambda>v. decode contract_fields v empty_contract) (\<lambda>xs t. t\<lparr>t_Contracts := xs\<rparr>)),
      (''worktree'', put_string (\<lambda>s t. t\<lparr>t_Worktree := s\<rparr>)), (''owner'', put_string (\<lambda>s t. t\<lparr>t_Owner := s\<rparr>)),
      (''status'', put_string (\<lambda>s t. t\<lparr>t_Status := s\<rparr>)), (''updated_at'', put_time (\<lambda>u t. t\<lparr>t_UpdatedAt := u\<rparr>))]"

definition zero_task :: task where
  "zero_task = \<lparr>t_Slug = [], t_Branch = [], t_Brief = [], t_OwnedPaths = [], t_Contracts = [], t_Worktree = [], t_Owner = [],
     t_Status = [], t_UpdatedAt = zero_time\<rparr>"

definition list_file :: "taskList \<Rightarrow> json" where
  \<comment> \<open>an empty list of tasks is written as one; Go writes null for the one that was never made, which reads the same\<close>
  "list_file l = JObj ([(''project_id'', JStr (tl_ProjectID l)), (''supervisor'', JStr (tl_Supervisor l))]
     @ opt_string ''repo_root'' (tl_RepoRoot l)
     @ [(''tasks'', JArr (map task_json (tl_Tasks l))), (''updated_at'', time_json (tl_UpdatedAt l))])"

definition list_fields :: "taskList setters" where
  "list_fields =
     [(''project_id'', put_string (\<lambda>s l. l\<lparr>tl_ProjectID := s\<rparr>)), (''supervisor'', put_string (\<lambda>s l. l\<lparr>tl_Supervisor := s\<rparr>)),
      (''repo_root'', put_string (\<lambda>s l. l\<lparr>tl_RepoRoot := s\<rparr>)),
      (''tasks'', put_list (\<lambda>v. decode task_fields v zero_task) (\<lambda>xs l. l\<lparr>tl_Tasks := xs\<rparr>)),
      (''updated_at'', put_time (\<lambda>u l. l\<lparr>tl_UpdatedAt := u\<rparr>))]"

definition zero_list :: taskList where
  "zero_list = \<lparr>tl_ProjectID = [], tl_Supervisor = [], tl_RepoRoot = [], tl_Tasks = [], tl_UpdatedAt = zero_time\<rparr>"

definition read_list :: "(string \<Rightarrow> string) \<Rightarrow> string \<Rightarrow> string + taskList" where
  "read_list = read_struct list_fields zero_list"

definition list_ok :: "taskList \<Rightarrow> bool" where
  "list_ok l \<longleftrightarrow> strings_ok (list_file l) \<and> in_calendar (tl_UpdatedAt l)
     \<and> list_all (\<lambda>t. in_calendar (t_UpdatedAt t)) (tl_Tasks l)"

interpretation contract: struct contract_fields
  by unfold_locales code_simp

interpretation task: struct task_fields
  by unfold_locales code_simp

interpretation task_list: struct list_fields
  by unfold_locales code_simp

lemma contract_set [simp]:
  "set_member contract_fields (''other_slug'', v) c = put_string (\<lambda>s c. c\<lparr>OtherSlug := s\<rparr>) v c"
  "set_member contract_fields (''note'', v) c = put_string (\<lambda>s c. c\<lparr>Note := s\<rparr>) v c"
  by (rule contract.member, simp add: contract_fields_def)+

lemma task_set [simp]:
  "set_member task_fields (''slug'', v) t = put_string (\<lambda>s t. t\<lparr>t_Slug := s\<rparr>) v t"
  "set_member task_fields (''branch'', v) t = put_string (\<lambda>s t. t\<lparr>t_Branch := s\<rparr>) v t"
  "set_member task_fields (''brief'', v) t = put_string (\<lambda>s t. t\<lparr>t_Brief := s\<rparr>) v t"
  "set_member task_fields (''owned_paths'', v) t = put_list read_text (\<lambda>xs t. t\<lparr>t_OwnedPaths := xs\<rparr>) v t"
  "set_member task_fields (''contracts'', v) t
     = put_list (\<lambda>v. decode contract_fields v empty_contract) (\<lambda>xs t. t\<lparr>t_Contracts := xs\<rparr>) v t"
  "set_member task_fields (''worktree'', v) t = put_string (\<lambda>s t. t\<lparr>t_Worktree := s\<rparr>) v t"
  "set_member task_fields (''owner'', v) t = put_string (\<lambda>s t. t\<lparr>t_Owner := s\<rparr>) v t"
  "set_member task_fields (''status'', v) t = put_string (\<lambda>s t. t\<lparr>t_Status := s\<rparr>) v t"
  "set_member task_fields (''updated_at'', v) t = put_time (\<lambda>u t. t\<lparr>t_UpdatedAt := u\<rparr>) v t"
  by (rule task.member, simp add: task_fields_def)+

lemma list_set [simp]:
  "set_member list_fields (''project_id'', v) l = put_string (\<lambda>s l. l\<lparr>tl_ProjectID := s\<rparr>) v l"
  "set_member list_fields (''supervisor'', v) l = put_string (\<lambda>s l. l\<lparr>tl_Supervisor := s\<rparr>) v l"
  "set_member list_fields (''repo_root'', v) l = put_string (\<lambda>s l. l\<lparr>tl_RepoRoot := s\<rparr>) v l"
  "set_member list_fields (''tasks'', v) l = put_list (\<lambda>v. decode task_fields v zero_task) (\<lambda>xs l. l\<lparr>tl_Tasks := xs\<rparr>) v l"
  "set_member list_fields (''updated_at'', v) l = put_time (\<lambda>u l. l\<lparr>tl_UpdatedAt := u\<rparr>) v l"
  by (rule task_list.member, simp add: list_fields_def)+

lemma list_names: "names_text (list_file l)"
proof -
  have "list_all utf8_ok (map fst contract_fields @ map fst task_fields @ map fst list_fields)" by code_simp
  then have u: "list_all utf8_ok (map fst contract_fields)" "list_all utf8_ok (map fst task_fields)" "list_all utf8_ok (map fst list_fields)"
    by simp_all
  have c: "names_text (contract_json c)" for c using u(1) by (simp add: contract_fields_def contract_json_def)
  have "names_text (task_json t)" for t
    using u(2) c by (simp add: task_fields_def task_json_def list.pred_map comp_def list.pred_True)
  then show ?thesis using u(3) by (simp add: list_fields_def list_file_def list.pred_map comp_def list.pred_True)
qed

lemma decode_contract [simp]: "decode contract_fields (contract_json c) empty_contract = Some c"
  by (cases c) (simp add: contract_json_def empty_contract_def)

lemma decode_task: "in_calendar (t_UpdatedAt t) \<Longrightarrow> decode task_fields (task_json t) zero_task = Some t"
  by (cases t) (simp add: task_json_def zero_task_def set_members_opt set_members_opt_list read_text_def)

lemma list_reads_back:
  assumes "list_ok l"
  shows "read_list wording (indent_json (list_file l) @ [nl]) = Inr l"
proof -
  have "arrives (list_file l) = list_file l" using assms by (intro arrives_unchanged) (simp add: list_ok_def)
  moreover have "decode list_fields (list_file l) zero_list = Some l"
    using assms by (cases l) (simp add: list_ok_def list_file_def zero_list_def set_members_opt decode_task list_all_iff)
  ultimately show ?thesis by (simp add: read_list_def read_struct_def parse_indent[OF list_names])
qed

section \<open>Nicknames\<close>

definition nickname_json :: "nickname \<Rightarrow> json" where
  "nickname_json n = JObj ([(''mode'', JStr (nk_Mode n))] @ opt_string ''agent_id'' (nk_AgentID n)
     @ [(''address'', JStr (nk_Address n))])"

definition nickname_fields :: "nickname setters" where
  "nickname_fields = [(''mode'', put_string (\<lambda>s n. n\<lparr>nk_Mode := s\<rparr>)), (''agent_id'', put_string (\<lambda>s n. n\<lparr>nk_AgentID := s\<rparr>)),
     (''address'', put_string (\<lambda>s n. n\<lparr>nk_Address := s\<rparr>))]"

definition zero_nickname :: nickname where
  "zero_nickname = \<lparr>nk_Mode = [], nk_AgentID = [], nk_Address = []\<rparr>"

definition nicknames_text :: "(string, nickname) gomap \<Rightarrow> string" where
  \<comment> \<open>what \<^verbatim>\<open>saveNicknames\<close> writes: the names in order\<close>
  "nicknames_text m = indent_json (JObj (map (\<lambda>(k, n). (k, nickname_json n)) (sort_key fst m))) @ [nl]"

fun read_nicknames :: "(string \<times> json) list \<Rightarrow> (string, nickname) gomap \<Rightarrow> (string, nickname) gomap option" where
  "read_nicknames [] m = Some m"
| "read_nicknames ((k, v) # ms) m = (case decode nickname_fields v zero_nickname of
       None \<Rightarrow> None
     | Some n \<Rightarrow> read_nicknames ms (AList.update k n m))"

definition loadNicknames :: "(string \<Rightarrow> string) \<Rightarrow> string option \<Rightarrow> string + (string, nickname) gomap option" where
  \<comment> \<open>the content of the file, if there is one; a file of \<^verbatim>\<open>null\<close> is the nil map\<close>
  "loadNicknames wording file =
     (case file of
        None \<Rightarrow> Inr (Some [])
      | Some t \<Rightarrow>
          let err = Inl (''nicknames.json parse error: '' @ wording t)
          in (case parse_json t of
                None \<Rightarrow> err
              | Some JNull \<Rightarrow> Inr None
              | Some (JObj ms) \<Rightarrow> (case read_nicknames ms [] of None \<Rightarrow> err | Some m \<Rightarrow> Inr (Some m))
              | Some _ \<Rightarrow> err))"

definition nicknames_ok :: "(string, nickname) gomap \<Rightarrow> bool" where
  "nicknames_ok m \<longleftrightarrow> keys_ok m \<and> list_all (\<lambda>(k, n). utf8_ok k \<and> strings_ok (nickname_json n)) m"

interpretation nickname: struct nickname_fields
  by unfold_locales code_simp

lemma nickname_set [simp]:
  "set_member nickname_fields (''mode'', v) n = put_string (\<lambda>s n. n\<lparr>nk_Mode := s\<rparr>) v n"
  "set_member nickname_fields (''agent_id'', v) n = put_string (\<lambda>s n. n\<lparr>nk_AgentID := s\<rparr>) v n"
  "set_member nickname_fields (''address'', v) n = put_string (\<lambda>s n. n\<lparr>nk_Address := s\<rparr>) v n"
  by (rule nickname.member, simp add: nickname_fields_def)+

lemma nickname_names: "names_text (nickname_json n)"
proof -
  have "list_all utf8_ok (map fst nickname_fields)" by code_simp
  then show ?thesis by (simp add: nickname_fields_def nickname_json_def)
qed

lemma decode_nickname [simp]: "decode nickname_fields (nickname_json n) zero_nickname = Some n"
  by (cases n) (simp add: nickname_json_def zero_nickname_def set_members_opt)

lemma read_nicknames_new:
  "keys_ok (m @ ms) \<Longrightarrow> read_nicknames (map (\<lambda>(k, n). (k, nickname_json n)) ms) m = Some (m @ ms)"
proof (induction ms arbitrary: m)
  case (Cons p ms)
  then show ?case by (cases p) (auto simp: keys_ok_def update_new)
qed simp

lemma nicknames_read_back:
  assumes "nicknames_ok m"
  shows "loadNicknames wording (Some (nicknames_text m)) = Inr (Some (sort_key fst m))"
proof -
  let ?j = "JObj (map (\<lambda>(k, n). (k, nickname_json n)) (sort_key fst m))"
  have ok: "names_text ?j" "strings_ok ?j" using assms nickname_names by (auto simp: nicknames_ok_def list_all_iff)
  have "read_nicknames (map (\<lambda>(k, n). (k, nickname_json n)) (sort_key fst m)) [] = Some (sort_key fst m)"
    using assms read_nicknames_new[of "[]" "sort_key fst m"] by (simp add: nicknames_ok_def keys_ok_sorted)
  moreover have "parse_json (nicknames_text m) = Some ?j"
    unfolding nicknames_text_def parse_indent[OF ok(1)] arrives_unchanged[OF ok(2)] by (rule refl)
  ultimately show ?thesis by (simp only: loadNicknames_def option.case json.case Let_def)
qed

section \<open>What was written is read\<close>

fun content_text :: "content \<Rightarrow> string" where
  \<comment> \<open>the bytes of a workspace file\<close>
  "content_text (Text s) = s"
| "content_text (AgentFile a) = indent_json (agent_file a) @ [nl]"
| "content_text (TaskFile l) = indent_json (list_file l) @ [nl]"

text \<open>C12: The files that hold records are read as they were written: an agent, a task list and the
  nicknames of a user come back from their JSON text with every field, empty ones, nested lists, white space in strings
  and nanoseconds included, as far as the strings are UTF-8, the times have a calendar year of four digits and the
  process number fits Go's \<^verbatim>\<open>int\<close>; the order of the nicknames is that of their names.\<close>

theorem stored_records_read_back:
  "(agent_ok a \<longrightarrow> read_agent wording (content_text (AgentFile a)) = Inr a)
    \<and> (list_ok l \<longrightarrow> read_list wording (content_text (TaskFile l)) = Inr l)
    \<and> (nicknames_ok m \<longrightarrow> loadNicknames wording (Some (nicknames_text m)) = Inr (Some (sort_key fst m))
        \<and> map_of (sort_key fst m) = map_of m)"
proof -
  have "map_of (sort_key fst m) = map_of m" if "keys_ok m"
    using that by (intro map_of_perm keys_ok_sorted) auto
  then show ?thesis using agent_reads_back list_reads_back nicknames_read_back by (simp add: nicknames_ok_def)
qed

end
