(* ===== verification/Examples_Wire.thy ===== *)
theory Examples_Wire
  imports Examples_Process Wire Stored_Files
begin

text \<open>
  The properties of the wire and of the stored files, applied to the agent of \<^verbatim>\<open>Examples_Daemon\<close>, its
  room, and records of their own.
\<close>

theorem unmarshal_write_witness:
  "unmarshal (write_json (JObj [(''n'', JNum (- 3)), (''body'', JArr [JStr [CHR ''a'', nl, CHR 0xE9]])]))
    = Some (JObj [(''n'', JNum (- 3)), (''body'', JArr [JStr (CHR ''a'' # nl # replacement)])])"
proof -
  let ?j = "JObj [(''n'', JNum (- 3)), (''body'', JArr [JStr [CHR ''a'', nl, CHR 0xE9]])]"
  have "names_ok ?j" "arrives ?j = JObj [(''n'', JNum (- 3)), (''body'', JArr [JStr (CHR ''a'' # nl # replacement)])]"
    by code_simp+
  then show ?thesis using unmarshal_write[of ?j] by (simp only:)
qed

theorem parse_json_complete_witness:
  "parse_json '' [1, {}] '' = Some (JArr [JNum 1, JObj []])"
proof -
  have "pvalue 9 '' [1, {}] '' = Some (JArr [JNum 1, JObj []], '' '')" "skip '' '' = []" by code_simp+
  then show ?thesis by (rule parse_json_complete)
qed


definition text_sign :: "string \<Rightarrow> json \<Rightarrow> string" where
  "text_sign priv m = CHR ''s'' # marshal m"

definition text_env :: env where
  \<comment> \<open>a signature is the text that was signed\<close>
  "text_env = demo_env\<lparr>verifySig := \<lambda>pub m sg. sg = CHR ''s'' # marshal m\<rparr>"


definition stored_agent :: agent where
  "stored_agent = empty_agent\<lparr>ag_AgentID := ''01C'', ag_Name := ''zoe'', ag_Branch := ''a<b'', ag_PID := 7,
     ag_StartedAt := 1700000000123450000, ag_ExpiresAt := 1700003600000000001\<rparr>"

definition stored_list :: taskList where
  "stored_list = \<lparr>tl_ProjectID = ''p'', tl_Supervisor = ''sv'', tl_RepoRoot = [], tl_Tasks =
     [\<lparr>t_Slug = ''api'', t_Branch = [], t_Brief = ''line'' @ [nl] @ ''two'', t_OwnedPaths = [''a'', ''b''],
       t_Contracts = [\<lparr>OtherSlug = ''ui'', Note = [dquote]\<rparr>], t_Worktree = [], t_Owner = ''bob'', t_Status = statusOpen,
       t_UpdatedAt = zero_time\<rparr>],
     tl_UpdatedAt = 1700000000000000000\<rparr>"

definition stored_nicknames :: "(string, nickname) gomap" where
  "stored_nicknames = [(''z'', \<lparr>nk_Mode = ''stable'', nk_AgentID = ''01C'', nk_Address = ''zoe''\<rparr>),
     (''b'', \<lparr>nk_Mode = ''follow'', nk_AgentID = [], nk_Address = ''bob@p''\<rparr>)]"

theorem stored_records_read_back_witness:
  "read_agent (\<lambda>l. l) (content_text (AgentFile stored_agent)) = Inr stored_agent
    \<and> read_list (\<lambda>l. l) (content_text (TaskFile stored_list)) = Inr stored_list
    \<and> (\<exists>m. loadNicknames (\<lambda>l. l) (Some (nicknames_text stored_nicknames)) = Inr (Some m) \<and> map_of m = map_of stored_nicknames)"
proof -
  have times: "in_calendar 1700000000123450000" "in_calendar 1700003600000000001" "in_calendar 1700000000000000000"
    "in_calendar zero_time"
    by (simp_all add: in_calendar_def zero_time_def second_def)
  have texts: "list_all utf8_ok [''01C'', ''zoe'', ''a<b'', ''p'', ''sv'', ''api'', ''line'' @ [nl] @ ''two'', ''a'', ''b'',
      ''ui'', [dquote], ''bob'', statusOpen, ''z'', ''stable'', ''follow'', ''bob@p'', []]" by code_simp
  have "agent_ok stored_agent"
    using times texts by (simp add: agent_ok_def agent_file_def stored_agent_def empty_agent_def opt_string_def fits_int_def int64_max_def)
  moreover have "list_ok stored_list"
    using times texts by (simp add: list_ok_def list_file_def task_json_def contract_json_def stored_list_def opt_string_def opt_list_def)
  moreover have "nicknames_ok stored_nicknames" by code_simp
  ultimately show ?thesis
    using stored_records_read_back[of stored_agent "\<lambda>l. l" stored_list stored_nicknames] by blast
qed

end
